(* ===== verification/Prelude.thy ===== *)
theory Prelude
  imports Main "HOL-Library.Word" "HOL-Library.AList"
begin

section \<open>Shared types, lemmas and the invariant rule\<close>

text \<open>
  What every component theory uses: the names of the Rust integer types, hash maps as
  association lists with distinct keys, the reachable states of a step relation with the
  rule that an inductive invariant holds in all of them, and the lemma collections that
  the component proofs pass to the simplifier.
\<close>

named_theorems hm_simps "lookup, key and distinctness facts of hash maps"
named_theorems host_simps "projections and updates of the host state"
named_theorems str_simps "facts about Rust strings"

type_synonym u16 = "16 word"
type_synonym u32 = "32 word"
type_synonym u64 = "64 word"
type_synonym bytes = "char list"

subsection \<open>Results\<close>

text \<open>
  A \<open>Result\<close> of the source is a sum, the error on the left. \<open>res_bind\<close> is the
  operator \<open>?\<close>: an error returns at once.
\<close>

definition res_bind :: "'e + 'a \<Rightarrow> ('a \<Rightarrow> 'e + 'b) \<Rightarrow> 'e + 'b" where
  "res_bind r f = (case r of Inl e \<Rightarrow> Inl e | Inr x \<Rightarrow> f x)"

lemma res_bind_simps [simp]: "res_bind (Inl e) f = Inl e" "res_bind (Inr x) f = f x"
  by (simp_all add: res_bind_def)

lemma res_bind_eq_Inr: "res_bind r f = Inr y \<longleftrightarrow> (\<exists>x. r = Inr x \<and> f x = Inr y)"
  by (cases r) simp_all

subsection \<open>Hash maps\<close>

text \<open>
  A \<open>HashMap\<close> is an association list with distinct keys. Its order stands for the
  iteration order of the hash map, which the code does not control: a theorem about all
  such lists is a theorem about every iteration order.
\<close>

type_synonym ('k, 'v) hashmap = "('k \<times> 'v) list"

abbreviation hm_get :: "('k, 'v) hashmap \<Rightarrow> 'k \<Rightarrow> 'v option" where
  "hm_get \<equiv> map_of"

abbreviation hm_insert :: "'k \<Rightarrow> 'v \<Rightarrow> ('k, 'v) hashmap \<Rightarrow> ('k, 'v) hashmap" where
  "hm_insert \<equiv> AList.update"

abbreviation hm_remove :: "'k \<Rightarrow> ('k, 'v) hashmap \<Rightarrow> ('k, 'v) hashmap" where
  "hm_remove \<equiv> AList.delete"

abbreviation hm_keys :: "('k, 'v) hashmap \<Rightarrow> 'k list" where
  "hm_keys \<equiv> map fst"

abbreviation hm_values :: "('k, 'v) hashmap \<Rightarrow> 'v list" where
  "hm_values \<equiv> map snd"

definition hm_contains :: "('k, 'v) hashmap \<Rightarrow> 'k \<Rightarrow> bool" where
  "hm_contains m k = (map_of m k \<noteq> None)"

definition hm_wf :: "('k, 'v) hashmap \<Rightarrow> bool" where
  "hm_wf m = distinct (map fst m)"

lemma hm_get_insert [hm_simps, simp]:
  "hm_get (hm_insert k v m) k' = (if k' = k then Some v else hm_get m k')"
  by (simp add: update_conv')

lemma hm_get_remove [hm_simps, simp]:
  "hm_get (hm_remove k m) k' = (if k' = k then None else hm_get m k')"
  by (simp add: delete_conv')

lemma hm_keys_remove [hm_simps]: "set (hm_keys (hm_remove k m)) = set (hm_keys m) - {k}"
  by (simp add: delete_keys)

lemma hm_keys_insert [hm_simps]: "set (hm_keys (hm_insert k v m)) = insert k (set (hm_keys m))"
  by (induction m) auto

lemma hm_wf_Nil [hm_simps, simp]: "hm_wf []"
  by (simp add: hm_wf_def)

lemma hm_wf_insert [hm_simps, simp]: "hm_wf m \<Longrightarrow> hm_wf (hm_insert k v m)"
  by (simp add: hm_wf_def distinct_update)

lemma hm_wf_remove [hm_simps, simp]: "hm_wf m \<Longrightarrow> hm_wf (hm_remove k m)"
  by (simp add: hm_wf_def distinct_delete)

lemma hm_wf_filter [hm_simps, simp]: "hm_wf m \<Longrightarrow> hm_wf (filter P m)"
  by (auto simp: hm_wf_def distinct_map_filter)

lemma hm_wf_Cons: "hm_wf ((k, v) # m) \<longleftrightarrow> k \<notin> set (hm_keys m) \<and> hm_wf m"
  by (simp add: hm_wf_def)

lemma hm_get_iff: "hm_wf m \<Longrightarrow> hm_get m k = Some v \<longleftrightarrow> (k, v) \<in> set m"
  by (simp add: hm_wf_def)

lemma hm_get_keys: "hm_get m k = None \<longleftrightarrow> k \<notin> set (hm_keys m)"
  by (simp add: map_of_eq_None_iff)

lemma hm_contains_keys: "hm_contains m k \<longleftrightarrow> k \<in> set (hm_keys m)"
  by (simp add: hm_contains_def hm_get_keys)

lemma hm_get_key: "hm_get m k = Some v \<Longrightarrow> k \<in> set (hm_keys m)"
  by (metis hm_get_keys option.distinct(1))

lemma hm_get_value: "hm_get m k = Some v \<Longrightarrow> (k, v) \<in> set m"
  by (rule map_of_SomeD)

lemma hm_length_keys: "hm_wf m \<Longrightarrow> length m = card (set (hm_keys m))"
  by (metis distinct_card hm_wf_def length_map)

lemma hm_length_insert:
  assumes "hm_wf m"
  shows "length (hm_insert k v m) = (if hm_contains m k then length m else Suc (length m))"
proof -
  have "length (hm_insert k v m) = card (insert k (set (hm_keys m)))"
    by (simp only: hm_length_keys [OF hm_wf_insert [OF assms]] hm_keys_insert)
  then show ?thesis
    by (simp only: hm_length_keys [OF assms] hm_contains_keys card_insert_if List.finite_set)
qed

lemma hm_length_remove:
  assumes "hm_wf m"
  shows "length (hm_remove k m) = (if hm_contains m k then length m - 1 else length m)"
proof -
  have "length (hm_remove k m) = card (set (hm_keys m) - {k})"
    by (simp only: hm_length_keys [OF hm_wf_remove [OF assms]] hm_keys_remove)
  then show ?thesis
    by (simp only: hm_length_keys [OF assms] hm_contains_keys card_Diff_singleton_if)
qed

lemma hm_length_remove_le: "length (hm_remove k m) \<le> length m"
  by (rule length_delete_le)

lemma hm_set_remove: "set (hm_remove k m) = {(k', v) \<in> set m. k' \<noteq> k}"
  by (induction m) auto

lemma hm_set_insert:
  "hm_wf m \<Longrightarrow> set (hm_insert k v m) = insert (k, v) {(k', v') \<in> set m. k' \<noteq> k}"
  by (induction m) (auto simp: hm_wf_Cons rev_image_eqI)

subsection \<open>Reachable states and inductive invariants\<close>

inductive reach :: "('s \<Rightarrow> bool) \<Rightarrow> ('s \<Rightarrow> 's \<Rightarrow> bool) \<Rightarrow> 's \<Rightarrow> bool"
  for init step where
  reach_start: "init s \<Longrightarrow> reach init step s"
| reach_more: "reach init step s \<Longrightarrow> step s t \<Longrightarrow> reach init step t"

lemma reach_steps: "step\<^sup>*\<^sup>* s t \<Longrightarrow> reach init step s \<Longrightarrow> reach init step t"
  by (induction rule: rtranclp_induct) (auto intro: reach_more)

text \<open>
  The interface between a component and the safety properties stated of it: the component
  provides its initial states, its steps and a predicate that they keep.
\<close>

locale inductive_invariant =
  fixes init :: "'s \<Rightarrow> bool"
    and step :: "'s \<Rightarrow> 's \<Rightarrow> bool"
    and inv :: "'s \<Rightarrow> bool"
  assumes inv_init: "init s \<Longrightarrow> inv s"
    and inv_step: "inv s \<Longrightarrow> step s t \<Longrightarrow> inv t"
begin

lemma reach_inv: "reach init step s \<Longrightarrow> inv s"
  by (induction rule: reach.induct) (auto intro: inv_init inv_step)

lemma steps_inv: "step\<^sup>*\<^sup>* s t \<Longrightarrow> inv s \<Longrightarrow> inv t"
  by (induction rule: rtranclp_induct) (auto intro: inv_step)

end

end
