(* ===== verification/RustStr.thy ===== *)
theory RustStr
  imports Prelude
begin

section \<open>Rust strings and integers\<close>

text \<open>
  The part of the Rust standard library that the source uses on \<open>str\<close> and on integers.
  A \<open>String\<close> is the list of its UTF-8 bytes, so \<open>len()\<close> is the length of the list and
  a byte offset is a list position. \<open>chars\<close> splits the bytes into characters, each the
  bytes that encode it, and is \<open>None\<close> where the bytes are not UTF-8 (the error of
  \<open>str::from_utf8\<close>). Nothing here models a file under src/: these are the functions the
  translated definitions call.
\<close>

abbreviation byte_of :: "char \<Rightarrow> nat" where
  "byte_of \<equiv> of_char"

subsection \<open>ASCII classes\<close>

definition is_ascii :: "char \<Rightarrow> bool" where
  "is_ascii c \<longleftrightarrow> byte_of c < 128"

definition is_ascii_control :: "char \<Rightarrow> bool" where
  "is_ascii_control c \<longleftrightarrow> byte_of c < 32 \<or> byte_of c = 127"

definition is_ascii_digit :: "char \<Rightarrow> bool" where
  "is_ascii_digit c \<longleftrightarrow> 48 \<le> byte_of c \<and> byte_of c \<le> 57"

definition is_ascii_hexdigit :: "char \<Rightarrow> bool" where
  "is_ascii_hexdigit c \<longleftrightarrow> is_ascii_digit c
     \<or> (65 \<le> byte_of c \<and> byte_of c \<le> 70) \<or> (97 \<le> byte_of c \<and> byte_of c \<le> 102)"

definition is_ascii_alphanumeric :: "char \<Rightarrow> bool" where
  "is_ascii_alphanumeric c \<longleftrightarrow> is_ascii_digit c
     \<or> (65 \<le> byte_of c \<and> byte_of c \<le> 90) \<or> (97 \<le> byte_of c \<and> byte_of c \<le> 122)"

definition ascii_lower :: "char \<Rightarrow> char" where
  "ascii_lower c = (if 65 \<le> byte_of c \<and> byte_of c \<le> 90 then char_of (byte_of c + 32) else c)"

definition to_ascii_lowercase :: "string \<Rightarrow> string" where
  "to_ascii_lowercase s = map ascii_lower s"

lemma length_to_ascii_lowercase [str_simps, simp]: "length (to_ascii_lowercase s) = length s"
  by (simp add: to_ascii_lowercase_def)

lemma to_ascii_lowercase_append [str_simps]:
  "to_ascii_lowercase (s @ t) = to_ascii_lowercase s @ to_ascii_lowercase t"
  by (simp add: to_ascii_lowercase_def)

lemma byte_of_less: "byte_of c < 256"
  by (rule nat_of_char_less_256)

subsection \<open>Prefixes, suffixes and searching\<close>

fun starts_with :: "'a list \<Rightarrow> 'a list \<Rightarrow> bool" where
  "starts_with s [] = True"
| "starts_with [] (p # ps) = False"
| "starts_with (c # cs) (p # ps) = (c = p \<and> starts_with cs ps)"

lemma starts_with_iff: "starts_with s p \<longleftrightarrow> (\<exists>t. s = p @ t)"
  by (induction s p rule: starts_with.induct) auto

lemma starts_with_append [simp]: "starts_with (p @ t) p"
  by (auto simp: starts_with_iff)

lemma starts_with_length: "starts_with s p \<Longrightarrow> length p \<le> length s"
  by (auto simp: starts_with_iff)

lemma starts_with_take: "starts_with s p \<longleftrightarrow> take (length p) s = p"
  by (auto simp: starts_with_iff) (metis append_take_drop_id)

definition strip_prefix :: "string \<Rightarrow> string \<Rightarrow> string option" where
  "strip_prefix p s = (if starts_with s p then Some (drop (length p) s) else None)"

definition strip_suffix :: "string \<Rightarrow> string \<Rightarrow> string option" where
  "strip_suffix p s =
     (if starts_with (rev s) (rev p) then Some (take (length s - length p) s) else None)"

text \<open>\<open>str::find\<close>: the byte offset of the first occurrence.\<close>

fun find_sub :: "string \<Rightarrow> string \<Rightarrow> nat option" where
  "find_sub p [] = (if p = [] then Some 0 else None)"
| "find_sub p (c # cs) =
     (if starts_with (c # cs) p then Some 0 else map_option Suc (find_sub p cs))"

lemma find_sub_Some:
  "find_sub p s = Some i \<Longrightarrow> i + length p \<le> length s \<and> starts_with (drop i s) p"
proof (induction p s arbitrary: i rule: find_sub.induct)
  case (2 p c cs)
  then show ?case
    using starts_with_length [of "c # cs" p] by (fastforce split: if_splits)
qed (auto split: if_splits)

text \<open>\<open>iter().position\<close>: the index of the first element that satisfies a test.\<close>

fun position :: "('a \<Rightarrow> bool) \<Rightarrow> 'a list \<Rightarrow> nat option" where
  "position P [] = None"
| "position P (x # xs) = (if P x then Some 0 else map_option Suc (position P xs))"

lemma position_Some:
  "position P xs = Some i \<Longrightarrow> i < length xs \<and> P (xs ! i) \<and> (\<forall>x \<in> set (take i xs). \<not> P x)"
  by (induction xs arbitrary: i) (auto split: if_splits)

lemma position_append:
  "position P (xs @ ys) =
     (case position P xs of Some i \<Rightarrow> Some i | None \<Rightarrow> map_option ((+) (length xs)) (position P ys))"
proof (induction xs)
  case Nil
  show ?case
    by (cases "position P ys") simp_all
next
  case (Cons x xs)
  then show ?case
    by (cases "position P ys") (simp_all split: option.splits)
qed

lemma position_None: "position P xs = None \<longleftrightarrow> (\<forall>x \<in> set xs. \<not> P x)"
  by (induction xs) auto

text \<open>\<open>rsplit_once(':')\<close>: split at the last occurrence of one character.\<close>

definition rsplit_once :: "char \<Rightarrow> string \<Rightarrow> (string \<times> string) option" where
  "rsplit_once c s = (case position (\<lambda>x. x = c) (rev s) of
     None \<Rightarrow> None
   | Some i \<Rightarrow> Some (take (length s - Suc i) s, drop (length s - i) s))"

subsection \<open>UTF-8\<close>

definition is_cont :: "char \<Rightarrow> bool" where
  "is_cont c \<longleftrightarrow> 128 \<le> byte_of c \<and> byte_of c \<le> 191"

text \<open>The length of the character at the front (1 to 4 bytes), 0 where none is encoded.\<close>

fun utf8_first :: "bytes \<Rightarrow> nat" where
  "utf8_first [] = 0"
| "utf8_first (a # r) =
     (let x = byte_of a in
      if x < 128 then 1
      else if 194 \<le> x \<and> x \<le> 223 then
        (case r of b # _ \<Rightarrow> if is_cont b then 2 else 0 | [] \<Rightarrow> 0)
      else if 224 \<le> x \<and> x \<le> 239 then
        (case r of
           b # c # _ \<Rightarrow>
             if is_cont b \<and> is_cont c \<and> (x = 224 \<longrightarrow> 160 \<le> byte_of b) \<and> (x = 237 \<longrightarrow> byte_of b \<le> 159)
             then 3 else 0
         | _ \<Rightarrow> 0)
      else if 240 \<le> x \<and> x \<le> 244 then
        (case r of
           b # c # d # _ \<Rightarrow>
             if is_cont b \<and> is_cont c \<and> is_cont d \<and> (x = 240 \<longrightarrow> 144 \<le> byte_of b) \<and> (x = 244 \<longrightarrow> byte_of b \<le> 143)
             then 4 else 0
         | _ \<Rightarrow> 0)
      else 0)"

lemma utf8_first_le: "utf8_first s \<le> length s"
  by (cases s) (auto simp: Let_def split: list.splits)

lemma utf8_first_short:
  "utf8_first [a] \<noteq> 0 \<Longrightarrow> utf8_first (a # r) = utf8_first [a]"
  "utf8_first [a, b] \<noteq> 0 \<Longrightarrow> utf8_first (a # b # r) = utf8_first [a, b]"
  "utf8_first [a, b, c] \<noteq> 0 \<Longrightarrow> utf8_first (a # b # c # r) = utf8_first [a, b, c]"
  "utf8_first (a # b # c # d # r) = utf8_first [a, b, c, d]"
  by (simp_all add: Let_def split: if_split_asm)

lemma utf8_first_append: "utf8_first s \<noteq> 0 \<Longrightarrow> utf8_first (s @ t) = utf8_first s"
proof -
  assume n: "utf8_first s \<noteq> 0"
  consider "s = []" | a where "s = [a]" | a b where "s = [a, b]" | a b c where "s = [a, b, c]"
    | a b c d r where "s = a # b # c # d # r"
    by (metis list.exhaust)
  then show ?thesis
  proof cases
    case 1
    with n show ?thesis by simp
  next
    case 2
    with n utf8_first_short(1) show ?thesis by (metis append_Cons append_Nil)
  next
    case 3
    with n utf8_first_short(2) show ?thesis by (metis append_Cons append_Nil)
  next
    case 4
    with n utf8_first_short(3) show ?thesis by (metis append_Cons append_Nil)
  next
    case 5
    with utf8_first_short(4) show ?thesis by (metis append_Cons)
  qed
qed

function chars :: "bytes \<Rightarrow> bytes list option" where
  "chars s =
     (if s = [] then Some []
      else if utf8_first s = 0 then None
      else map_option ((#) (take (utf8_first s) s)) (chars (drop (utf8_first s) s)))"
  by pat_completeness auto
termination
  by (relation "measure length") auto

declare chars.simps [simp del]

definition utf8_ok :: "bytes \<Rightarrow> bool" where
  "utf8_ok s \<longleftrightarrow> chars s \<noteq> None"

lemma chars_Nil [simp]: "chars [] = Some []"
  by (simp add: chars.simps)

lemma chars_ascii_Cons [simp]: "is_ascii c \<Longrightarrow> chars (c # s) = map_option ((#) [c]) (chars s)"
  by (simp add: chars.simps [of "c # s"] is_ascii_def)

lemma chars_concat: "chars s = Some cs \<Longrightarrow> concat cs = s"
proof (induction s arbitrary: cs rule: chars.induct)
  case (1 s)
  show ?case
  proof (cases "s = []")
    case False
    with "1.prems" have n: "utf8_first s \<noteq> 0"
      by (auto simp: chars.simps [of s] split: if_splits)
    with False "1.prems" obtain ds where
      "chars (drop (utf8_first s) s) = Some ds" and "cs = take (utf8_first s) s # ds"
      by (auto simp: chars.simps [of s])
    with "1.IH" [OF False n] show ?thesis
      by simp
  qed (use "1.prems" in simp)
qed

text \<open>A prefix that ends at a character boundary does not change how the rest is read.\<close>

lemma chars_append:
  "chars s = Some cs \<Longrightarrow> chars (s @ t) = map_option ((@) cs) (chars t)"
proof (induction s arbitrary: cs rule: chars.induct)
  case (1 s)
  show ?case
  proof (cases "s = []")
    case True
    with "1.prems" show ?thesis
      by (simp add: option.map_ident)
  next
    case False
    with "1.prems" have n: "utf8_first s \<noteq> 0"
      by (auto simp: chars.simps [of s] split: if_splits)
    with False "1.prems" obtain ds where
      ds: "chars (drop (utf8_first s) s) = Some ds" and cs: "cs = take (utf8_first s) s # ds"
      by (auto simp: chars.simps [of s])
    have "chars (s @ t) =
        map_option ((#) (take (utf8_first s) s)) (chars (drop (utf8_first s) s @ t))"
      using False n utf8_first_le [of s] by (simp add: chars.simps [of "s @ t"] utf8_first_append)
    also have "chars (drop (utf8_first s) s @ t) = map_option ((@) ds) (chars t)"
      by (rule "1.IH" [OF False n ds])
    finally show ?thesis
      by (simp add: cs option.map_comp comp_def)
  qed
qed

lemma utf8_ok_append [str_simps]: "utf8_ok s \<Longrightarrow> utf8_ok (s @ t) \<longleftrightarrow> utf8_ok t"
  by (auto simp: utf8_ok_def chars_append)

lemma utf8_ok_ascii [str_simps]: "\<forall>c \<in> set s. is_ascii c \<Longrightarrow> utf8_ok s"
  by (induction s) (auto simp: utf8_ok_def)

lemma chars_ascii [str_simps]: "\<forall>c \<in> set s. is_ascii c \<Longrightarrow> chars s = Some (map (\<lambda>c. [c]) s)"
  by (induction s) auto

subsection \<open>White space\<close>

text \<open>The code points with the Unicode property White\_Space, as UTF-8.\<close>

definition white_space :: "bytes list" where
  "white_space =
     [[CHR 0x09], [CHR 0x0A], [CHR 0x0B], [CHR 0x0C], [CHR 0x0D], [CHR 0x20],
      [CHR 0xC2, CHR 0x85], [CHR 0xC2, CHR 0xA0], [CHR 0xE1, CHR 0x9A, CHR 0x80],
      [CHR 0xE2, CHR 0x80, CHR 0x80], [CHR 0xE2, CHR 0x80, CHR 0x81], [CHR 0xE2, CHR 0x80, CHR 0x82],
      [CHR 0xE2, CHR 0x80, CHR 0x83], [CHR 0xE2, CHR 0x80, CHR 0x84], [CHR 0xE2, CHR 0x80, CHR 0x85],
      [CHR 0xE2, CHR 0x80, CHR 0x86], [CHR 0xE2, CHR 0x80, CHR 0x87], [CHR 0xE2, CHR 0x80, CHR 0x88],
      [CHR 0xE2, CHR 0x80, CHR 0x89], [CHR 0xE2, CHR 0x80, CHR 0x8A], [CHR 0xE2, CHR 0x80, CHR 0xA8],
      [CHR 0xE2, CHR 0x80, CHR 0xA9], [CHR 0xE2, CHR 0x80, CHR 0xAF], [CHR 0xE2, CHR 0x81, CHR 0x9F],
      [CHR 0xE3, CHR 0x80, CHR 0x80]]"

definition is_white :: "bytes \<Rightarrow> bool" where
  "is_white c \<longleftrightarrow> c \<in> set white_space"

text \<open>
  A \<open>str\<close> of the source is always UTF-8; \<open>str_chars\<close> gives its characters, and keeps
  the bytes as one opaque character where the list is not UTF-8 (no value of the source).
\<close>

definition str_chars :: "string \<Rightarrow> bytes list" where
  "str_chars s = (case chars s of Some cs \<Rightarrow> cs | None \<Rightarrow> [s])"

definition trim_start :: "string \<Rightarrow> string" where
  "trim_start s = concat (dropWhile is_white (str_chars s))"

definition trim_end :: "string \<Rightarrow> string" where
  "trim_end s = concat (rev (dropWhile is_white (rev (str_chars s))))"

definition trim :: "string \<Rightarrow> string" where
  "trim s = concat (rev (dropWhile is_white (rev (dropWhile is_white (str_chars s)))))"

lemma concat_str_chars [simp]: "concat (str_chars s) = s"
  by (auto simp: str_chars_def chars_concat split: option.splits)

lemma is_white_ascii: "is_white [c] \<longleftrightarrow> c \<in> {CHR 0x09, CHR 0x0A, CHR 0x0B, CHR 0x0C, CHR 0x0D, CHR 0x20}"
  by (simp add: is_white_def white_space_def)

text \<open>Trimming a string whose first and last characters are not white changes nothing.\<close>

lemma trim_end_snoc:
  assumes "chars s = Some (cs @ [c])" and "\<not> is_white c"
  shows "trim_end s = s"
  using chars_concat [OF assms(1)] assms by (simp add: trim_end_def str_chars_def)

lemma trim_end_newline:
  assumes "utf8_ok s" and "s \<noteq> []" and "\<not> is_white (last (str_chars s))"
  shows "trim_end (s @ [CHR 0x0A]) = s"
proof -
  obtain cs where cs: "chars s = Some cs"
    using assms(1) by (auto simp: utf8_ok_def)
  with assms(2) have "cs \<noteq> []"
    using chars_concat [OF cs] by auto
  then obtain ds d where d: "cs = ds @ [d]"
    by (metis rev_exhaust)
  have "chars (s @ [CHR 0x0A]) = Some (cs @ [[CHR 0x0A]])"
    using chars_append [OF cs, of "[CHR 0x0A]"] by (simp add: is_ascii_def)
  moreover have "\<not> is_white d"
    using assms(3) cs d by (simp add: str_chars_def)
  ultimately show ?thesis
    using d chars_concat [OF cs] by (simp add: trim_end_def str_chars_def is_white_ascii)
qed

lemma trim_ascii:
  assumes "\<forall>c \<in> set s. is_ascii c \<and> \<not> is_white [c]"
    and "set a \<subseteq> {CHR 0x20, CHR 0x0A}" and "set b \<subseteq> {CHR 0x20, CHR 0x0A}"
  shows "trim (a @ s @ b) = s"
proof -
  have w: "x \<in> {CHR 0x20, CHR 0x0A} \<Longrightarrow> is_ascii x \<and> is_white [x]" for x
    by (auto simp: is_ascii_def is_white_ascii)
  have "\<forall>c \<in> set (a @ s @ b). is_ascii c"
    using assms w by auto
  then have cs: "str_chars (a @ s @ b) = map (\<lambda>c. [c]) a @ map (\<lambda>c. [c]) s @ map (\<lambda>c. [c]) b"
    by (simp only: str_chars_def chars_ascii) simp
  have drop_white: "dropWhile is_white (map (\<lambda>c. [c]) u @ v) = dropWhile is_white v"
    if "set u \<subseteq> {CHR 0x20, CHR 0x0A}" for u :: string and v
    using that w by (intro dropWhile_append2) auto
  show ?thesis
  proof (cases s)
    case Nil
    have "dropWhile is_white (map (\<lambda>c. [c]) a @ map (\<lambda>c. [c]) b) = []"
      using assms(2,3) w by auto
    then show ?thesis
      using cs [unfolded Nil list.map append_Nil]
      by (simp only: trim_def Nil append_Nil rev.simps dropWhile.simps concat.simps)
  next
    case (Cons x xs)
    obtain ys y where y: "s = ys @ [y]"
      using Cons by (metis rev_exhaust list.distinct(1))
    have "dropWhile is_white (str_chars (a @ s @ b)) = map (\<lambda>c. [c]) s @ map (\<lambda>c. [c]) b"
      unfolding cs using assms Cons by (simp add: drop_white)
    moreover have "dropWhile is_white (rev (map (\<lambda>c. [c]) s @ map (\<lambda>c. [c]) b)) = rev (map (\<lambda>c. [c]) s)"
      using assms y drop_white [of "rev b" "rev (map (\<lambda>c. [c]) s)"] by (simp add: rev_map)
    ultimately show ?thesis
      unfolding trim_def by (simp add: rev_map concat_map_singleton)
  qed
qed

lemma trim_no_white: "\<forall>c \<in> set s. is_ascii c \<and> \<not> is_white [c] \<Longrightarrow> trim s = s"
  using trim_ascii [of s "[]" "[]"] by simp

text \<open>\<open>split_whitespace\<close>: the maximal runs of characters that are not white.\<close>

declare length_dropWhile_le [termination_simp]

fun words_of :: "bytes list \<Rightarrow> string list" where
  "words_of [] = []"
| "words_of (c # cs) =
     (if is_white c then words_of cs
      else concat (c # takeWhile (\<lambda>d. \<not> is_white d) cs) #
           words_of (dropWhile (\<lambda>d. \<not> is_white d) cs))"

definition split_whitespace :: "string \<Rightarrow> string list" where
  "split_whitespace s = words_of (str_chars s)"

text \<open>\<open>lines\<close>: split at line feeds, each line without a trailing carriage return.\<close>

fun split_lines :: "string \<Rightarrow> string list" where
  "split_lines [] = []"
| "split_lines (c # cs) =
     (if c = CHR 0x0A then [] # split_lines cs
      else (case split_lines cs of [] \<Rightarrow> [[c]] | l # ls \<Rightarrow> (c # l) # ls))"

definition strip_cr :: "string \<Rightarrow> string" where
  "strip_cr l = (if l \<noteq> [] \<and> last l = CHR 0x0D then butlast l else l)"

subsection \<open>Parsing and printing integers\<close>

definition digit_val :: "char \<Rightarrow> nat option" where
  "digit_val c =
     (if is_ascii_digit c then Some (byte_of c - 48)
      else if 97 \<le> byte_of c \<and> byte_of c \<le> 122 then Some (byte_of c - 87)
      else if 65 \<le> byte_of c \<and> byte_of c \<le> 90 then Some (byte_of c - 55)
      else None)"

fun digits_val :: "nat \<Rightarrow> nat \<Rightarrow> string \<Rightarrow> nat option" where
  "digits_val radix acc [] = Some acc"
| "digits_val radix acc (c # cs) =
     (case digit_val c of
        None \<Rightarrow> None
      | Some d \<Rightarrow> if d < radix then digits_val radix (acc * radix + d) cs else None)"

text \<open>
  \<open>from_str_radix\<close> on an unsigned type with \<open>2 ^ bits\<close> values: an optional plus sign, at
  least one digit, and a value that fits. \<open>parse\<close> is the same at radix 10.
\<close>

definition from_str_radix :: "nat \<Rightarrow> nat \<Rightarrow> string \<Rightarrow> nat option" where
  "from_str_radix bits radix s =
     (let ds = (case s of c # r \<Rightarrow> if c = CHR ''+'' \<and> r \<noteq> [] then r else s | [] \<Rightarrow> s)
      in if ds = [] then None
         else (case digits_val radix 0 ds of
                 None \<Rightarrow> None
               | Some v \<Rightarrow> if v < 2 ^ bits then Some v else None))"

definition parse_u16 :: "string \<Rightarrow> u16 option" where
  "parse_u16 s = map_option of_nat (from_str_radix 16 10 s)"

definition parse_u32 :: "string \<Rightarrow> u32 option" where
  "parse_u32 s = map_option of_nat (from_str_radix 32 10 s)"

definition parse_u64 :: "string \<Rightarrow> u64 option" where
  "parse_u64 s = map_option of_nat (from_str_radix 64 10 s)"

definition parse_hex_u16 :: "string \<Rightarrow> u16 option" where
  "parse_hex_u16 s = map_option of_nat (from_str_radix 16 16 s)"

fun show_nat :: "nat \<Rightarrow> string" where
  "show_nat n = (if n < 10 then [char_of (48 + n)] else show_nat (n div 10) @ [char_of (48 + n mod 10)])"

declare show_nat.simps [simp del]

lemma byte_of_char_of [simp]: "n < 256 \<Longrightarrow> byte_of (char_of n :: char) = n"
  by simp

lemma digit_val_decimal: "d < 10 \<Longrightarrow> digit_val (char_of (48 + d :: nat)) = Some d"
  by (simp add: digit_val_def is_ascii_digit_def)

lemma show_nat_digits: "\<forall>c \<in> set (show_nat n). is_ascii_digit c"
proof (induction n rule: show_nat.induct)
  case (1 n)
  have d: "m < 10 \<Longrightarrow> is_ascii_digit (char_of (48 + m :: nat))" for m
    by (simp add: is_ascii_digit_def)
  show ?case
    using "1.IH" by (cases "n < 10") (auto simp: show_nat.simps [of n] d)
qed

lemma show_nat_nonempty [simp]: "show_nat n \<noteq> []"
  by (simp add: show_nat.simps [of n])

lemma digits_val_append:
  "digits_val r acc (s @ t) = (case digits_val r acc s of None \<Rightarrow> None | Some v \<Rightarrow> digits_val r v t)"
  by (induction s arbitrary: acc) (auto split: option.splits)

lemma digits_val_acc_ge: "digits_val r acc s = Some v \<Longrightarrow> acc * r ^ length s \<le> v"
proof (induction s arbitrary: acc)
  case (Cons c cs)
  then obtain d where d: "digits_val r (acc * r + d) cs = Some v"
    by (auto split: option.splits if_splits)
  have "acc * r ^ length (c # cs) \<le> (acc * r + d) * r ^ length cs"
    by (simp add: algebra_simps)
  also have "\<dots> \<le> v"
    by (rule Cons.IH [OF d])
  finally show ?case .
qed simp

lemma digits_val_show_nat: "digits_val 10 0 (show_nat n) = Some n"
proof (induction n rule: show_nat.induct)
  case (1 n)
  show ?case
  proof (cases "n < 10")
    case True
    then show ?thesis
      by (simp add: show_nat.simps [of n] digit_val_decimal)
  next
    case False
    then show ?thesis
      using "1.IH" by (simp add: show_nat.simps [of n] digits_val_append digit_val_decimal)
  qed
qed

lemma plus_not_digit: "\<not> (48 \<le> byte_of (CHR ''+'') \<and> byte_of (CHR ''+'') \<le> 57)"
  by simp

lemma from_str_radix_show_nat: "n < 2 ^ bits \<Longrightarrow> from_str_radix bits 10 (show_nat n) = Some n"
proof -
  assume n: "n < 2 ^ bits"
  have "c # r = show_nat n \<Longrightarrow> c \<noteq> CHR ''+''" for c r
    using show_nat_digits [of n] by (metis is_ascii_digit_def list.set_intros(1) plus_not_digit)
  then have "(case show_nat n of c # r \<Rightarrow> if c = CHR ''+'' \<and> r \<noteq> [] then r else show_nat n
      | [] \<Rightarrow> show_nat n) = show_nat n"
    by (auto split: list.splits)
  then show ?thesis
    using n by (simp add: from_str_radix_def digits_val_show_nat)
qed

lemma parse_u16_show: "parse_u16 (show_nat (unat p)) = Some p"
  using unsigned_less [of p, where ?'a = nat] by (simp add: parse_u16_def from_str_radix_show_nat)

lemma parse_u32_show: "parse_u32 (show_nat (unat p)) = Some p"
  using unsigned_less [of p, where ?'a = nat] by (simp add: parse_u32_def from_str_radix_show_nat)

lemma parse_u64_show: "parse_u64 (show_nat (unat p)) = Some p"
  using unsigned_less [of p, where ?'a = nat] by (simp add: parse_u64_def from_str_radix_show_nat)

lemma show_nat_ascii: "\<forall>c \<in> set (show_nat n). is_ascii c \<and> \<not> is_white [c]"
  using show_nat_digits [of n] by (auto simp: is_ascii_digit_def is_ascii_def is_white_ascii)

lemma show_nat_length: "n < 10 ^ Suc k \<Longrightarrow> length (show_nat n) \<le> Suc k"
proof (induction k arbitrary: n)
  case (Suc k)
  then have "n div 10 < 10 ^ Suc k"
    by (simp add: less_mult_imp_div_less mult.commute)
  with Suc.IH show ?case
    by (simp add: show_nat.simps [of n])
qed (simp add: show_nat.simps)

end
