(* ===== verification/Protocol.thy ===== *)
theory Protocol
  imports RustStr
begin

section \<open>The control protocol (src/protocol.rs)\<close>

text \<open>
  The messages of the control and data channels, the validation of URLs and the two
  wrappers around serde\_json. The JSON text of a message is produced and read by the
  third-party crate serde\_json with code that serde derives; it is a parameter: a printer
  \<open>to_string\<close> and a parser \<open>from_str\<close> of type \<open>message \<Rightarrow> string option\<close> and
  \<open>string \<Rightarrow> message option\<close>.
\<close>

datatype clipboard_format = Auto | Png | Jpeg

datatype clipboard_token = ClipboardToken string

definition clipboard_token_debug :: "clipboard_token \<Rightarrow> string" where
  "clipboard_token_debug t = ''[redacted]''"

datatype protocol_error = ProtoSerialization | ProtoMessageTooLarge nat nat

definition MAX_URL_LENGTH :: nat where
  "MAX_URL_LENGTH = 2048"

definition MAX_SOCKET_PATH_LENGTH :: nat where
  "MAX_SOCKET_PATH_LENGTH = 4096"

datatype url_validation_error =
    UrlEmpty
  | InvalidScheme
  | TooLong nat nat
  | InvalidCharacters

text \<open>
  The test of the source runs over the characters of the string; a character that is not
  ASCII has no byte below 128, so running over the bytes asks the same.
\<close>

definition validate_open_url :: "string \<Rightarrow> url_validation_error + unit" where
  "validate_open_url url =
     (if url = [] then Inl UrlEmpty
      else if length url > MAX_URL_LENGTH then Inl (TooLong (length url) MAX_URL_LENGTH)
      else if \<exists>c \<in> set url. is_ascii_control c then Inl InvalidCharacters
      else let lower = to_ascii_lowercase url in
        if \<not> starts_with lower ''http://'' \<and> \<not> starts_with lower ''https://'' then Inl InvalidScheme
        else Inr ())"

datatype protocol = Tcp

record forward_info =
  fi_container_id :: string
  fi_hostname :: string
  fi_port :: u16
  fi_host_port :: u16
  fi_protocol :: protocol
  fi_process_name :: "string option"
  fi_pid :: "u32 option"
  fi_since :: string

record socket_forward_info =
  sfi_socket_id :: string
  sfi_host_path :: string
  sfi_container_path :: string

text \<open>The fields of each message in the order of the source.\<close>

datatype message =
    ClipboardRead clipboard_format clipboard_token
  | ClipboardBatchReady u32
  | ClipboardReady clipboard_format u64
  | ClipboardError string
  | Register string string string
  | RegisterAck bool
  | Forward u16 protocol "string option" "u32 option"
  | ForwardAck u16 bool u16
  | Unforward u16
  | ConnectRequest u16 string
  | ConnectReady string
  | ConnectFailed string string
  | OpenUrl string
  | OpenUrlAck bool
  | Ping
  | Pong
  | ListRequest
  | ListResponse "forward_info list" "socket_forward_info list"
  | SocketForward string string string
  | SocketUnforward string
  | SocketConnectRequest string string
  | Shutdown string

type_synonym json_printer = "message \<Rightarrow> string option"
type_synonym json_parser = "string \<Rightarrow> message option"

definition serialize_message :: "json_printer \<Rightarrow> message \<Rightarrow> protocol_error + string" where
  "serialize_message to_string msg =
     (case to_string msg of Some s \<Rightarrow> Inr s | None \<Rightarrow> Inl ProtoSerialization)"

definition deserialize_message :: "json_parser \<Rightarrow> string \<Rightarrow> protocol_error + message" where
  "deserialize_message from_str s =
     (case from_str s of Some m \<Rightarrow> Inr m | None \<Rightarrow> Inl ProtoSerialization)"

text \<open>
  What the framing relies on for one message: serde\_json prints it as UTF-8 text without a
  raw line feed (JSON strings escape control characters) that does not end in white space
  (it ends in a brace), and reads that text back as the same message.
\<close>

definition codec_ok :: "json_printer \<Rightarrow> json_parser \<Rightarrow> message \<Rightarrow> bool" where
  "codec_ok to_string from_str m =
     (case to_string m of
        None \<Rightarrow> False
      | Some j \<Rightarrow> from_str j = Some m \<and> utf8_ok j \<and> CHR 0x0A \<notin> set j \<and> j \<noteq> []
                 \<and> \<not> is_white (last (str_chars j)))"

subsection \<open>What validation accepts\<close>

lemma validate_open_url_ok:
  "validate_open_url url = Inr () \<longleftrightarrow>
     length url \<le> 2048 \<and> (\<forall>c \<in> set url. \<not> is_ascii_control c)
     \<and> (starts_with (to_ascii_lowercase url) ''http://'' \<or> starts_with (to_ascii_lowercase url) ''https://'')"
  by (auto simp: validate_open_url_def MAX_URL_LENGTH_def Let_def to_ascii_lowercase_def)

lemma validate_open_url_long:
  "2048 < length url \<Longrightarrow> validate_open_url url = Inl (TooLong (length url) 2048)"
  by (auto simp: validate_open_url_def MAX_URL_LENGTH_def)

lemma serialize_deserialize:
  "codec_ok to_string from_str m \<Longrightarrow>
   \<exists>j. serialize_message to_string m = Inr j \<and> deserialize_message from_str j = Inr m"
  by (auto simp: codec_ok_def serialize_message_def deserialize_message_def split: option.splits)

end
