(* ===== verification/Control.thy ===== *)
theory Control
  imports Protocol
begin

section \<open>The framing of the control channel (src/control.rs)\<close>

text \<open>
  A \<open>BufReader\<close> over a TCP stream is the bytes it holds and the segments that have not
  been read yet: \<open>Seg b\<close> delivers the bytes \<open>b\<close> to one read, \<open>Failure e\<close> makes one
  read fail, and the end of the list is the end of the stream. A theorem about all lists
  of segments is a theorem about every way the network cuts the stream.
\<close>

datatype io_error = InvalidData | TimedOut | NotFound | OtherIo

datatype control_error =
    Io io_error
  | MessageTooLarge nat
  | Serialization
  | Deserialization
  | ConnectionClosed

text \<open>A \<open>SocketAddr\<close>: the four bytes or the text of the address, and the port.\<close>

datatype socket_addr = V4 "nat list" u16 | V6 string u16

definition MAX_MESSAGE_SIZE :: nat where
  "MAX_MESSAGE_SIZE = 65536"

datatype segment = Seg bytes | Failure io_error

record buf_reader =
  br_buf :: bytes
  br_net :: "segment list"

definition fill_buf :: "buf_reader \<Rightarrow> (io_error + bytes) \<times> buf_reader" where
  "fill_buf r =
     (if br_buf r \<noteq> [] then (Inr (br_buf r), r)
      else (case br_net r of
              [] \<Rightarrow> (Inr [], r)
            | Seg b # rest \<Rightarrow> (Inr b, r\<lparr>br_buf := b, br_net := rest\<rparr>)
            | Failure e # rest \<Rightarrow> (Inl e, r\<lparr>br_net := rest\<rparr>)))"

definition consume :: "nat \<Rightarrow> buf_reader \<Rightarrow> buf_reader" where
  "consume n r = r\<lparr>br_buf := drop n (br_buf r)\<rparr>"

text \<open>The reads a reader can still make; every turn of the loops below lowers it.\<close>

definition reads_left :: "buf_reader \<Rightarrow> nat" where
  "reads_left r = 2 * length (br_net r) + (if br_buf r = [] then 0 else 1)"

lemma reads_left_consume:
  assumes "fill_buf r = (Inr a, r1)" and "a \<noteq> []"
  shows "reads_left (consume (length a) r1) < reads_left r"
  using assms
  by (auto simp: fill_buf_def reads_left_def consume_def split: if_splits list.splits segment.splits)

abbreviation newline :: char where
  "newline \<equiv> CHR 0x0A"

text \<open>The inner loop of \<open>read_message\<close>: discard the rest of an oversized line.\<close>

function drain_line :: "buf_reader \<Rightarrow> (io_error + unit) \<times> buf_reader" where
  "drain_line r =
     (case fill_buf r of
        (Inl e, r1) \<Rightarrow> (Inl e, r1)
      | (Inr rest, r1) \<Rightarrow>
          if rest = [] then (Inr (), r1)
          else (case position (\<lambda>b. b = newline) rest of
                  Some nl \<Rightarrow> (Inr (), consume (nl + 1) r1)
                | None \<Rightarrow> drain_line (consume (length rest) r1)))"
  by pat_completeness auto
termination
  by (relation "measure reads_left") (auto simp: reads_left_consume)

declare drain_line.simps [simp del]

text \<open>The outer loop: collect the bytes of one line.\<close>

function read_line :: "buf_reader \<Rightarrow> bytes \<Rightarrow> (control_error + bytes) \<times> buf_reader" where
  "read_line r line =
     (case fill_buf r of
        (Inl e, r1) \<Rightarrow> (Inl (Io e), r1)
      | (Inr available, r1) \<Rightarrow>
          if available = [] then (Inl ConnectionClosed, r1)
          else (case position (\<lambda>b. b = newline) available of
                  Some newline_pos \<Rightarrow>
                    if utf8_ok (take (Suc newline_pos) available)
                    then (Inr (line @ take (Suc newline_pos) available), consume (newline_pos + 1) r1)
                    else (Inl (Io InvalidData), r1)
                | None \<Rightarrow>
                    if length line + length available > MAX_MESSAGE_SIZE then
                      (case drain_line (consume (length available) r1) of
                         (Inl e, r2) \<Rightarrow> (Inl (Io e), r2)
                       | (Inr _, r2) \<Rightarrow> (Inl (MessageTooLarge (length line + length available)), r2))
                    else if \<not> utf8_ok available then (Inl (Io InvalidData), r1)
                    else read_line (consume (length available) r1) (line @ available)))"
  by pat_completeness auto
termination
  by (relation "measure (reads_left \<circ> fst)") (auto simp: reads_left_consume)

declare read_line.simps [simp del]

definition read_message :: "json_parser \<Rightarrow> buf_reader \<Rightarrow> (control_error + message) \<times> buf_reader" where
  "read_message from_str r =
     (case read_line r [] of
        (Inl e, r1) \<Rightarrow> (Inl e, r1)
      | (Inr line, r1) \<Rightarrow>
          if length line > MAX_MESSAGE_SIZE then (Inl (MessageTooLarge (length line)), r1)
          else (case from_str (trim_end line) of
                  None \<Rightarrow> (Inl Deserialization, r1)
                | Some m \<Rightarrow> (Inr m, r1)))"

text \<open>
  The writing half of a TCP stream: the bytes written so far, and whether the peer can
  still be reached.
\<close>

record tcp_writer =
  tw_out :: bytes
  tw_up :: bool

definition write_all :: "bytes \<Rightarrow> tcp_writer \<Rightarrow> (io_error + unit) \<times> tcp_writer" where
  "write_all bs w = (if tw_up w then (Inr (), w\<lparr>tw_out := tw_out w @ bs\<rparr>) else (Inl OtherIo, w))"

definition write_message ::
  "json_printer \<Rightarrow> tcp_writer \<Rightarrow> message \<Rightarrow> (control_error + unit) \<times> tcp_writer" where
  "write_message to_string w msg =
     (case to_string msg of
        None \<Rightarrow> (Inl Serialization, w)
      | Some json \<Rightarrow>
          if length json > MAX_MESSAGE_SIZE then (Inl (MessageTooLarge (length json)), w)
          else (case write_all (json @ [newline]) w of
                  (Inl e, w1) \<Rightarrow> (Inl (Io e), w1)
                | (Inr _, w1) \<Rightarrow> (Inr (), w1)))"

text \<open>A \<open>ControlConnection\<close>: the two halves of one stream.\<close>

record control_connection =
  cc_reader :: buf_reader
  cc_writer :: tcp_writer

definition control_connection_new :: "segment list \<Rightarrow> control_connection" where
  "control_connection_new net =
     \<lparr>cc_reader = \<lparr>br_buf = [], br_net = net\<rparr>, cc_writer = \<lparr>tw_out = [], tw_up = True\<rparr>\<rparr>"

definition conn_recv ::
  "json_parser \<Rightarrow> control_connection \<Rightarrow> (control_error + message) \<times> control_connection" where
  "conn_recv from_str c =
     (case read_message from_str (cc_reader c) of (res, r) \<Rightarrow> (res, c\<lparr>cc_reader := r\<rparr>))"

definition conn_send ::
  "json_printer \<Rightarrow> message \<Rightarrow> control_connection \<Rightarrow> (control_error + unit) \<times> control_connection" where
  "conn_send to_string m c =
     (case write_message to_string (cc_writer c) m of (res, w) \<Rightarrow> (res, c\<lparr>cc_writer := w\<rparr>))"

text \<open>
  A future of \<open>read_message\<close> that is dropped before it is ready: \<open>select!\<close> drops it when
  another branch wins. The bytes of the turns it has made are consumed, and the line they
  were collected in, \<open>n\<close> bytes so far, is gone. A turn that would have completed the future
  is not made.
\<close>

fun read_dropped :: "nat \<Rightarrow> nat \<Rightarrow> buf_reader \<Rightarrow> buf_reader" where
  "read_dropped 0 n r = r"
| "read_dropped (Suc turns) n r =
     (case fill_buf r of
        (Inl e, r1) \<Rightarrow> r
      | (Inr available, r1) \<Rightarrow>
          if available = [] \<or> newline \<in> set available
             \<or> n + length available \<le> MAX_MESSAGE_SIZE \<and> \<not> utf8_ok available then r
          else read_dropped turns (n + length available) (consume (length available) r1))"

definition conn_recv_dropped :: "nat \<Rightarrow> control_connection \<Rightarrow> control_connection" where
  "conn_recv_dropped turns c = c\<lparr>cc_reader := read_dropped turns 0 (cc_reader c)\<rparr>"

end
