(* ===== verification/RustPath.thy ===== *)
theory RustPath
  imports RustStr
begin

section \<open>Rust paths\<close>

text \<open>
  The part of \<open>std::path\<close> that the source uses, on Unix paths as byte strings: components,
  file name and join. As theory RustStr it models no file under src/.
\<close>

fun split_on :: "char \<Rightarrow> string \<Rightarrow> string list" where
  "split_on sep [] = [[]]"
| "split_on sep (c # cs) =
     (if c = sep then [] # split_on sep cs
      else (case split_on sep cs of [] \<Rightarrow> [[c]] | s # ss \<Rightarrow> (c # s) # ss))"

abbreviation slash :: char where
  "slash \<equiv> CHR ''/''"

definition is_absolute :: "bytes \<Rightarrow> bool" where
  "is_absolute p \<longleftrightarrow> starts_with p [slash]"

datatype component = RootDir | CurDir | ParentDir | Normal bytes

text \<open>Repeated and trailing slashes vanish, as does a dot that is not the first component.\<close>

definition components :: "bytes \<Rightarrow> component list" where
  "components p =
     (let parts = filter (\<lambda>s. s \<noteq> [] \<and> s \<noteq> ''.'') (split_on slash p);
          named = map (\<lambda>s. if s = ''..'' then ParentDir else Normal s) parts
      in if is_absolute p then RootDir # named
         else if hd (split_on slash p) = ''.'' then CurDir # named
         else named)"

definition file_name :: "bytes \<Rightarrow> bytes option" where
  "file_name p = (case rev (components p) of Normal s # _ \<Rightarrow> Some s | _ \<Rightarrow> None)"

definition path_join :: "bytes \<Rightarrow> bytes \<Rightarrow> bytes" where
  "path_join p q =
     (if is_absolute q then q
      else if p = [] \<or> last p = slash then p @ q
      else p @ [slash] @ q)"

lemma split_on_nonempty [simp]: "split_on sep s \<noteq> []"
  by (induction s) (auto split: list.splits)

lemma split_on_parts: "part \<in> set (split_on sep s) \<Longrightarrow> sep \<notin> set part"
  by (induction s arbitrary: part) (fastforce split: list.splits if_splits)+

lemma components_normal: "Normal s \<in> set (components p) \<Longrightarrow> s \<noteq> [] \<and> slash \<notin> set s \<and> s \<noteq> ''.'' \<and> s \<noteq> ''..''"
  by (auto simp: components_def Let_def split: if_splits dest: split_on_parts)

lemma file_name_normal: "file_name p = Some s \<Longrightarrow> s \<noteq> [] \<and> slash \<notin> set s \<and> s \<noteq> ''.'' \<and> s \<noteq> ''..''"
proof -
  assume "file_name p = Some s"
  then have "Normal s \<in> set (components p)"
    by (auto simp: file_name_def split: list.splits component.splits)
  then show ?thesis
    by (rule components_normal)
qed

text \<open>\<open>Path::parent\<close>.\<close>

definition parent_of :: "component list \<Rightarrow> component list option" where
  "parent_of cs = (case rev cs of [] \<Rightarrow> None | RootDir # _ \<Rightarrow> None | _ # rcs \<Rightarrow> Some (rev rcs))"

lemma parent_of_names: "parent_of (RootDir # map Normal (ns @ [s])) = Some (RootDir # map Normal ns)"
  by (simp add: parent_of_def)

end
