(* ===== verification/Mirror.thy ===== *)
theory Mirror
  imports Control RustPath
begin

section \<open>Mirror sockets in the container (src/container/socket.rs)\<close>

text \<open>
  The file system is a map from locations (the names from the root) to nodes with their
  permission bits; a socket remembers the listener bound to it. There are no symbolic links,
  and a path is read as its components. Whatever the kernel may refuse on grounds the map does not
  show (ownership, a full disk) is an answer of \<open>mirror_env\<close>.
\<close>

definition MIRROR_MAX_UNIX_SOCKET_PATH :: nat where
  "MIRROR_MAX_UNIX_SOCKET_PATH = 108"

datatype socket_mirror_error =
    NotAbsolute bytes
  | PathTooLong bytes nat nat
  | CreateDir "component list" io_error
  | Bind bytes io_error
  | Permissions "component list" io_error

record mirror_socket =
  ms_socket_id :: string
  ms_container_path :: bytes
  ms_listener :: "nat option"
  ms_shutdown :: bool

abbreviation mode_0700 :: nat where
  "mode_0700 \<equiv> 7 * 64"

abbreviation mode_0600 :: nat where
  "mode_0600 \<equiv> 6 * 64"

subsection \<open>The file system\<close>

type_synonym location = "bytes list"

datatype node = DirNode nat | FileNode nat | SocketNode nat "nat option"

type_synonym file_system = "(location, node) hashmap"

record mirror_env =
  me_dir_mode :: nat
  me_sock_mode :: nat
  me_mkdir :: "location \<Rightarrow> io_error option"
  me_chmod :: "location \<Rightarrow> io_error option"
  me_unlink :: "location \<Rightarrow> io_error option"
  me_rmdir :: "location \<Rightarrow> io_error option"
  me_bind :: "location \<Rightarrow> io_error option"
  me_register :: "io_error option"

fun is_dir_node :: "node \<Rightarrow> bool" where
  "is_dir_node (DirNode m) = True"
| "is_dir_node n = False"

fun with_mode :: "nat \<Rightarrow> node \<Rightarrow> node" where
  "with_mode m (DirNode _) = DirNode m"
| "with_mode m (FileNode _) = FileNode m"
| "with_mode m (SocketNode _ l) = SocketNode m l"

definition is_dir :: "file_system \<Rightarrow> location \<Rightarrow> bool" where
  "is_dir fs l = (case hm_get fs l of Some n \<Rightarrow> is_dir_node n | None \<Rightarrow> False)"

fun enter :: "location \<Rightarrow> component \<Rightarrow> location" where
  "enter cur (Normal s) = cur @ [s]"
| "enter cur ParentDir = butlast cur"
| "enter cur CurDir = cur"
| "enter cur RootDir = []"

fun walk_path :: "file_system \<Rightarrow> location \<Rightarrow> component list \<Rightarrow> io_error + location" where
  "walk_path fs cur [] = Inr cur"
| "walk_path fs cur (c # cs) =
     (if is_dir fs cur then walk_path fs (enter cur c) cs
      else Inl (if hm_contains fs cur then OtherIo else NotFound))"

definition node_at :: "file_system \<Rightarrow> component list \<Rightarrow> io_error + location \<times> node" where
  "node_at fs cs = res_bind (walk_path fs [] cs) (\<lambda>l. case hm_get fs l of None \<Rightarrow> Inl NotFound | Some n \<Rightarrow> Inr (l, n))"

definition path_exists :: "file_system \<Rightarrow> component list \<Rightarrow> bool" where
  "path_exists fs cs = (case node_at fs cs of Inr _ \<Rightarrow> True | Inl _ \<Rightarrow> False)"

definition path_is_dir :: "file_system \<Rightarrow> component list \<Rightarrow> bool" where
  "path_is_dir fs cs = (case node_at fs cs of Inr (_, n) \<Rightarrow> is_dir_node n | Inl _ \<Rightarrow> False)"

definition refused :: "io_error option \<Rightarrow> 'a \<Rightarrow> io_error + 'a" where
  "refused e x = (case e of Some err \<Rightarrow> Inl err | None \<Rightarrow> Inr x)"

definition mkdir :: "mirror_env \<Rightarrow> component list \<Rightarrow> file_system \<Rightarrow> io_error + file_system" where
  "mkdir env cs fs = res_bind (walk_path fs [] cs) (\<lambda>l.
     if hm_contains fs l then Inl OtherIo
     else refused (me_mkdir env l) (hm_insert l (DirNode (me_dir_mode env)) fs))"

text \<open>\<open>create_dir_all\<close>, on the components of the path in reverse.\<close>

fun create_dir_all :: "mirror_env \<Rightarrow> component list \<Rightarrow> file_system \<Rightarrow> (io_error + unit) \<times> file_system" where
  "create_dir_all env [] fs = (Inr (), fs)"
| "create_dir_all env (c # rcs) fs =
     (case mkdir env (rev (c # rcs)) fs of
        Inr fs1 \<Rightarrow> (Inr (), fs1)
      | Inl e \<Rightarrow>
          if e \<noteq> NotFound then (if path_is_dir fs (rev (c # rcs)) then Inr () else Inl e, fs)
          else (case create_dir_all env rcs fs of
                  (Inl e1, fs1) \<Rightarrow> (Inl e1, fs1)
                | (Inr _, fs1) \<Rightarrow>
                    (case mkdir env (rev (c # rcs)) fs1 of
                       Inr fs2 \<Rightarrow> (Inr (), fs2)
                     | Inl e2 \<Rightarrow> (if path_is_dir fs1 (rev (c # rcs)) then Inr () else Inl e2, fs1))))"

definition set_permissions :: "mirror_env \<Rightarrow> component list \<Rightarrow> nat \<Rightarrow> file_system \<Rightarrow> io_error + file_system" where
  "set_permissions env cs m fs = res_bind (node_at fs cs) (\<lambda>(l, n). refused (me_chmod env l) (hm_insert l (with_mode m n) fs))"

definition remove_file :: "mirror_env \<Rightarrow> component list \<Rightarrow> file_system \<Rightarrow> io_error + file_system" where
  "remove_file env cs fs = res_bind (node_at fs cs) (\<lambda>(l, n).
     if is_dir_node n then Inl OtherIo else refused (me_unlink env l) (hm_remove l fs))"

definition remove_dir :: "mirror_env \<Rightarrow> component list \<Rightarrow> file_system \<Rightarrow> io_error + file_system" where
  "remove_dir env cs fs = res_bind (node_at fs cs) (\<lambda>(l, n).
     if \<not> is_dir_node n \<or> l = [] \<or> (\<exists>k \<in> set (hm_keys fs). k \<noteq> [] \<and> butlast k = l) then Inl OtherIo
     else refused (me_rmdir env l) (hm_remove l fs))"

text \<open>
  \<open>UnixListener::bind\<close> of the standard library: the path and its final zero byte must fit in the
  108 bytes of \<open>sun_path\<close>.
\<close>

definition bind_listener :: "mirror_env \<Rightarrow> nat \<Rightarrow> bytes \<Rightarrow> file_system \<Rightarrow> io_error + file_system" where
  "bind_listener env listener path fs =
     (if length path \<ge> 108 then Inl OtherIo
      else res_bind (walk_path fs [] (components path)) (\<lambda>l.
        if hm_contains fs l \<or> \<not> is_dir fs (butlast l) then Inl OtherIo
        else refused (me_bind env l) (hm_insert l (SocketNode (me_sock_mode env) (Some listener)) fs)))"

subsection \<open>Creating and removing a mirror\<close>

text \<open>The parent directory: made when it is missing, and its permissions set in either case.\<close>

definition prepare_parent :: "mirror_env \<Rightarrow> bytes \<Rightarrow> file_system \<Rightarrow> (socket_mirror_error + unit) \<times> file_system" where
  "prepare_parent env path fs =
     (case parent_of (components path) of
        None \<Rightarrow> (Inr (), fs)
      | Some parent \<Rightarrow>
          (case (if path_exists fs parent then (Inr (), fs) else create_dir_all env (rev parent) fs) of
             (Inl e, fs1) \<Rightarrow> (Inl (CreateDir parent e), fs1)
           | (Inr _, fs1) \<Rightarrow>
               (case set_permissions env parent mode_0700 fs1 of
                  Inl e \<Rightarrow> (Inl (Permissions parent e), fs1)
                | Inr fs2 \<Rightarrow> (Inr (), fs2))))"

text \<open>A file already at the path goes, whatever it is and whether or not the bind then succeeds.\<close>

definition bind_and_protect :: "mirror_env \<Rightarrow> nat \<Rightarrow> bytes \<Rightarrow> file_system \<Rightarrow> (socket_mirror_error + unit) \<times> file_system" where
  "bind_and_protect env listener path fs =
     (let fs1 = (case remove_file env (components path) fs of Inl _ \<Rightarrow> fs | Inr g \<Rightarrow> g)
      in case bind_listener env listener path fs1 of
           Inl e \<Rightarrow> (Inl (Bind path e), fs1)
         | Inr fs2 \<Rightarrow>
             (case me_register env of
                Some e \<Rightarrow> (Inl (Bind path e), fs2)
              | None \<Rightarrow>
                  (case set_permissions env (components path) mode_0600 fs2 of
                     Inl e \<Rightarrow> (Inl (Permissions (components path) e), fs2)
                   | Inr fs3 \<Rightarrow> (Inr (), fs3))))"

definition create_mirror_socket ::
  "mirror_env \<Rightarrow> nat \<Rightarrow> string \<Rightarrow> bytes \<Rightarrow> file_system \<Rightarrow> (socket_mirror_error + mirror_socket) \<times> file_system" where
  "create_mirror_socket env listener socket_id path fs =
     (if \<not> is_absolute path then (Inl (NotAbsolute path), fs)
      else if length path > MIRROR_MAX_UNIX_SOCKET_PATH then (Inl (PathTooLong path (length path) MIRROR_MAX_UNIX_SOCKET_PATH), fs)
      else (case prepare_parent env path fs of
              (Inl e, fs1) \<Rightarrow> (Inl e, fs1)
            | (Inr _, fs1) \<Rightarrow>
                (case bind_and_protect env listener path fs1 of
                   (Inl e, fs2) \<Rightarrow> (Inl e, fs2)
                 | (Inr _, fs2) \<Rightarrow>
                     (Inr \<lparr>ms_socket_id = socket_id, ms_container_path = path, ms_listener = Some listener,
                           ms_shutdown = False\<rparr>, fs2))))"

definition remove_mirror_socket :: "mirror_env \<Rightarrow> mirror_socket \<Rightarrow> file_system \<Rightarrow> file_system" where
  "remove_mirror_socket env mirror fs =
     (let cs = components (ms_container_path mirror);
          fs1 = (case remove_file env cs fs of Inl _ \<Rightarrow> fs | Inr g \<Rightarrow> g)
      in case parent_of cs of
           None \<Rightarrow> fs1
         | Some parent \<Rightarrow> (case remove_dir env parent fs1 of Inl _ \<Rightarrow> fs1 | Inr g \<Rightarrow> g))"

definition cleanup_all_mirrors ::
  "mirror_env \<Rightarrow> (string, mirror_socket) hashmap \<Rightarrow> file_system \<Rightarrow> (string, mirror_socket) hashmap \<times> file_system" where
  "cleanup_all_mirrors env mirrors fs = ([], fold (remove_mirror_socket env) (hm_values mirrors) fs)"

subsection \<open>The accept loop and its clients\<close>

datatype mirror_event = ClientAccepted string | AcceptError | MirrorShutdown

text \<open>The handlers that are spawned, each with a fresh connection identifier.\<close>

fun run_mirror_accept_loop :: "string \<Rightarrow> socket_addr \<Rightarrow> mirror_event list \<Rightarrow> (string \<times> string \<times> socket_addr) list" where
  "run_mirror_accept_loop socket_id host_data_addr [] = []"
| "run_mirror_accept_loop socket_id host_data_addr (ClientAccepted conn_id # evs) =
     (socket_id, conn_id, host_data_addr) # run_mirror_accept_loop socket_id host_data_addr evs"
| "run_mirror_accept_loop socket_id host_data_addr (AcceptError # evs) = run_mirror_accept_loop socket_id host_data_addr evs"
| "run_mirror_accept_loop socket_id host_data_addr (MirrorShutdown # evs) = []"

datatype client_action = RelayRequest message | AwaitAck | ConnectHost socket_addr | WriteData bytes | FlushData | Bridge

record client_env =
  ce_relay :: bool
  ce_ack :: bool
  ce_connect :: bool
  ce_to_string :: json_printer
  ce_write :: bool
  ce_flush :: bool

text \<open>What the handler of one client does, in order, until a step fails.\<close>

definition handle_socket_client :: "client_env \<Rightarrow> string \<Rightarrow> string \<Rightarrow> socket_addr \<Rightarrow> client_action list" where
  "handle_socket_client env socket_id conn_id host_data_addr =
     (let request = [RelayRequest (SocketConnectRequest socket_id conn_id)] in
      if \<not> ce_relay env then request
      else let acked = request @ [AwaitAck] in
      if \<not> ce_ack env then acked
      else let connected = acked @ [ConnectHost host_data_addr] in
      if \<not> ce_connect env then connected
      else (case ce_to_string env (ConnectReady conn_id) of
              None \<Rightarrow> connected
            | Some json \<Rightarrow>
                let wrote = connected @ [WriteData (json @ [newline])] in
                if \<not> ce_write env then wrote
                else let flushed = wrote @ [FlushData] in
                if \<not> ce_flush env then flushed
                else flushed @ [Bridge]))"

subsection \<open>Well-formed file systems\<close>

definition fs_ok :: "file_system \<Rightarrow> bool" where
  "fs_ok fs \<longleftrightarrow> hm_wf fs \<and> is_dir fs [] \<and> (\<forall>l. hm_contains fs l \<longrightarrow> is_dir fs (butlast l))"

lemma is_dir_contains: "is_dir fs l \<Longrightarrow> hm_contains fs l"
  by (auto simp: is_dir_def hm_contains_def split: option.splits)

lemma is_dir_insert: "is_dir (hm_insert l n fs) k \<longleftrightarrow> (if k = l then is_dir_node n else is_dir fs k)"
  by (simp add: is_dir_def)

lemma is_dir_remove: "is_dir (hm_remove l fs) k \<longleftrightarrow> k \<noteq> l \<and> is_dir fs k"
  by (simp add: is_dir_def)

lemma contains_insert: "hm_contains (hm_insert l n fs) k \<longleftrightarrow> k = l \<or> hm_contains fs k"
  by (simp add: hm_contains_def)

lemma contains_remove: "hm_contains (hm_remove l fs) k \<longleftrightarrow> k \<noteq> l \<and> hm_contains fs k"
  by (simp add: hm_contains_def)

lemmas fs_simps = is_dir_insert is_dir_remove contains_insert contains_remove

lemma fs_ok_parent: "fs_ok fs \<Longrightarrow> hm_contains fs l \<Longrightarrow> is_dir fs (butlast l)"
  by (simp add: fs_ok_def)

lemma fs_ok_insert:
  assumes "fs_ok fs" and "is_dir fs (butlast l)" and "\<not> is_dir fs l \<or> is_dir_node n" and "l \<noteq> [] \<or> is_dir_node n"
  shows "fs_ok (hm_insert l n fs)"
proof -
  have "is_dir (hm_insert l n fs) (butlast k)" if "k = l \<or> hm_contains fs k" for k
  proof (cases "butlast k = l")
    case True
    then have "is_dir_node n"
      using that assms(2-4) fs_ok_parent [OF assms(1), of k] by (cases "l = []") auto
    with True show ?thesis
      by (simp add: fs_simps)
  next
    case False
    then show ?thesis
      using that assms(2) fs_ok_parent [OF assms(1), of k] by (auto simp: fs_simps)
  qed
  then show ?thesis
    using assms by (auto simp: fs_ok_def fs_simps)
qed

lemma fs_ok_remove_leaf:
  assumes "fs_ok fs" and "l \<noteq> []" and "\<And>k. hm_contains fs k \<Longrightarrow> k \<noteq> [] \<Longrightarrow> k \<noteq> l \<Longrightarrow> butlast k \<noteq> l"
  shows "fs_ok (hm_remove l fs)"
  using assms by (fastforce simp: fs_ok_def fs_simps)

lemma fs_ok_leaf: "fs_ok fs \<Longrightarrow> \<not> is_dir fs l \<Longrightarrow> hm_contains fs k \<Longrightarrow> butlast k \<noteq> l"
  using fs_ok_parent by blast

text \<open>On a path without parent components the walk ends at the names of the path.\<close>

lemma walk_normal:
  "walk_path fs cur (map Normal names) = Inr l \<longleftrightarrow> l = cur @ names \<and> (\<forall>k < length names. is_dir fs (cur @ take k names))"
proof (induction names arbitrary: cur)
  case (Cons s names)
  have "(\<forall>k < length (s # names). is_dir fs (cur @ take k (s # names)))
      \<longleftrightarrow> is_dir fs cur \<and> (\<forall>k < length names. is_dir fs (cur @ [s] @ take k names))"
    using All_less_Suc2 [of "length names" "\<lambda>k. is_dir fs (cur @ take k (s # names))"] by simp
  then show ?case
    using Cons.IH [of "cur @ [s]"] by auto
qed auto

lemma walk_names:
  "fs_ok fs \<Longrightarrow> walk_path fs [] (RootDir # map Normal names) = Inr l \<longleftrightarrow> l = names \<and> (\<forall>k < length names. is_dir fs (take k names))"
  using walk_normal [of fs "[]" names l] by (simp add: fs_ok_def)

text \<open>In a well-formed file system the directory above is enough.\<close>

lemma is_dir_prefix: "fs_ok fs \<Longrightarrow> is_dir fs l \<Longrightarrow> is_dir fs (take k l)"
proof (induction "length l - k" arbitrary: k)
  case (Suc n)
  then have "is_dir fs (take (Suc k) l)"
    by simp
  then have "is_dir fs (butlast (take (Suc k) l))"
    using fs_ok_parent is_dir_contains Suc.prems(1) by blast
  then show ?case
    using Suc(2) by (simp add: butlast_take)
qed simp

lemma walk_above:
  assumes "fs_ok fs" and "names \<noteq> []"
  shows "walk_path fs [] (RootDir # map Normal names) = Inr l \<longleftrightarrow> l = names \<and> is_dir fs (butlast names)"
proof -
  have "is_dir fs (take k names)" if "is_dir fs (butlast names)" "k < length names" for k
    using is_dir_prefix [OF assms(1) that(1), of k] that(2)
    by (cases "k \<le> length names - 1") (auto simp: butlast_conv_take)
  moreover have "is_dir fs (butlast names)" if "\<forall>k < length names. is_dir fs (take k names)"
    using that assms(2) by (simp add: butlast_conv_take)
  ultimately show ?thesis
    using walk_names [OF assms(1), of names l] by blast
qed

text \<open>Making directories only adds directories, all above or at the one asked for.\<close>

definition grows :: "nat \<Rightarrow> location \<Rightarrow> file_system \<Rightarrow> file_system \<Rightarrow> bool" where
  "grows m names fs fs1 \<longleftrightarrow> (\<forall>l. hm_get fs1 l = hm_get fs l
     \<or> hm_get fs l = None \<and> (\<exists>k. l = take k names) \<and> hm_get fs1 l = Some (DirNode m))"

lemma grows_refl [simp]: "grows m names fs fs"
  by (simp add: grows_def)

lemma grows_insert:
  assumes "grows m ns fs fs1" and "\<not> hm_contains fs1 (ns @ [s])"
  shows "grows m (ns @ [s]) fs (hm_insert (ns @ [s]) (DirNode m) fs1)"
  unfolding grows_def
proof
  fix l
  have "\<exists>k. l = take k (ns @ [s])" if "l = take j ns" for j
    using that by (intro exI [of _ "min j (length ns)"]) (simp add: min_def)
  moreover have "ns @ [s] = take (Suc (length ns)) (ns @ [s])"
    by simp
  ultimately show "hm_get (hm_insert (ns @ [s]) (DirNode m) fs1) l = hm_get fs l
     \<or> hm_get fs l = None \<and> (\<exists>k. l = take k (ns @ [s])) \<and> hm_get (hm_insert (ns @ [s]) (DirNode m) fs1) l = Some (DirNode m)"
    using assms unfolding grows_def hm_contains_def by (metis hm_get_insert)
qed

lemma grows_snoc: "grows m ns fs fs1 \<Longrightarrow> grows m (ns @ [s]) fs fs1"
proof -
  have "take j ns = take (min j (length ns)) (ns @ [s])" for j
    by (simp add: min_def)
  then show "grows m ns fs fs1 \<Longrightarrow> grows m (ns @ [s]) fs fs1"
    unfolding grows_def by metis
qed

lemma mkdir_names:
  assumes "fs_ok fs" and "names \<noteq> []" and "mkdir env (RootDir # map Normal names) fs = Inr fs1"
  shows "fs1 = hm_insert names (DirNode (me_dir_mode env)) fs" and "\<not> hm_contains fs names"
    and "is_dir fs (butlast names)" and "fs_ok fs1"
proof -
  obtain l where l: "walk_path fs [] (RootDir # map Normal names) = Inr l" "\<not> hm_contains fs l"
    "fs1 = hm_insert l (DirNode (me_dir_mode env)) fs"
    using assms(3) by (auto simp: mkdir_def res_bind_eq_Inr refused_def split: if_splits option.splits)
  then show "fs1 = hm_insert names (DirNode (me_dir_mode env)) fs" "\<not> hm_contains fs names" "is_dir fs (butlast names)"
    using walk_above [OF assms(1,2), of l] by auto
  then show "fs_ok fs1"
    using fs_ok_insert [OF assms(1), of names "DirNode (me_dir_mode env)"] by simp
qed

lemma path_is_dir_names: "fs_ok fs \<Longrightarrow> path_is_dir fs (RootDir # map Normal names) \<Longrightarrow> is_dir fs names"
proof -
  assume fs: "fs_ok fs" and p: "path_is_dir fs (RootDir # map Normal names)"
  obtain l where "walk_path fs [] (RootDir # map Normal names) = Inr l" and "is_dir fs l"
    using p by (cases "walk_path fs [] (RootDir # map Normal names)")
      (auto simp: path_is_dir_def node_at_def is_dir_def simp del: walk_path.simps split: option.splits)
  then show "is_dir fs names"
    using walk_names [OF fs, of names l] by simp
qed

lemma create_dir_all_ok:
  "fs_ok fs \<Longrightarrow> create_dir_all env (rev (RootDir # map Normal names)) fs = (r, fs1) \<Longrightarrow>
   fs_ok fs1 \<and> grows (me_dir_mode env) names fs fs1 \<and> (r = Inr () \<longrightarrow> is_dir fs1 names)"
proof (induction names arbitrary: r fs1 rule: rev_induct)
  case Nil
  then have "is_dir fs []" "hm_contains fs []"
    by (auto simp: fs_ok_def is_dir_contains)
  then have "mkdir env [RootDir] fs = Inl OtherIo"
    by (simp add: mkdir_def)
  with Nil \<open>is_dir fs []\<close> show ?case
    by auto
next
  case (snoc s ns)
  obtain R C where R: "R = rev (RootDir # map Normal ns)" and C: "C = RootDir # map Normal (ns @ [s])"
    by simp
  have cs: "rev (Normal s # R) = C"
    by (simp add: R C)
  have r: "create_dir_all env (Normal s # R) fs = (r, fs1)"
    using snoc.prems(2) by (simp add: R)
  note r = r [unfolded create_dir_all.simps cs]
  show ?case
  proof (cases "mkdir env C fs")
    case (Inr g)
    then have "fs1 = g" "r = Inr ()"
      using r by simp_all
    then show ?thesis
      using mkdir_names [OF snoc.prems(1) _ Inr [unfolded C]] grows_insert [of "me_dir_mode env" ns fs fs s]
      by (auto simp: fs_simps)
  next
    case (Inl e)
    show ?thesis
    proof (cases "e = NotFound")
      case False
      then have "fs1 = fs" "r = Inr () \<longrightarrow> path_is_dir fs C"
        using r Inl by (auto split: if_splits)
      then show ?thesis
        using snoc.prems(1) path_is_dir_names [OF snoc.prems(1), of "ns @ [s]"] by (auto simp: C)
    next
      case True
      obtain r1 g where rec: "create_dir_all env R fs = (r1, g)"
        by (cases "create_dir_all env R fs")
      note ih = snoc.IH [OF snoc.prems(1) rec [unfolded R]]
      show ?thesis
      proof (cases r1)
        case e1: (Inl e1)
        then have "fs1 = g" "r \<noteq> Inr ()"
          using r Inl True rec by auto
        then show ?thesis
          using ih grows_snoc by auto
      next
        case ok: (Inr u)
        show ?thesis
        proof (cases "mkdir env C g")
          case (Inr h)
          then have "fs1 = h"
            using r Inl True rec ok by simp
          then show ?thesis
            using mkdir_names [OF conjunct1 [OF ih] _ Inr [unfolded C]] grows_insert [of "me_dir_mode env" ns fs g s] ih
            by (auto simp: fs_simps)
        next
          case e2: (Inl e2)
          then have "fs1 = g" "r = Inr () \<longrightarrow> path_is_dir g C"
            using r Inl True rec ok by (auto split: if_splits)
          then show ?thesis
            using ih grows_snoc path_is_dir_names [of g "ns @ [s]"] by (auto simp: C)
        qed
      qed
    qed
  qed
qed

subsection \<open>What creating a mirror does\<close>

lemma node_at_names:
  assumes "fs_ok fs"
  shows "node_at fs (RootDir # map Normal names) = Inr (l, n) \<longleftrightarrow> l = names \<and> hm_get fs names = Some n"
proof -
  have "walk_path fs [] (RootDir # map Normal names) = Inr names" if "hm_get fs names = Some n"
  proof (cases "names = []")
    case True
    then show ?thesis
      using assms by (simp add: fs_ok_def)
  next
    case False
    have "is_dir fs (butlast names)"
      using fs_ok_parent [OF assms, of names] that by (simp add: hm_contains_def)
    then show ?thesis
      using walk_above [OF assms False] by blast
  qed
  moreover have "l = names" if "walk_path fs [] (RootDir # map Normal names) = Inr l"
    using walk_names [OF assms] that by blast
  ultimately show ?thesis
    by (auto simp: node_at_def res_bind_eq_Inr simp del: walk_path.simps split: option.splits)
qed

lemma node_at_None: "fs_ok fs \<Longrightarrow> hm_get fs names = None \<Longrightarrow> \<exists>e. node_at fs (RootDir # map Normal names) = Inl e"
  using node_at_names [of fs names] by (cases "node_at fs (RootDir # map Normal names)") auto

lemma is_dir_node_with_mode [simp]: "is_dir_node (with_mode m n) = is_dir_node n"
  by (cases n) simp_all

lemma set_permissions_names:
  assumes "fs_ok fs" and "set_permissions env (RootDir # map Normal names) m fs = Inr fs1"
  obtains n where "hm_get fs names = Some n" and "fs1 = hm_insert names (with_mode m n) fs" and "fs_ok fs1"
proof -
  obtain n where n: "hm_get fs names = Some n" and fs1: "fs1 = hm_insert names (with_mode m n) fs"
    using assms(2) node_at_names [OF assms(1)]
    by (auto simp: set_permissions_def res_bind_eq_Inr refused_def split: option.splits)
  have "is_dir fs (butlast names)"
    using fs_ok_parent [OF assms(1), of names] n by (simp add: hm_contains_def)
  moreover have "is_dir fs names \<longrightarrow> is_dir_node n"
    using n by (simp add: is_dir_def)
  moreover have "names = [] \<longrightarrow> is_dir_node n"
    using n assms(1) by (auto simp: fs_ok_def is_dir_def)
  ultimately have "fs_ok fs1"
    using fs_ok_insert [OF assms(1), of names "with_mode m n"] fs1 by auto
  with n fs1 show ?thesis
    by (rule that)
qed

lemma remove_file_names:
  assumes "fs_ok fs" and "remove_file env (RootDir # map Normal names) fs = Inr fs1"
  shows "fs1 = hm_remove names fs" and "fs_ok fs1" and "hm_contains fs names" and "\<not> is_dir fs names"
proof -
  have "\<exists>n. hm_get fs names = Some n \<and> \<not> is_dir_node n \<and> fs1 = hm_remove names fs"
    using assms(2) node_at_names [OF assms(1)]
    by (auto simp: remove_file_def res_bind_eq_Inr refused_def split: option.splits if_splits)
  then show fs1: "fs1 = hm_remove names fs" and c: "hm_contains fs names" and d: "\<not> is_dir fs names"
    by (auto simp: hm_contains_def is_dir_def)
  have "names \<noteq> []"
    using d assms(1) by (auto simp: fs_ok_def)
  then show "fs_ok fs1"
    using fs_ok_remove_leaf [OF assms(1)] fs_ok_leaf [OF assms(1) d] fs1 by blast
qed

lemma bind_listener_names:
  assumes "fs_ok fs" and "names \<noteq> []" and "components path = RootDir # map Normal names"
    and "bind_listener env listener path fs = Inr fs1"
  shows "fs1 = hm_insert names (SocketNode (me_sock_mode env) (Some listener)) fs" and "fs_ok fs1"
    and "\<not> hm_contains fs names" and "is_dir fs (butlast names)" and "length path < 108"
proof -
  show fs1: "fs1 = hm_insert names (SocketNode (me_sock_mode env) (Some listener)) fs"
    and c: "\<not> hm_contains fs names" and d: "is_dir fs (butlast names)" and "length path < 108"
    using assms(4) walk_above [OF assms(1,2)] unfolding bind_listener_def assms(3)
    by (auto simp: res_bind_eq_Inr refused_def simp del: walk_path.simps split: option.splits if_splits)
  show "fs_ok fs1"
    using fs_ok_insert [OF assms(1) d, of "SocketNode (me_sock_mode env) (Some listener)"] c is_dir_contains assms(2) fs1
    by blast
qed

lemma prepare_parent_ok:
  assumes "fs_ok fs" and "components path = RootDir # map Normal (ns @ [s])" and "prepare_parent env path fs = (r, fs1)"
  shows "fs_ok fs1"
    and "l \<noteq> ns \<Longrightarrow> hm_get fs1 l = hm_get fs l \<or> hm_get fs l = None \<and> (\<exists>k. l = take k ns) \<and> hm_get fs1 l = Some (DirNode (me_dir_mode env))"
    and "r = Inr () \<Longrightarrow> is_dir fs1 ns \<Longrightarrow> hm_get fs1 ns = Some (DirNode mode_0700)"
proof -
  let ?parent = "RootDir # map Normal ns"
  have p: "parent_of (components path) = Some ?parent"
    by (simp add: assms(2) parent_of_def)
  obtain q g where made: "(if path_exists fs ?parent then (Inr (), fs) else create_dir_all env (rev ?parent) fs) = (q, g)"
    by (cases "if path_exists fs ?parent then (Inr (), fs) else create_dir_all env (rev ?parent) fs")
  have g: "fs_ok g" "grows (me_dir_mode env) ns fs g"
    using made assms(1) create_dir_all_ok [OF assms(1), of env ns q g] by (auto split: if_splits)
  have cases: "fs1 = g \<and> r \<noteq> Inr () \<or> set_permissions env ?parent mode_0700 g = Inr fs1 \<and> r = Inr ()"
    using assms(3) unfolding prepare_parent_def p option.case made by (cases q) (auto split: sum.splits)
  show "fs_ok fs1"
    using cases g(1) set_permissions_names by blast
  have "l \<noteq> ns \<Longrightarrow> hm_get fs1 l = hm_get g l" for l
    using cases by (auto elim!: set_permissions_names [OF g(1)])
  then show "l \<noteq> ns \<Longrightarrow> hm_get fs1 l = hm_get fs l
      \<or> hm_get fs l = None \<and> (\<exists>k. l = take k ns) \<and> hm_get fs1 l = Some (DirNode (me_dir_mode env))"
    using g(2) unfolding grows_def by metis
  show "hm_get fs1 ns = Some (DirNode mode_0700)" if ok: "r = Inr ()" and dir: "is_dir fs1 ns"
  proof -
    obtain n where "fs1 = hm_insert ns (with_mode mode_0700 n) g"
      using cases ok by (auto elim!: set_permissions_names [OF g(1)])
    then show ?thesis
      using dir by (cases n) (simp_all add: is_dir_def)
  qed
qed

lemma bind_and_protect_ok:
  assumes "fs_ok fs" and "names \<noteq> []" and "components path = RootDir # map Normal names"
    and "bind_and_protect env listener path fs = (r, fs1)"
  shows "fs_ok fs1" and "l \<noteq> names \<Longrightarrow> hm_get fs1 l = hm_get fs l"
    and "r = Inr () \<Longrightarrow> hm_get fs1 names = Some (SocketNode mode_0600 (Some listener))
           \<and> \<not> is_dir fs names \<and> is_dir fs1 (butlast names) \<and> length path < 108"
proof -
  define g where "g = (case remove_file env (components path) fs of Inl _ \<Rightarrow> fs | Inr g \<Rightarrow> g)"
  have g: "fs_ok g" "l \<noteq> names \<Longrightarrow> hm_get g l = hm_get fs l" "\<not> hm_contains g names \<Longrightarrow> \<not> is_dir fs names" for l
    using remove_file_names [OF assms(1), of env names] assms(1)
    unfolding g_def assms(3) by (auto split: sum.splits dest: is_dir_contains)
  have r: "(case bind_listener env listener path g of
           Inl e \<Rightarrow> (Inl (Bind path e), g)
         | Inr fs2 \<Rightarrow>
             (case me_register env of
                Some e \<Rightarrow> (Inl (Bind path e), fs2)
              | None \<Rightarrow>
                  (case set_permissions env (RootDir # map Normal names) mode_0600 fs2 of
                     Inl e \<Rightarrow> (Inl (Permissions (components path) e), fs2)
                   | Inr fs3 \<Rightarrow> (Inr (), fs3)))) = (r, fs1)"
    using assms(4) unfolding bind_and_protect_def Let_def g_def assms(3) .
  show "fs_ok fs1" "l \<noteq> names \<Longrightarrow> hm_get fs1 l = hm_get fs l"
    "r = Inr () \<Longrightarrow> hm_get fs1 names = Some (SocketNode mode_0600 (Some listener))
           \<and> \<not> is_dir fs names \<and> is_dir fs1 (butlast names) \<and> length path < 108" for l
  proof -
    consider "fs1 = g" "r \<noteq> Inr ()"
      | h where "bind_listener env listener path g = Inr h" "fs1 = h" "r \<noteq> Inr ()"
      | h where "bind_listener env listener path g = Inr h" "set_permissions env (RootDir # map Normal names) mode_0600 h = Inr fs1" "r = Inr ()"
      using r by (auto split: sum.splits option.splits)
    then have "fs_ok fs1 \<and> (l \<noteq> names \<longrightarrow> hm_get fs1 l = hm_get fs l)
      \<and> (r = Inr () \<longrightarrow> hm_get fs1 names = Some (SocketNode mode_0600 (Some listener))
           \<and> \<not> is_dir fs names \<and> is_dir fs1 (butlast names) \<and> length path < 108)"
    proof cases
      case 1
      with g show ?thesis
        by simp
    next
      case 2
      with g bind_listener_names [OF g(1) assms(2,3) 2(1)] show ?thesis
        by auto
    next
      case 3
      note b = bind_listener_names [OF g(1) assms(2,3) 3(1)]
      obtain n where n: "hm_get h names = Some n" "fs1 = hm_insert names (with_mode mode_0600 n) h" "fs_ok fs1"
        by (rule set_permissions_names [OF b(2) 3(2)])
      have "butlast names \<noteq> names"
        using assms(2) by (metis append_butlast_last_id append_self_conv list.distinct(1))
      then show ?thesis
        using 3 b g n by (auto simp: is_dir_insert)
    qed
    then show "fs_ok fs1" "l \<noteq> names \<Longrightarrow> hm_get fs1 l = hm_get fs l"
      "r = Inr () \<Longrightarrow> hm_get fs1 names = Some (SocketNode mode_0600 (Some listener))
           \<and> \<not> is_dir fs names \<and> is_dir fs1 (butlast names) \<and> length path < 108"
      by blast+
  qed
qed

subsection \<open>Properties\<close>

definition sample_fs :: file_system where
  "sample_fs = [([], DirNode 493), ([''tmp''], DirNode 1023), ([''tmp'', ''x''], FileNode 420)]"

definition sample_mirror_env :: mirror_env where
  "sample_mirror_env =
     \<lparr>me_dir_mode = 493, me_sock_mode = 493, me_mkdir = (\<lambda>_. None), me_chmod = (\<lambda>_. None), me_unlink = (\<lambda>_. None),
      me_rmdir = (\<lambda>_. None), me_bind = (\<lambda>_. None), me_register = None\<rparr>"

definition sample_mirror :: mirror_socket where
  "sample_mirror = \<lparr>ms_socket_id = ''s1'', ms_container_path = ''/tmp/x'', ms_listener = Some 7, ms_shutdown = False\<rparr>"

lemma sample_fs_ok: "fs_ok sample_fs"
  by (auto simp: fs_ok_def sample_fs_def hm_wf_def is_dir_def hm_contains_def)

lemma sample_path: "components ''/tmp/x'' = RootDir # map Normal ([''tmp''] @ [''x''])" "is_absolute ''/tmp/x''"
  by (simp_all add: components_def is_absolute_def)

lemma is_dir_cong: "hm_get fs1 l = hm_get fs l \<Longrightarrow> is_dir fs1 l = is_dir fs l"
  by (simp add: is_dir_def)

lemma snoc_not_take [simp]: "ns @ [s] \<noteq> take k ns"
proof
  assume "ns @ [s] = take k ns"
  then have "length (ns @ [s]) = length (take k ns)"
    by (rule arg_cong)
  then show False
    by simp
qed

lemma create_mirror_cases:
  assumes "create_mirror_socket env listener socket_id path fs = (r, fs1)"
  obtains (refused) "fs1 = fs" "\<forall>m. r \<noteq> Inr m"
  | (unprepared) q where "prepare_parent env path fs = (q, fs1)" "\<forall>m. r \<noteq> Inr m"
  | (unbound) q g b where "prepare_parent env path fs = (q, g)" "bind_and_protect env listener path g = (b, fs1)" "\<forall>m. r \<noteq> Inr m"
  | (created) g where "prepare_parent env path fs = (Inr (), g)" "bind_and_protect env listener path g = (Inr (), fs1)"
      "r = Inr \<lparr>ms_socket_id = socket_id, ms_container_path = path, ms_listener = Some listener, ms_shutdown = False\<rparr>"
proof (cases "is_absolute path \<and> length path \<le> MIRROR_MAX_UNIX_SOCKET_PATH")
  case False
  then show thesis
    using assms refused by (auto simp: create_mirror_socket_def split: if_splits)
next
  case True
  obtain q g b h where q: "prepare_parent env path fs = (q, g)" and b: "bind_and_protect env listener path g = (b, h)"
    by (metis prod.collapse)
  show thesis
    using assms True unprepared [of q] unbound [of q g b] created [of g] q b by (auto simp: create_mirror_socket_def split: sum.splits)
qed


lemma remove_file_result:
  assumes "fs_ok fs"
  shows "(case remove_file env (RootDir # map Normal names) fs of Inl _ \<Rightarrow> fs | Inr g \<Rightarrow> g)
    = (if hm_contains fs names \<and> \<not> is_dir fs names \<and> me_unlink env names = None then hm_remove names fs else fs)"
proof (cases "hm_get fs names")
  case None
  obtain e where "node_at fs (RootDir # map Normal names) = Inl e"
    using node_at_None [OF assms None] by blast
  then show ?thesis
    using None by (simp add: remove_file_def hm_contains_def)
next
  case (Some n)
  then have "node_at fs (RootDir # map Normal names) = Inr (names, n)"
    using node_at_names [OF assms] by simp
  then show ?thesis
    using Some by (auto simp: remove_file_def hm_contains_def is_dir_def refused_def split: option.splits)
qed

lemma remove_dir_names:
  assumes "fs_ok fs" and "remove_dir env (RootDir # map Normal ns) fs = Inr fs1"
  shows "fs1 = hm_remove ns fs" and "fs_ok fs1" and "\<forall>k. hm_contains fs k \<longrightarrow> k \<noteq> [] \<longrightarrow> butlast k \<noteq> ns"
proof -
  have "fs1 = hm_remove ns fs \<and> ns \<noteq> [] \<and> (\<forall>k \<in> set (hm_keys fs). k \<noteq> [] \<longrightarrow> butlast k \<noteq> ns)"
    using assms(2) node_at_names [OF assms(1)]
    by (auto simp: remove_dir_def res_bind_eq_Inr refused_def split: option.splits if_splits)
  then show "fs1 = hm_remove ns fs" and "\<forall>k. hm_contains fs k \<longrightarrow> k \<noteq> [] \<longrightarrow> butlast k \<noteq> ns" and "fs_ok fs1"
    using fs_ok_remove_leaf [OF assms(1), of ns] by (auto simp: hm_contains_keys simp del: set_map)
qed


text \<open>Removing a mirror takes away whatever file is at its path, its own socket or not (a second mirror
  at the same path loses its socket), and its directory if nothing else is in it, made by the
  daemon or not; nothing else changes.\<close>

theorem mirror_removed:
  assumes "fs_ok fs" and "components (ms_container_path m) = RootDir # map Normal (ns @ [s])"
    and "me_unlink env (ns @ [s]) = None" and "\<not> is_dir fs (ns @ [s])"
  shows "fs_ok (remove_mirror_socket env m fs) \<and> hm_get (remove_mirror_socket env m fs) (ns @ [s]) = None
    \<and> (\<forall>l. l \<noteq> ns @ [s] \<longrightarrow> hm_get (remove_mirror_socket env m fs) l = hm_get fs l
          \<or> l = ns \<and> hm_get (remove_mirror_socket env m fs) l = None
              \<and> (\<forall>k. hm_contains fs k \<longrightarrow> k \<noteq> [] \<longrightarrow> butlast k = ns \<longrightarrow> k = ns @ [s]))"
proof -
  define g where "g = (case remove_file env (RootDir # map Normal (ns @ [s])) fs of Inl _ \<Rightarrow> fs | Inr g \<Rightarrow> g)"
  have g: "g = (if hm_contains fs (ns @ [s]) then hm_remove (ns @ [s]) fs else fs)"
    unfolding g_def remove_file_result [OF assms(1)] using assms(3,4) by simp
  have ok: "fs_ok g"
    using fs_ok_remove_leaf [OF assms(1), of "ns @ [s]"] fs_ok_leaf [OF assms(1,4)] assms(1) g by auto
  have free: "hm_get g (ns @ [s]) = None" and frame: "l \<noteq> ns @ [s] \<Longrightarrow> hm_get g l = hm_get fs l" for l
    by (simp_all add: g hm_contains_def)
  have r: "remove_mirror_socket env m fs = (case remove_dir env (RootDir # map Normal ns) g of Inl _ \<Rightarrow> g | Inr h \<Rightarrow> h)"
    unfolding remove_mirror_socket_def Let_def assms(2) parent_of_names option.case g_def ..
  show ?thesis
  proof (cases "remove_dir env (RootDir # map Normal ns) g")
    case (Inl e)
    then show ?thesis
      using ok free frame r by simp
  next
    case (Inr h)
    note h = remove_dir_names [OF ok Inr]
    have "k = ns @ [s]" if "hm_contains fs k" "k \<noteq> []" "butlast k = ns" for k
      using h(3) that frame [of k] by (cases "k = ns @ [s]") (simp_all add: hm_contains_def)
    then show ?thesis
      using h(1,2) free frame r Inr by simp
  qed
qed

theorem mirror_removed_witness:
  "hm_get (remove_mirror_socket sample_mirror_env sample_mirror sample_fs) [''tmp'', ''x''] = None
   \<and> fs_ok (remove_mirror_socket sample_mirror_env sample_mirror sample_fs)"
  using mirror_removed [OF sample_fs_ok, of sample_mirror "[''tmp'']" "''x''" sample_mirror_env] sample_path
  by (simp add: sample_mirror_def sample_mirror_env_def sample_fs_def is_dir_def)

text \<open>The length check admits one byte more than a socket address holds: a mirror at an absolute path of
  108 bytes always fails, and the file that was at the path is gone all the same.\<close>

theorem sun_path_overrun:
  assumes "fs_ok fs" and "components path = RootDir # map Normal (ns @ [s])" and "is_absolute path"
    and "length path = MIRROR_MAX_UNIX_SOCKET_PATH" and "is_dir fs ns" and "\<not> is_dir fs (ns @ [s])"
    and "me_unlink env (ns @ [s]) = None" and "me_chmod env ns = None"
  shows "fst (create_mirror_socket env listener socket_id path fs) = Inl (Bind path OtherIo)
    \<and> hm_get (snd (create_mirror_socket env listener socket_id path fs)) (ns @ [s]) = None"
proof -
  obtain n where n: "hm_get fs ns = Some n" "is_dir_node n"
    using assms(5) by (auto simp: is_dir_def split: option.splits)
  then have at: "node_at fs (RootDir # map Normal ns) = Inr (ns, n)"
    using node_at_names [OF assms(1)] by simp
  define g where "g = hm_insert ns (with_mode mode_0700 n) fs"
  have ok: "fs_ok g"
    using fs_ok_insert [OF assms(1), of ns "with_mode mode_0700 n"] n fs_ok_parent [OF assms(1), of ns]
    by (simp add: g_def hm_contains_def)
  have p: "prepare_parent env path fs = (Inr (), g)"
    unfolding prepare_parent_def assms(2) parent_of_names option.case
    by (simp add: path_exists_def set_permissions_def at refused_def assms(8) g_def)
  have "\<not> is_dir g (ns @ [s])"
    using assms(6) by (simp add: g_def is_dir_insert)
  then have "hm_get (case remove_file env (RootDir # map Normal (ns @ [s])) g of Inl _ \<Rightarrow> g | Inr h \<Rightarrow> h) (ns @ [s]) = None"
    unfolding remove_file_result [OF ok] using assms(7) by (simp add: hm_contains_def)
  then have "fst (bind_and_protect env listener path g) = Inl (Bind path OtherIo)
      \<and> hm_get (snd (bind_and_protect env listener path g)) (ns @ [s]) = None"
    unfolding bind_and_protect_def Let_def assms(2) using assms(4)
    by (simp add: bind_listener_def MIRROR_MAX_UNIX_SOCKET_PATH_def del: list.map map_append)
  then show ?thesis
    using assms(3,4) p by (cases "bind_and_protect env listener path g") (simp add: create_mirror_socket_def)
qed

theorem sun_path_overrun_witness:
  "fst (create_mirror_socket sample_mirror_env 7 ''s1'' (''/tmp/'' @ replicate 103 (CHR ''x'')) sample_fs)
     = Inl (Bind (''/tmp/'' @ replicate 103 (CHR ''x'')) OtherIo)"
proof -
  have split: "split_on slash (replicate (Suc n) (CHR ''x'')) = [replicate (Suc n) (CHR ''x'')]" for n
    by (induction n) simp_all
  have named: "replicate 103 (CHR ''x'') \<noteq> ''..''" "replicate 103 (CHR ''x'') \<noteq> ''.''"
    by (auto dest: arg_cong [of _ _ length])
  have c: "components (''/tmp/'' @ replicate 103 (CHR ''x'')) = RootDir # map Normal ([''tmp''] @ [replicate 103 (CHR ''x'')])"
    using split [of 102] named by (simp add: components_def is_absolute_def)
  show ?thesis
    using sun_path_overrun [OF sample_fs_ok c, of sample_mirror_env 7 "''s1''"]
    by (simp add: is_absolute_def MIRROR_MAX_UNIX_SOCKET_PATH_def sample_mirror_env_def sample_fs_def is_dir_def)
qed

end
