(* ===== verification/Scanner.thy ===== *)
theory Scanner
  imports Control
begin

section \<open>Listening ports of the container (src/container/scanner.rs, src/container/filter.rs)\<close>

text \<open>
  The tables of listening sockets, the walk over the process directory that finds the owner
  of a socket, the scan built from them, and the filter that decides what is forwarded. What
  the files of the process directory hold is the record \<open>proc_env\<close>; a regular expression is
  the predicate the regex crate compiles it to, a JSON file the value serde\_json reads.
\<close>

datatype scan_error = ReadFile bytes io_error

record listening_port =
  lp_port :: u16
  lp_process_name :: "string option"
  lp_pid :: "u32 option"

record listening_socket =
  ls_port :: u16
  ls_uid :: u32
  ls_inode :: u64

record proc_env =
  pe_tcp :: "io_error + string"
  pe_tcp6 :: "io_error + string"
  pe_status :: "string option"
  pe_entries :: "bytes list option"
  pe_fds :: "bytes \<Rightarrow> bytes option list option"
  pe_comm :: "bytes \<Rightarrow> string option"

text \<open>\<open>lines\<close> of a string: a last line without a line feed keeps a carriage return.\<close>

definition str_lines :: "string \<Rightarrow> string list" where
  "str_lines s =
     (if s = [] \<or> last s = CHR 0x0A then map strip_cr (split_lines s)
      else map strip_cr (butlast (split_lines s)) @ [last (split_lines s)])"

subsection \<open>Parsing\<close>

definition parse_line :: "string \<Rightarrow> listening_socket option" where
  "parse_line line =
     (let columns = split_whitespace line in
      if length columns < 10 \<or> columns ! 3 \<noteq> ''0A'' then None
      else (case rsplit_once (CHR '':'') (columns ! 1) of
              None \<Rightarrow> None
            | Some (_, port_hex) \<Rightarrow>
                (case (parse_hex_u16 port_hex, parse_u32 (columns ! 7), parse_u64 (columns ! 9)) of
                   (Some port, Some uid, Some inode) \<Rightarrow> Some \<lparr>ls_port = port, ls_uid = uid, ls_inode = inode\<rparr>
                 | _ \<Rightarrow> None)))"

definition parse_proc_net_tcp :: "string \<Rightarrow> listening_socket list" where
  "parse_proc_net_tcp content = List.map_filter parse_line (drop 1 (str_lines content))"

definition effective_uid :: "proc_env \<Rightarrow> u32 option" where
  "effective_uid env =
     (case pe_status env of
        None \<Rightarrow> None
      | Some text \<Rightarrow>
          (case List.map_filter (strip_prefix ''Uid:'') (str_lines text) of
             [] \<Rightarrow> None
           | rest # _ \<Rightarrow> (case split_whitespace rest of _ # uid # _ \<Rightarrow> parse_u32 uid | _ \<Rightarrow> None)))"

subsection \<open>The owners of sockets\<close>

definition socket_inode :: "bytes \<Rightarrow> u64 option" where
  "socket_inode link =
     (if \<not> utf8_ok link then None
      else case strip_prefix ''socket:['' link of
             None \<Rightarrow> None
           | Some l \<Rightarrow> (case strip_suffix '']'' l of None \<Rightarrow> None | Some n \<Rightarrow> parse_u64 n))"

definition comm_of :: "proc_env \<Rightarrow> bytes \<Rightarrow> string" where
  "comm_of env pid_name = (case pe_comm env pid_name of None \<Rightarrow> [] | Some s \<Rightarrow> trim s)"

fun resolve_fds :: "u64 list \<Rightarrow> string \<Rightarrow> u32 \<Rightarrow> bytes option list \<Rightarrow> (u64, string \<times> u32) hashmap \<Rightarrow> (u64, string \<times> u32) hashmap" where
  "resolve_fds wanted comm pid [] found = found"
| "resolve_fds wanted comm pid (fd # fds) found =
     (case fd of
        None \<Rightarrow> resolve_fds wanted comm pid fds found
      | Some link \<Rightarrow>
          (case socket_inode link of
             None \<Rightarrow> resolve_fds wanted comm pid fds found
           | Some inode \<Rightarrow>
               if inode \<notin> set wanted \<or> hm_contains found inode then resolve_fds wanted comm pid fds found
               else resolve_fds wanted comm pid fds (hm_insert inode (comm, pid) found)))"

definition resolve_entry :: "proc_env \<Rightarrow> u64 list \<Rightarrow> bytes \<Rightarrow> (u64, string \<times> u32) hashmap \<Rightarrow> (u64, string \<times> u32) hashmap" where
  "resolve_entry env wanted pid_name found =
     (if \<not> utf8_ok pid_name then found
      else (case parse_u32 pid_name of
              None \<Rightarrow> found
            | Some pid \<Rightarrow>
                (case pe_fds env pid_name of
                   None \<Rightarrow> found
                 | Some fds \<Rightarrow> resolve_fds wanted (comm_of env pid_name) pid fds found)))"

text \<open>The walk stops as soon as every wanted socket has its owner.\<close>

fun resolve_entries :: "proc_env \<Rightarrow> u64 list \<Rightarrow> bytes list \<Rightarrow> (u64, string \<times> u32) hashmap \<Rightarrow> (u64, string \<times> u32) hashmap" where
  "resolve_entries env wanted [] found = found"
| "resolve_entries env wanted (e # es) found =
     (if length found = length wanted then found
      else resolve_entries env wanted es (resolve_entry env wanted e found))"

definition resolve_inodes :: "proc_env \<Rightarrow> u64 list \<Rightarrow> (u64, string \<times> u32) hashmap" where
  "resolve_inodes env wanted =
     (case pe_entries env of None \<Rightarrow> [] | Some es \<Rightarrow> resolve_entries env wanted es [])"

subsection \<open>The scan\<close>

fun first_sockets :: "u16 list \<Rightarrow> u16 list \<Rightarrow> listening_socket list \<Rightarrow> listening_socket list" where
  "first_sockets exclude seen [] = []"
| "first_sockets exclude seen (s # ss) =
     (if ls_port s \<notin> set exclude \<and> ls_port s \<notin> set seen then s # first_sockets exclude (ls_port s # seen) ss
      else first_sockets exclude seen ss)"

definition wanted_inodes :: "u32 option \<Rightarrow> u16 list \<Rightarrow> listening_socket list \<Rightarrow> u64 list" where
  "wanted_inodes euid resolved sockets =
     remdups (map ls_inode (filter (\<lambda>s. ls_port s \<notin> set resolved
       \<and> (case euid of None \<Rightarrow> True | Some uid \<Rightarrow> uid = 0 \<or> uid = ls_uid s)) sockets))"

definition listening_of :: "(u64, string \<times> u32) hashmap \<Rightarrow> listening_socket \<Rightarrow> listening_port" where
  "listening_of found s =
     \<lparr>lp_port = ls_port s,
      lp_process_name = (case hm_get found (ls_inode s) of Some (name, _) \<Rightarrow> if name = [] then None else Some name | None \<Rightarrow> None),
      lp_pid = map_option snd (hm_get found (ls_inode s))\<rparr>"

definition sockets_of :: "io_error + string \<Rightarrow> listening_socket list" where
  "sockets_of content = (case content of Inl _ \<Rightarrow> [] | Inr text \<Rightarrow> parse_proc_net_tcp text)"

definition scan_listening_ports :: "proc_env \<Rightarrow> u16 list \<Rightarrow> u16 list \<Rightarrow> scan_error + listening_port list" where
  "scan_listening_ports env exclude_ports resolved =
     (case (pe_tcp env, pe_tcp6 env) of
        (Inl e, Inl _) \<Rightarrow> Inl (ReadFile ''/proc/net/tcp'' e)
      | (tcp, tcp6) \<Rightarrow>
          let sockets = first_sockets exclude_ports [] (sockets_of tcp @ sockets_of tcp6);
              wanted = wanted_inodes (effective_uid env) resolved sockets;
              found = (if wanted = [] then [] else resolve_inodes env wanted)
          in Inr (map (listening_of found) sockets))"

subsection \<open>The filter\<close>

datatype json =
    JNull
  | JBool bool
  | JU64 u64
  | JNumber
  | JString string
  | JArray "json list"
  | JObject "(string \<times> json) list"

type_synonym regex = "string \<Rightarrow> bool"

record port_filter =
  pf_exclude_ports :: "u16 list"
  pf_include_ports :: "u16 list"
  pf_exclude_process :: "regex option"

datatype filter_error = InvalidRegex

definition json_port :: "json \<Rightarrow> u16 option" where
  "json_port item =
     (let p = (case item of
                 JU64 n \<Rightarrow> if unat n < 65536 then Some (ucast n) else None
               | JString s \<Rightarrow> parse_u16 s
               | _ \<Rightarrow> None)
      in case p of Some q \<Rightarrow> if q > 0 then Some q else None | None \<Rightarrow> None)"

text \<open>\<open>None\<close> is a file that cannot be read or is not JSON.\<close>

definition read_forward_ports :: "json option \<Rightarrow> u16 list option" where
  "read_forward_ports file =
     (case file of
        None \<Rightarrow> None
      | Some (JObject members) \<Rightarrow>
          (case map_of members ''forwardPorts'' of
             Some (JArray arr) \<Rightarrow> Some (List.map_filter json_port arr)
           | _ \<Rightarrow> Some [])
      | Some _ \<Rightarrow> Some [])"

definition port_filter_new ::
  "(string \<Rightarrow> regex option) \<Rightarrow> u16 list \<Rightarrow> u16 list \<Rightarrow> string option \<Rightarrow> json option option \<Rightarrow> filter_error + port_filter" where
  "port_filter_new compile exclude_ports include_ports exclude_process devcontainer_json =
     (let include_set = (case devcontainer_json of
                           None \<Rightarrow> include_ports
                         | Some file \<Rightarrow> (case read_forward_ports file of None \<Rightarrow> include_ports | Some ports \<Rightarrow> include_ports @ ports))
      in case exclude_process of
           None \<Rightarrow> Inr \<lparr>pf_exclude_ports = exclude_ports, pf_include_ports = include_set, pf_exclude_process = None\<rparr>
         | Some pattern \<Rightarrow>
             (case compile pattern of
                None \<Rightarrow> Inl InvalidRegex
              | Some r \<Rightarrow> Inr \<lparr>pf_exclude_ports = exclude_ports, pf_include_ports = include_set, pf_exclude_process = Some r\<rparr>))"

definition should_forward :: "port_filter \<Rightarrow> listening_port \<Rightarrow> bool" where
  "should_forward f lp =
     (if lp_port lp \<in> set (pf_exclude_ports f) then False
      else if pf_include_ports f \<noteq> [] \<and> lp_port lp \<notin> set (pf_include_ports f) then False
      else (case (pf_exclude_process f, lp_process_name lp) of
              (Some r, Some name) \<Rightarrow> \<not> r name
            | _ \<Rightarrow> True))"

definition filter_ports :: "port_filter \<Rightarrow> listening_port list \<Rightarrow> listening_port list" where
  "filter_ports f ports = filter (should_forward f) ports"

subsection \<open>The walk\<close>

lemma set_map_filter: "y \<in> set (List.map_filter f xs) \<longleftrightarrow> (\<exists>x \<in> set xs. f x = Some y)"
  by (induction xs) (auto simp: List.map_filter_simps split: option.splits)

definition owner :: "proc_env \<Rightarrow> bytes list \<Rightarrow> u64 \<Rightarrow> string \<times> u32 \<Rightarrow> bool" where
  "owner env es inode np \<longleftrightarrow> (\<exists>e \<in> set es. \<exists>fds link. utf8_ok e \<and> parse_u32 e = Some (snd np) \<and> fst np = comm_of env e
     \<and> pe_fds env e = Some fds \<and> Some link \<in> set fds \<and> socket_inode link = Some inode)"

lemma owner_mono: "owner env es inode np \<Longrightarrow> set es \<subseteq> set es' \<Longrightarrow> owner env es' inode np"
  unfolding owner_def by blast

lemma resolve_fds_get:
  "hm_get (resolve_fds wanted comm pid fds found) k =
     (case hm_get found k of
        Some np \<Rightarrow> Some np
      | None \<Rightarrow> if k \<in> set wanted \<and> (\<exists>link. Some link \<in> set fds \<and> socket_inode link = Some k) then Some (comm, pid) else None)"
proof (induction fds arbitrary: found)
  case Nil
  show ?case
    by (simp split: option.split)
next
  case (Cons fd fds)
  show ?case
  proof (cases fd)
    case None
    then show ?thesis
      using Cons.IH by (auto split: option.split)
  next
    case (Some link)
    show ?thesis
    proof (cases "socket_inode link")
      case None
      then have "(\<exists>l. Some l \<in> set (fd # fds) \<and> socket_inode l = Some k) \<longleftrightarrow> (\<exists>l. Some l \<in> set fds \<and> socket_inode l = Some k)"
        using Some by auto
      then show ?thesis
        using Cons.IH None Some by (auto split: option.split)
    next
      case i: (Some inode)
      have ex: "(\<exists>l. Some l \<in> set (fd # fds) \<and> socket_inode l = Some k)
          \<longleftrightarrow> k = inode \<or> (\<exists>l. Some l \<in> set fds \<and> socket_inode l = Some k)"
        using i Some by auto
      show ?thesis
        unfolding ex using Cons.IH i Some by (auto simp: hm_contains_def split: option.split)
    qed
  qed
qed

lemma resolve_fds_wf: "hm_wf found \<Longrightarrow> hm_wf (resolve_fds wanted comm pid fds found)"
  by (induction wanted comm pid fds found rule: resolve_fds.induct) (auto split: option.splits)

lemma resolve_fds_all:
  "\<forall>k \<in> set wanted. hm_contains found k \<Longrightarrow> resolve_fds wanted comm pid fds found = found"
  by (induction wanted comm pid fds found rule: resolve_fds.induct) (auto split: option.splits)

lemma resolve_entry_all: "\<forall>k \<in> set wanted. hm_contains found k \<Longrightarrow> resolve_entry env wanted e found = found"
  by (auto simp: resolve_entry_def resolve_fds_all split: option.splits)

lemma resolve_entry_wf: "hm_wf found \<Longrightarrow> hm_wf (resolve_entry env wanted e found)"
  by (auto simp: resolve_entry_def resolve_fds_wf split: option.splits)

lemma resolve_entry_get:
  "hm_get (resolve_entry env wanted e found) k =
     (case hm_get found k of
        Some np \<Rightarrow> Some np
      | None \<Rightarrow> if k \<in> set wanted \<and> (\<exists>np. owner env [e] k np)
                then map_option (Pair (comm_of env e)) (parse_u32 e) else None)"
  by (auto simp: resolve_entry_def resolve_fds_get owner_def split: option.splits)

lemma resolve_entry_keys:
  "fst ` set found \<subseteq> set wanted \<Longrightarrow> fst ` set (resolve_entry env wanted e found) \<subseteq> set wanted"
proof
  fix k assume "fst ` set found \<subseteq> set wanted" and "k \<in> fst ` set (resolve_entry env wanted e found)"
  then have "hm_get (resolve_entry env wanted e found) k \<noteq> None" "hm_get found k \<noteq> None \<Longrightarrow> k \<in> set wanted"
    using hm_get_keys [of "resolve_entry env wanted e found" k] hm_get_keys [of found k] by auto
  then show "k \<in> set wanted"
    by (auto simp: resolve_entry_get split: option.splits if_splits)
qed

lemma fold_entries_all: "\<forall>k \<in> set wanted. hm_contains found k \<Longrightarrow> fold (resolve_entry env wanted) es found = found"
  by (induction es) (simp_all add: resolve_entry_all)

lemma resolve_entries_full:
  "distinct wanted \<Longrightarrow> hm_wf found \<Longrightarrow> fst ` set found \<subseteq> set wanted \<Longrightarrow>
   resolve_entries env wanted es found = fold (resolve_entry env wanted) es found"
proof (induction es arbitrary: found)
  case (Cons e es)
  show ?case
  proof (cases "length found = length wanted")
    case True
    then have "card (fst ` set found) = card (set wanted)"
      using Cons.prems hm_length_keys [of found] by (simp add: distinct_card)
    then have "fst ` set found = set wanted"
      using Cons.prems(3) by (intro card_subset_eq) auto
    then have "\<forall>k \<in> set wanted. hm_contains found k"
      by (simp add: hm_contains_keys)
    then show ?thesis
      using True fold_entries_all [of wanted found env "e # es"] by simp
  next
    case False
    then show ?thesis
      using Cons.IH [of "resolve_entry env wanted e found"] Cons.prems resolve_entry_wf resolve_entry_keys by simp
  qed
qed simp

lemma fold_entries_get:
  "hm_get (fold (resolve_entry env wanted) es found) k = Some np \<Longrightarrow>
   hm_get found k = Some np \<or> (k \<in> set wanted \<and> owner env es k np)"
proof (induction es arbitrary: found)
  case (Cons e es)
  then have "hm_get (resolve_entry env wanted e found) k = Some np \<or> k \<in> set wanted \<and> owner env es k np"
    by simp
  then show ?case
    by (auto simp: resolve_entry_get owner_def split: option.splits if_splits)
qed simp

lemma fold_entries_found:
  "hm_get found k \<noteq> None \<or> (k \<in> set wanted \<and> owner env es k np) \<Longrightarrow> hm_get (fold (resolve_entry env wanted) es found) k \<noteq> None"
proof (induction es arbitrary: found)
  case Nil
  then show ?case
    by (auto simp: owner_def)
next
  case (Cons e es)
  have "hm_get (resolve_entry env wanted e found) k \<noteq> None \<or> k \<in> set wanted \<and> owner env es k np"
    using Cons.prems by (auto simp: resolve_entry_get owner_def split: option.splits)
  then show ?case
    using Cons.IH by simp
qed

subsection \<open>The first socket of each port\<close>

lemma first_sockets_set: "s \<in> set (first_sockets exclude seen ss) \<Longrightarrow> s \<in> set ss \<and> ls_port s \<notin> set exclude \<and> ls_port s \<notin> set seen"
  by (induction exclude seen ss rule: first_sockets.induct) (auto split: if_splits)

lemma first_sockets_ports:
  "ls_port ` set (first_sockets exclude seen ss) = ls_port ` set ss - set exclude - set seen"
  by (induction exclude seen ss rule: first_sockets.induct) auto

lemma first_sockets_distinct: "distinct (map ls_port (first_sockets exclude seen ss))"
proof (induction exclude seen ss rule: first_sockets.induct)
  case (2 exclude seen s ss)
  have "ls_port s \<notin> ls_port ` set (first_sockets exclude (ls_port s # seen) ss)"
    by (auto dest: first_sockets_set)
  with 2 show ?case
    by auto
qed simp

subsection \<open>A sample process directory\<close>

definition sample_table :: string where
  "sample_table = ''sl local st'' @ [CHR 0x0A] @ ''0: 00000000:1F90 0:0 0A 0:0 00:0 0 1000 0 12345 1'' @ [CHR 0x0A]"

definition sample_proc :: proc_env where
  "sample_proc =
     \<lparr>pe_tcp = Inr sample_table, pe_tcp6 = Inl NotFound, pe_status = Some (''Uid: 1000 1000''),
      pe_entries = Some [''self'', ''42'', ''43''],
      pe_fds = (\<lambda>e. if e = ''42'' then Some [None, Some ''/dev/null'', Some ''socket:[12345]''] else None),
      pe_comm = (\<lambda>e. if e = ''42'' then Some (''node'' @ [CHR 0x0A]) else None)\<rparr>"

lemmas sample_eval = str_lines_def strip_cr_def split_whitespace_def str_chars_def chars_ascii is_ascii_def is_white_ascii
  rsplit_once_def from_str_radix_def digit_val_def is_ascii_digit_def strip_prefix_def strip_suffix_def
  parse_u16_def parse_u32_def parse_u64_def parse_hex_u16_def utf8_ok_def

lemma scan_sample_line:
  "parse_line ''0: 00000000:1F90 0:0 0A 0:0 00:0 0 1000 0 12345 1'' = Some \<lparr>ls_port = 8080, ls_uid = 1000, ls_inode = 12345\<rparr>"
  by (simp add: parse_line_def sample_eval Let_def)

lemma scan_sample_sockets: "sockets_of (Inr sample_table) = [\<lparr>ls_port = 8080, ls_uid = 1000, ls_inode = 12345\<rparr>]"
proof -
  have "str_lines sample_table = [''sl local st'', ''0: 00000000:1F90 0:0 0A 0:0 00:0 0 1000 0 12345 1'']"
    by (simp add: sample_table_def str_lines_def strip_cr_def)
  then show ?thesis
    by (simp add: sockets_of_def parse_proc_net_tcp_def List.map_filter_simps scan_sample_line)
qed

lemma sample_uid: "effective_uid sample_proc = Some 1000"
  by (simp add: effective_uid_def sample_proc_def sample_eval List.map_filter_simps)

lemma sample_inode: "socket_inode ''socket:[12345]'' = Some 12345" "socket_inode ''/dev/null'' = None"
  by (simp_all add: socket_inode_def sample_eval)

lemma sample_pid: "parse_u32 ''42'' = Some 42" "parse_u32 ''self'' = None" "utf8_ok ''42'' = True" "utf8_ok ''self'' = True"
  by (simp_all add: sample_eval)

lemma sample_comm: "comm_of sample_proc ''42'' = ''node''"
  by (simp add: comm_of_def sample_proc_def trim_def sample_eval)

lemma sample_walk: "resolve_inodes sample_proc [12345] = [(12345, (''node'', 42))]"
  using sample_comm
  by (simp add: resolve_inodes_def resolve_entry_def sample_proc_def sample_pid sample_inode hm_contains_def)

subsection \<open>Properties\<close>

lemma resolve_inodes_spec:
  assumes "distinct wanted"
  shows "resolve_inodes env wanted = (case pe_entries env of None \<Rightarrow> [] | Some es \<Rightarrow> fold (resolve_entry env wanted) es [])"
  using resolve_entries_full [OF assms, of "[]"] by (simp add: resolve_inodes_def split: option.split)

text \<open>C15. Stopping the walk over the processes as soon as all wanted sockets are resolved gives the same
  owners as the walk over all of them.\<close>

theorem early_stop_equivalent:
  assumes "distinct wanted"
  shows "resolve_inodes env wanted = (case pe_entries env of None \<Rightarrow> [] | Some es \<Rightarrow> fold (resolve_entry env wanted) es [])"
  by (rule resolve_inodes_spec [OF assms])

theorem early_stop_equivalent_witness:
  "fold (resolve_entry sample_proc [12345]) [''self'', ''42'', ''43''] [] = [(12345, (''node'', 42))]"
  using early_stop_equivalent [of "[12345]" sample_proc] by (simp only: sample_walk) (simp add: sample_proc_def)

lemma resolved_owner:
  "hm_get (resolve_inodes env (wanted_inodes euid resolved sockets)) k = Some np \<Longrightarrow> \<exists>es. pe_entries env = Some es \<and> owner env es k np"
  using resolve_inodes_spec [of "wanted_inodes euid resolved sockets" env]
  by (auto simp: wanted_inodes_def split: option.splits dest!: fold_entries_get)

lemma resolved_found:
  "pe_entries env = Some es \<Longrightarrow> k \<in> set (wanted_inodes euid resolved sockets) \<Longrightarrow> owner env es k np \<Longrightarrow>
   hm_get (resolve_inodes env (wanted_inodes euid resolved sockets)) k \<noteq> None"
  using resolve_inodes_spec [of "wanted_inodes euid resolved sockets" env]
    fold_entries_found [of "[]" k "wanted_inodes euid resolved sockets" env es np]
  by (simp add: wanted_inodes_def)

lemma scan_ok:
  assumes "scan_listening_ports env exclude resolved = Inr ports"
  obtains found where "ports = map (listening_of found) (first_sockets exclude [] (sockets_of (pe_tcp env) @ sockets_of (pe_tcp6 env)))"
    and "found = (let w = wanted_inodes (effective_uid env) resolved (first_sockets exclude [] (sockets_of (pe_tcp env) @ sockets_of (pe_tcp6 env)))
           in if w = [] then [] else resolve_inodes env w)"
  using assms by (auto simp: scan_listening_ports_def Let_def split: sum.splits)

lemma scan_ports: "scan_listening_ports env exclude resolved = Inr ports \<Longrightarrow> distinct (map lp_port ports)"
  using first_sockets_distinct by (auto elim!: scan_ok simp: listening_of_def comp_def)

lemma scan_entry:
  assumes "s \<in> set socks" and "found = (let w = wanted_inodes (effective_uid env) resolved socks in if w = [] then [] else resolve_inodes env w)"
    and "lp = listening_of found s"
  shows "ls_port s = lp_port lp"
    and "lp_pid lp = Some pid \<Longrightarrow> \<exists>es name. pe_entries env = Some es \<and> owner env es (ls_inode s) (name, pid)
          \<and> lp_process_name lp = (if name = [] then None else Some name)"
    and "lp_pid lp = None \<Longrightarrow> lp_port lp \<notin> set resolved \<Longrightarrow> effective_uid env \<in> {None, Some 0, Some (ls_uid s)} \<Longrightarrow>
          pe_entries env = Some es \<Longrightarrow> \<not> owner env es (ls_inode s) np"
proof -
  have found: "hm_get found k = Some np \<Longrightarrow> \<exists>es. pe_entries env = Some es \<and> owner env es k np" for k np
    using resolved_owner [of env "effective_uid env" resolved socks k np] by (auto simp: assms(2) Let_def split: if_splits)
  show "ls_port s = lp_port lp"
    by (simp add: assms(3) listening_of_def)
  show "\<exists>es name. pe_entries env = Some es \<and> owner env es (ls_inode s) (name, pid)
          \<and> lp_process_name lp = (if name = [] then None else Some name)" if "lp_pid lp = Some pid"
    using that found [of "ls_inode s"] by (fastforce simp: assms(3) listening_of_def split: option.splits)
  show "\<not> owner env es (ls_inode s) np" if "lp_pid lp = None" "lp_port lp \<notin> set resolved"
    "effective_uid env \<in> {None, Some 0, Some (ls_uid s)}" "pe_entries env = Some es"
  proof
    assume o: "owner env es (ls_inode s) np"
    have "ls_inode s \<in> set (wanted_inodes (effective_uid env) resolved socks)"
      using that(2,3) assms(1) by (auto simp: wanted_inodes_def assms(3) listening_of_def)
    then have "hm_get found (ls_inode s) \<noteq> None"
      using resolved_found [OF that(4) _ o, of "effective_uid env" resolved socks] by (auto simp: assms(2) Let_def)
    with that(1) show False
      by (simp add: assms(3) listening_of_def)
  qed
qed

text \<open>C16. The scan is exact: it fails only when neither table can be read; else it lists each port with a
  listening socket in a readable table, other than the excluded ones, exactly once; a process
  it names owns a file descriptor of that socket; and it finds the process of every socket
  of a port not resolved before that this user may inspect, if one is visible.\<close>

theorem scan_exact:
  "case scan_listening_ports env exclude resolved of
     Inl e \<Rightarrow> isl (pe_tcp env) \<and> isl (pe_tcp6 env)
   | Inr ports \<Rightarrow> distinct (map lp_port ports)
       \<and> lp_port ` set ports = ls_port ` set (sockets_of (pe_tcp env) @ sockets_of (pe_tcp6 env)) - set exclude
       \<and> (\<forall>lp \<in> set ports. \<exists>s \<in> set (sockets_of (pe_tcp env) @ sockets_of (pe_tcp6 env)). ls_port s = lp_port lp
           \<and> (\<forall>pid. lp_pid lp = Some pid \<longrightarrow> (\<exists>es name. pe_entries env = Some es \<and> owner env es (ls_inode s) (name, pid)
                \<and> lp_process_name lp = (if name = [] then None else Some name)))
           \<and> (lp_pid lp = None \<longrightarrow> lp_port lp \<notin> set resolved \<longrightarrow> effective_uid env \<in> {None, Some 0, Some (ls_uid s)} \<longrightarrow>
                (\<forall>es np. pe_entries env = Some es \<longrightarrow> \<not> owner env es (ls_inode s) np)))"
proof (cases "scan_listening_ports env exclude resolved")
  case (Inl e)
  then show ?thesis
    by (auto simp: scan_listening_ports_def Let_def split: sum.splits)
next
  case (Inr ports)
  let ?all = "sockets_of (pe_tcp env) @ sockets_of (pe_tcp6 env)"
  let ?socks = "first_sockets exclude [] ?all"
  let ?w = "wanted_inodes (effective_uid env) resolved ?socks"
  obtain found where ports: "ports = map (listening_of found) ?socks"
    and f: "found = (let w = ?w in if w = [] then [] else resolve_inodes env w)"
    by (rule scan_ok [OF Inr])
  have "lp_port ` set ports = ls_port ` set ?all - set exclude"
    using first_sockets_ports [of exclude "[]" ?all] by (simp add: ports image_image listening_of_def del: set_append)
  moreover have "\<exists>s \<in> set ?all. ls_port s = lp_port lp
           \<and> (\<forall>pid. lp_pid lp = Some pid \<longrightarrow> (\<exists>es name. pe_entries env = Some es \<and> owner env es (ls_inode s) (name, pid)
                \<and> lp_process_name lp = (if name = [] then None else Some name)))
           \<and> (lp_pid lp = None \<longrightarrow> lp_port lp \<notin> set resolved \<longrightarrow> effective_uid env \<in> {None, Some 0, Some (ls_uid s)} \<longrightarrow>
                (\<forall>es np. pe_entries env = Some es \<longrightarrow> \<not> owner env es (ls_inode s) np))" if "lp \<in> set ports" for lp
  proof -
    have "lp \<in> listening_of found ` set ?socks"
      using that by (simp only: ports set_map)
    then obtain s where s: "s \<in> set ?socks" and lp: "lp = listening_of found s"
      by blast
    show ?thesis
      using scan_entry [OF s f lp] first_sockets_set [OF s] by (intro bexI [of _ s]) blast+
  qed
  ultimately show ?thesis
    using scan_ports [OF Inr] Inr by simp
qed

lemma sample_scan: "scan_listening_ports sample_proc [] [] = Inr [\<lparr>lp_port = 8080, lp_process_name = Some ''node'', lp_pid = Some 42\<rparr>]"
proof -
  have "pe_tcp sample_proc = Inr sample_table" "pe_tcp6 sample_proc = Inl NotFound" "sockets_of (Inl NotFound) = []"
    by (simp_all add: sample_proc_def sockets_of_def)
  then show ?thesis
    by (simp add: scan_listening_ports_def scan_sample_sockets sample_uid wanted_inodes_def sample_walk listening_of_def)
qed

theorem scan_exact_witness:
  "scan_listening_ports sample_proc [] [] = Inr [\<lparr>lp_port = 8080, lp_process_name = Some ''node'', lp_pid = Some 42\<rparr>]
   \<and> (\<exists>es (s :: listening_socket). pe_entries sample_proc = Some es \<and> ls_port s = 8080 \<and> owner sample_proc es (ls_inode s) (''node'', 42))"
proof -
  have "\<exists>s \<in> set (sockets_of (pe_tcp sample_proc) @ sockets_of (pe_tcp6 sample_proc)). ls_port s = 8080
      \<and> (\<exists>es name. pe_entries sample_proc = Some es \<and> owner sample_proc es (ls_inode s) (name, 42)
            \<and> Some ''node'' = (if name = [] then None else Some name))"
    using scan_exact [of sample_proc "[]" "[]", unfolded sample_scan sum.case, THEN conjunct2, THEN conjunct2,
        THEN bspec, of "\<lparr>lp_port = 8080, lp_process_name = Some ''node'', lp_pid = Some 42\<rparr>"]
    by (simp del: set_append)
  then obtain s :: listening_socket and es name where "ls_port s = 8080" "pe_entries sample_proc = Some es" "owner sample_proc es (ls_inode s) (name, 42)"
    and name: "Some ''node'' = (if name = [] then None else Some name)"
    by blast
  moreover have "name = ''node''"
    using name by (cases "name = []") simp_all
  ultimately show ?thesis
    using sample_scan by blast
qed

text \<open>The filter: a port is forwarded if and only if it is not excluded, is allowed (the allow list is
  the given ports together with the valid entries, numbers or strings from 1 to 65535, of
  \<open>forwardPorts\<close>; an empty one allows all) and its process name does not match.\<close>

theorem filter_decides:
  assumes "port_filter_new compile exclude includes pattern file = Inr f"
    and "allowed = set includes \<union> {p. \<exists>members arr item. file = Some (Some (JObject members))
      \<and> map_of members ''forwardPorts'' = Some (JArray arr) \<and> item \<in> set arr \<and> 0 < p
      \<and> ((\<exists>n. item = JU64 n \<and> unat n = unat p) \<or> (\<exists>t. item = JString t \<and> parse_u16 t = Some p))}"
  shows "should_forward f lp \<longleftrightarrow> lp_port lp \<notin> set exclude \<and> (allowed = {} \<or> lp_port lp \<in> allowed)
    \<and> (\<forall>t r name. pattern = Some t \<and> compile t = Some r \<and> lp_process_name lp = Some name \<longrightarrow> \<not> r name)"
proof -
  have j: "json_port item = Some p \<longleftrightarrow> 0 < p \<and> ((\<exists>n. item = JU64 n \<and> unat n = unat p) \<or> (\<exists>t. item = JString t \<and> parse_u16 t = Some p))"
    for item p
  proof (cases item)
    case (JU64 n)
    have "unat n < 65536 \<Longrightarrow> (ucast n :: u16) = p \<longleftrightarrow> unat n = unat p"
      by (simp add: word_unat_eq_iff unsigned_ucast_eq unsigned_take_bit_eq take_bit_nat_eq_self)
    moreover have "unat p < 65536"
      using unsigned_less [of p, where ?'a = nat] by simp
    ultimately show ?thesis
      using JU64 by (auto simp: json_port_def Let_def split: if_splits)
  qed (auto simp: json_port_def split: option.splits if_splits)
  have "set (pf_include_ports f) = allowed"
    using assms(1) unfolding assms(2) j [symmetric]
    by (auto simp: port_filter_new_def read_forward_ports_def Let_def set_map_filter
        split: option.splits json.splits)
  moreover have "pf_exclude_ports f = exclude"
    and "pf_exclude_process f = (case pattern of None \<Rightarrow> None | Some t \<Rightarrow> compile t)"
    using assms(1) by (auto simp: port_filter_new_def Let_def split: option.splits)
  moreover have "pf_include_ports f = [] \<longleftrightarrow> set (pf_include_ports f) = {}"
    by simp
  ultimately show ?thesis
    by (auto simp: should_forward_def split: option.splits)
qed


theorem filter_decides_witness:
  "\<not> should_forward \<lparr>pf_exclude_ports = [9229], pf_include_ports = [80, 8080], pf_exclude_process = Some (\<lambda>n. n = ''node'')\<rparr>
      \<lparr>lp_port = 8080, lp_process_name = Some ''node'', lp_pid = Some 42\<rparr>
   \<and> should_forward \<lparr>pf_exclude_ports = [9229], pf_include_ports = [80, 8080], pf_exclude_process = Some (\<lambda>n. n = ''node'')\<rparr>
      \<lparr>lp_port = 8080, lp_process_name = Some ''vite'', lp_pid = Some 43\<rparr>"
proof -
  let ?file = "Some (Some (JObject [(''forwardPorts'', JArray [JU64 8080, JU64 0, JString ''x''])]))"
  let ?f = "\<lparr>pf_exclude_ports = [9229], pf_include_ports = [80, 8080], pf_exclude_process = Some (\<lambda>n. n = ''node'')\<rparr>"
  have "parse_u16 ''x'' = None"
    by (simp add: sample_eval)
  then have f: "port_filter_new (\<lambda>t. Some (\<lambda>n. n = t)) [9229] [80] (Some ''node'') ?file = Inr ?f"
    by (simp add: port_filter_new_def read_forward_ports_def json_port_def List.map_filter_simps)
  show ?thesis
    using filter_decides [OF f refl] by (simp add: conj_disj_distribR ex_disj_distrib)
qed

end
