(* ===== verification/HostAddr.thy ===== *)
theory HostAddr
  imports Scanner RustPath
begin

section \<open>Finding the host (src/container/mod.rs, src/container/browser.rs)\<close>

text \<open>
  How the container finds the address of the host daemon, its own identifier, and the
  one-shot client that asks the host to open a URL. The answers of the resolver, of \<open>ip route\<close>
  and of the files and variables read are arguments; an IP address is its text.
\<close>

datatype container_error =
    HostResolution "string list"
  | ConnectError control_error
  | ControlFailed control_error
  | ScanFailed scan_error
  | FilterFailed filter_error
  | AuthenticationFailed
  | ContainerIo io_error

subsection \<open>Addresses of the standard library\<close>

definition parse_octet :: "string \<Rightarrow> nat option" where
  "parse_octet s =
     (if s = [] \<or> length s > 3 \<or> \<not> list_all is_ascii_digit s \<or> (length s > 1 \<and> hd s = CHR ''0'') then None
      else (case digits_val 10 0 s of Some v \<Rightarrow> if v < 256 then Some v else None | None \<Rightarrow> None))"

definition parse_ipv4 :: "string \<Rightarrow> nat list option" where
  "parse_ipv4 s =
     (case split_on (CHR ''.'') s of
        [a, b, c, d] \<Rightarrow>
          (case (parse_octet a, parse_octet b, parse_octet c, parse_octet d) of
             (Some w, Some x, Some y, Some z) \<Rightarrow> Some [w, x, y, z]
           | _ \<Rightarrow> None)
      | _ \<Rightarrow> None)"

definition parse_port :: "string \<Rightarrow> u16 option" where
  "parse_port s =
     (if s = [] \<or> \<not> list_all is_ascii_digit s then None
      else (case digits_val 10 0 s of Some v \<Rightarrow> if v < 65536 then Some (of_nat v) else None | None \<Rightarrow> None))"

text \<open>
  \<open>SocketAddr::from_str\<close>: an IPv4 address and a port, or an IPv6 address in brackets
  and a port. \<open>v6\<close> says which texts are IPv6 addresses, with or without a scope.
\<close>

definition parse_socket_addr :: "(string \<Rightarrow> bool) \<Rightarrow> string \<Rightarrow> socket_addr option" where
  "parse_socket_addr v6 s =
     (case rsplit_once (CHR '':'') s of
        None \<Rightarrow> None
      | Some (host, port) \<Rightarrow>
          (case (parse_ipv4 host, parse_port port) of
             (Some ip, Some p) \<Rightarrow> Some (V4 ip p)
           | (None, Some p) \<Rightarrow>
               (case strip_prefix ''['' host of
                  None \<Rightarrow> None
                | Some r \<Rightarrow> (case strip_suffix '']'' r of
                               Some ip \<Rightarrow> if v6 ip then Some (V6 ip p) else None
                             | None \<Rightarrow> None))
           | _ \<Rightarrow> None))"

definition is_ip_addr :: "(string \<Rightarrow> bool) \<Rightarrow> string \<Rightarrow> bool" where
  "is_ip_addr v6 s \<longleftrightarrow> parse_ipv4 s \<noteq> None \<or> v6 s"

subsection \<open>The resolution chain\<close>

record resolve_env =
  re_v6 :: "string \<Rightarrow> bool"
  re_v6_scoped :: "string \<Rightarrow> bool"
  re_lookup :: "string \<Rightarrow> string list option"
  re_ip_route :: "(bool \<times> string) option"

definition lookup_first :: "resolve_env \<Rightarrow> string \<Rightarrow> string option" where
  "lookup_first env name = (case re_lookup env name of Some (ip # _) \<Rightarrow> Some ip | _ \<Rightarrow> None)"

definition default_via :: "string \<Rightarrow> string option" where
  "default_via line =
     (case split_whitespace line of
        a # b # ip # _ \<Rightarrow> if a = ''default'' \<and> b = ''via'' then Some ip else None
      | _ \<Rightarrow> None)"

definition resolve_gateway_ip :: "resolve_env \<Rightarrow> string option" where
  "resolve_gateway_ip env =
     (case re_ip_route env of
        None \<Rightarrow> None
      | Some (success, stdout) \<Rightarrow>
          if \<not> success then None
          else (case List.map_filter default_via (str_lines stdout) of ip # _ \<Rightarrow> Some ip | [] \<Rightarrow> None))"

definition resolve_host_addr :: "resolve_env \<Rightarrow> string option \<Rightarrow> container_error + string" where
  "resolve_host_addr env host_addr =
     (case host_addr of
        Some addr \<Rightarrow>
          if is_ip_addr (re_v6 env) addr then Inr addr
          else (case lookup_first env (addr @ '':0'') of Some ip \<Rightarrow> Inr ip | None \<Rightarrow> Inr addr)
      | None \<Rightarrow>
          (case lookup_first env ''host.docker.internal:0'' of
             Some ip \<Rightarrow> Inr ip
           | None \<Rightarrow>
               (case resolve_gateway_ip env of
                  Some ip \<Rightarrow> Inr ip
                | None \<Rightarrow> Inl (HostResolution [''--host-addr flag / DCBRIDGE_HOST env'', ''host.docker.internal DNS'',
                                              ''gateway IP from default route'']))))"

definition host_and_port :: "string \<Rightarrow> u16 \<Rightarrow> string" where
  "host_and_port host port = host @ '':'' @ show_nat (unat port)"

definition parse_addr :: "(string \<Rightarrow> bool) \<Rightarrow> string \<Rightarrow> u16 \<Rightarrow> container_error + socket_addr" where
  "parse_addr v6 host port =
     (case parse_socket_addr v6 (host_and_port host port) of Some a \<Rightarrow> Inr a | None \<Rightarrow> Inl (ContainerIo OtherIo))"

definition get_container_id :: "string option \<Rightarrow> string option \<Rightarrow> string" where
  "get_container_id etc_hostname hostname_var =
     (case (case etc_hostname of Some s \<Rightarrow> if trim s \<noteq> [] then Some (trim s) else None | None \<Rightarrow> None) of
        Some cid \<Rightarrow> cid
      | None \<Rightarrow> (case hostname_var of Some v \<Rightarrow> v | None \<Rightarrow> ''unknown''))"

subsection \<open>Opening a URL on the host\<close>

datatype open_error =
    Validation url_validation_error
  | OpenConnect control_error
  | SendFailed control_error
  | RecvFailed control_error
  | OpenFailed
  | UnexpectedResponse message
  | OpenHostResolution

text \<open>
  \<open>from_env\<close> is the configuration of the environment (its host address), \<open>connect\<close> what connecting to
  an address gives: an error or the stream of the host's answer.
\<close>

definition client_open_url ::
  "resolve_env \<Rightarrow> json_printer \<Rightarrow> json_parser \<Rightarrow> string option option \<Rightarrow> (socket_addr \<Rightarrow> control_error + control_connection)
   \<Rightarrow> string \<Rightarrow> u16 \<Rightarrow> (open_error + unit) \<times> control_connection option" where
  "client_open_url env to_string from_str from_env connect url control_port =
     (case validate_open_url url of
        Inl e \<Rightarrow> (Inl (Validation e), None)
      | Inr _ \<Rightarrow>
          (case from_env of
             None \<Rightarrow> (Inl OpenHostResolution, None)
           | Some host_addr \<Rightarrow>
               (case resolve_host_addr env host_addr of
                  Inl _ \<Rightarrow> (Inl OpenHostResolution, None)
                | Inr host \<Rightarrow>
                    (case parse_socket_addr (re_v6_scoped env) (host_and_port host control_port) of
                       None \<Rightarrow> (Inl OpenHostResolution, None)
                     | Some addr \<Rightarrow>
                         (case connect addr of
                            Inl e \<Rightarrow> (Inl (OpenConnect e), None)
                          | Inr conn \<Rightarrow>
                              (case conn_send to_string (OpenUrl url) conn of
                                 (Inl e, conn1) \<Rightarrow> (Inl (SendFailed e), Some conn1)
                               | (Inr _, conn1) \<Rightarrow>
                                   (case conn_recv from_str conn1 of
                                      (Inl e, conn2) \<Rightarrow> (Inl (RecvFailed e), Some conn2)
                                    | (Inr response, conn2) \<Rightarrow>
                                        ((case response of
                                            OpenUrlAck success \<Rightarrow> if success then Inr () else Inl OpenFailed
                                          | other \<Rightarrow> Inl (UnexpectedResponse other)), Some conn2))))))))"

subsection \<open>Properties\<close>

lemma position_here: "c \<notin> set t \<Longrightarrow> position (\<lambda>x. x = c) (rev t @ c # u) = Some (length t)"
proof -
  assume "c \<notin> set t"
  then have "position (\<lambda>x. x = c) (rev t) = None"
    by (auto simp: position_None)
  then show ?thesis
    by (simp add: position_append)
qed

lemma rsplit_once_here: "c \<notin> set t \<Longrightarrow> rsplit_once c (h @ c # t) = Some (h, t)"
  by (simp add: rsplit_once_def position_here)

lemma parse_port_show: "parse_port (show_nat (unat p)) = Some (p :: u16)"
  using show_nat_digits [of "unat p"] unsigned_less [of p, where ?'a = nat]
  by (simp add: parse_port_def digits_val_show_nat list_all_iff)

lemma show_nat_no_colon: "CHR '':'' \<notin> set (show_nat n)"
  using show_nat_digits [of n] by (auto simp: is_ascii_digit_def)

lemma host_and_port_split: "rsplit_once (CHR '':'') (host_and_port host port) = Some (host, show_nat (unat port))"
  using rsplit_once_here [OF show_nat_no_colon, of host "unat port"] by (simp add: host_and_port_def)

lemma split_on_concat: "c \<in> set s \<Longrightarrow> c \<noteq> sep \<Longrightarrow> \<exists>part \<in> set (split_on sep s). c \<in> set part"
  by (induction s) (fastforce split: list.splits)+

lemma parse_ipv4_chars: "parse_ipv4 s = Some ip \<Longrightarrow> c \<in> set s \<Longrightarrow> is_ascii_digit c \<or> c = CHR ''.''"
proof (rule ccontr)
  assume ip: "parse_ipv4 s = Some ip" and c: "c \<in> set s" and no: "\<not> (is_ascii_digit c \<or> c = CHR ''.'')"
  have parts: "\<forall>part \<in> set (split_on (CHR ''.'') s). \<exists>v. parse_octet part = Some v"
    using ip by (auto simp: parse_ipv4_def split: list.splits option.splits)
  obtain part where "part \<in> set (split_on (CHR ''.'') s)" "c \<in> set part"
    using split_on_concat [OF c] no by blast
  with parts no show False
    by (fastforce simp: parse_octet_def list_all_iff split: if_splits)
qed

text \<open>The address built from the host and a port: an IPv4 host gives its socket address; a host whose
  text is an IPv6 address (it has a colon and no bracket), as the resolver returns it or the
  user writes it, never gives one, and the daemon stops with an error.\<close>

theorem host_addr_families:
  assumes "resolve_host_addr env host_addr = Inr host"
  shows "(\<forall>ip. parse_ipv4 host = Some ip \<longrightarrow> parse_addr (re_v6_scoped env) host port = Inr (V4 ip port))
    \<and> (CHR '':'' \<in> set host \<and> hd host \<noteq> CHR ''['' \<longrightarrow> parse_addr (re_v6_scoped env) host port = Inl (ContainerIo OtherIo))
    \<and> (host_addr = Some host \<or> (\<exists>name ips. re_lookup env name = Some (host # ips)) \<or> resolve_gateway_ip env = Some host)"
proof -
  have v4: "parse_addr (re_v6_scoped env) host port = Inr (V4 ip port)" if "parse_ipv4 host = Some ip" for ip
    using that by (simp add: parse_addr_def parse_socket_addr_def host_and_port_split parse_port_show)
  have v6: "parse_addr (re_v6_scoped env) host port = Inl (ContainerIo OtherIo)"
    if colon: "CHR '':'' \<in> set host" and no: "hd host \<noteq> CHR ''[''"
  proof -
    have "parse_ipv4 host = None"
      using parse_ipv4_chars [OF _ colon] by (cases "parse_ipv4 host") (auto simp: is_ascii_digit_def)
    moreover have "strip_prefix ''['' host = None"
      using colon no by (cases host) (auto simp: strip_prefix_def)
    ultimately show ?thesis
      by (simp add: parse_addr_def parse_socket_addr_def host_and_port_split parse_port_show)
  qed
  have "host_addr = Some host \<or> (\<exists>name ips. re_lookup env name = Some (host # ips)) \<or> resolve_gateway_ip env = Some host"
    using assms by (auto simp: resolve_host_addr_def lookup_first_def split: option.splits list.splits if_splits)
  with v4 v6 show ?thesis
    by blast
qed

definition sample_resolve :: resolve_env where
  "sample_resolve =
     \<lparr>re_v6 = (\<lambda>s. s = ''::1''), re_v6_scoped = (\<lambda>s. s = ''::1''),
      re_lookup = (\<lambda>name. if name = ''host.docker.internal:0'' then Some [''::1'', ''10.0.0.1''] else None), re_ip_route = None\<rparr>"

theorem host_addr_families_witness:
  "resolve_host_addr sample_resolve None = Inr ''::1''
   \<and> parse_addr (re_v6_scoped sample_resolve) ''::1'' 19285 = Inl (ContainerIo OtherIo)"
proof -
  have r: "resolve_host_addr sample_resolve None = Inr ''::1''"
    by (simp add: resolve_host_addr_def lookup_first_def sample_resolve_def)
  show ?thesis
    using host_addr_families [OF r, of 19285] r by simp
qed

end
