(* ===== verification/ContainerData.thy ===== *)
theory ContainerData
  imports Mirror HostAddr
begin

section \<open>Reverse data connections (src/container/data.rs)\<close>

text \<open>
  The handler of one \<open>ConnectRequest\<close>. The network answers each call; the handler yields its
  result and, in order, what it did.
\<close>

datatype connect_answer = ConnectOk | ConnectErr io_error | ConnectTimeout

datatype data_error =
    LocalConnect u16 io_error
  | HostConnect socket_addr io_error
  | Handshake io_error
  | BridgeFailed io_error
  | ControlSend control_error

datatype data_action = DialLocal4 u16 | DialLocal6 u16 | DialData socket_addr | WriteLine bytes | FlushLine | CopyBoth

record data_env =
  da_ipv4 :: connect_answer
  da_ipv6 :: connect_answer
  da_host :: connect_answer
  da_to_string :: json_printer
  da_write :: "io_error option"
  da_flush :: "io_error option"
  da_copy :: "io_error option"
  da_show :: "data_error \<Rightarrow> string"

definition dial_local :: "data_env \<Rightarrow> u16 \<Rightarrow> (data_error + unit) \<times> data_action list" where
  "dial_local env port =
     (case da_ipv4 env of
        ConnectOk \<Rightarrow> (Inr (), [DialLocal4 port])
      | ConnectTimeout \<Rightarrow> (Inl (LocalConnect port TimedOut), [DialLocal4 port])
      | ConnectErr ipv4_err \<Rightarrow>
          ((case da_ipv6 env of
              ConnectOk \<Rightarrow> Inr ()
            | ConnectTimeout \<Rightarrow> Inl (LocalConnect port TimedOut)
            | ConnectErr _ \<Rightarrow> Inl (LocalConnect port ipv4_err)), [DialLocal4 port, DialLocal6 port]))"

definition handle_connect_request :: "data_env \<Rightarrow> u16 \<Rightarrow> string \<Rightarrow> socket_addr \<Rightarrow> (data_error + unit) \<times> data_action list" where
  "handle_connect_request env port conn_id host_data_addr =
     (case dial_local env port of
        (Inl e, acts) \<Rightarrow> (Inl e, acts)
      | (Inr _, acts) \<Rightarrow>
          (case da_host env of
             ConnectTimeout \<Rightarrow> (Inl (HostConnect host_data_addr TimedOut), acts @ [DialData host_data_addr])
           | ConnectErr e \<Rightarrow> (Inl (HostConnect host_data_addr e), acts @ [DialData host_data_addr])
           | ConnectOk \<Rightarrow>
               (case da_to_string env (ConnectReady conn_id) of
                  None \<Rightarrow> (Inl (Handshake InvalidData), acts @ [DialData host_data_addr])
                | Some json \<Rightarrow>
                    let wrote = acts @ [DialData host_data_addr, WriteLine (json @ [newline])] in
                    (case da_write env of
                       Some e \<Rightarrow> (Inl (Handshake e), wrote)
                     | None \<Rightarrow>
                         (case da_flush env of
                            Some e \<Rightarrow> (Inl (Handshake e), wrote @ [FlushLine])
                          | None \<Rightarrow>
                              (case da_copy env of
                                 Some e \<Rightarrow> (Inl (BridgeFailed e), wrote @ [FlushLine, CopyBoth])
                               | None \<Rightarrow> (Inr (), wrote @ [FlushLine, CopyBoth])))))))"

text \<open>A message for the session to relay, and the channel on which its sending is confirmed.\<close>

record relay_message =
  rm_msg :: message
  rm_ack_tx :: "nat option"

definition spawn_connect_handler ::
  "data_env \<Rightarrow> u16 \<Rightarrow> string \<Rightarrow> socket_addr \<Rightarrow> (data_error + unit) \<times> data_action list \<times> relay_message list" where
  "spawn_connect_handler env port conn_id host_data_addr =
     (case handle_connect_request env port conn_id host_data_addr of
        (Inl e, acts) \<Rightarrow> (Inl e, acts, [\<lparr>rm_msg = ConnectFailed conn_id (da_show env e), rm_ack_tx = None\<rparr>])
      | (Inr _, acts) \<Rightarrow> (Inr (), acts, []))"

text \<open>
  A request for a connection is answered exactly once: the data connection announces its own
  identifier in the first line it carries, only after the local service was reached, and a failure
  at any stage is reported with the same identifier.
\<close>

theorem connect_request_answered:
  "case spawn_connect_handler env port conn_id host_data_addr of (result, acts, relayed) \<Rightarrow>
     (result = Inr () \<longrightarrow> relayed = [] \<and> (\<exists>json. da_to_string env (ConnectReady conn_id) = Some json
        \<and> acts = snd (dial_local env port) @ [DialData host_data_addr, WriteLine (json @ [newline]), FlushLine, CopyBoth]))
     \<and> (\<forall>e. result = Inl e \<longrightarrow> relayed = [\<lparr>rm_msg = ConnectFailed conn_id (da_show env e), rm_ack_tx = None\<rparr>])
     \<and> (\<forall>line. WriteLine line \<in> set acts \<longrightarrow> (\<exists>json. da_to_string env (ConnectReady conn_id) = Some json \<and> line = json @ [newline])
          \<and> (da_ipv4 env = ConnectOk \<or> da_ipv6 env = ConnectOk) \<and> da_host env = ConnectOk)"
  by (simp add: spawn_connect_handler_def handle_connect_request_def dial_local_def Let_def
      split: connect_answer.split option.split)

end
