(* ===== verification/Session.thy ===== *)
theory Session
  imports ContainerData
begin

section \<open>The session of the container daemon (src/container/mod.rs)\<close>

text \<open>
  One connected session: the scans, the messages of the host, the relayed messages and the
  shutdown, in whatever order \<open>select!\<close> takes them, and the reconnection loop around the
  sessions. What the world answers in one turn is the record \<open>session_env\<close>; the order in which a
  hash map or a hash set is iterated is \<open>sv_iter\<close>. \<open>sn_traffic\<close> is a record of the messages
  sent and received, which no operation reads.
\<close>

subsection \<open>Backoff\<close>

text \<open>Durations are milliseconds.\<close>

record backoff =
  bo_current :: nat
  bo_initial :: nat
  bo_max :: nat

definition backoff_new :: "nat \<Rightarrow> nat \<Rightarrow> backoff" where
  "backoff_new initial maximum = \<lparr>bo_current = initial, bo_initial = initial, bo_max = maximum\<rparr>"

definition escalate :: "backoff \<Rightarrow> backoff" where
  "escalate b = b\<lparr>bo_current := min (bo_current b * 2) (bo_max b)\<rparr>"

definition backoff_reset :: "backoff \<Rightarrow> backoff" where
  "backoff_reset b = b\<lparr>bo_current := bo_initial b\<rparr>"

text \<open>\<open>stopped\<close> says that the shutdown signal came before the delay was over.\<close>

definition wait_or_shutdown :: "bool \<Rightarrow> backoff \<Rightarrow> bool \<times> backoff" where
  "wait_or_shutdown stopped b = (if stopped then (True, b) else (False, escalate b))"

subsection \<open>State of a session\<close>

datatype traffic = Sent message | Got message

record session_params =
  sp_data_addr :: socket_addr
  sp_exclude_ports :: "u16 list"
  sp_port_filter :: port_filter

record session_env =
  sv_to_string :: json_printer
  sv_from_str :: json_parser
  sv_proc :: proc_env
  sv_iter :: "u16 list \<Rightarrow> u16 list"
  sv_mirror :: mirror_env
  sv_listener :: nat
  sv_finished :: "u16 \<times> string \<times> socket_addr \<Rightarrow> bool"

record session =
  sn_conn :: control_connection
  sn_forwarded :: "(u16, listening_port) hashmap"
  sn_handles :: "(u16 \<times> string \<times> socket_addr) list"
  sn_mirrors :: "(string, mirror_socket) hashmap"
  sn_loops :: "(string \<times> nat \<times> socket_addr) list"
  sn_fs :: file_system
  sn_acked :: "nat list"
  sn_traffic :: "traffic list"

datatype session_outcome = SessionShutdown | Disconnected | SessionError container_error

text \<open>A message sent on the control connection.\<close>

definition say :: "session_env \<Rightarrow> message \<Rightarrow> session \<Rightarrow> (control_error + unit) \<times> session" where
  "say env m s =
     (case conn_send (sv_to_string env) m (sn_conn s) of
        (Inl e, c) \<Rightarrow> (Inl e, s\<lparr>sn_conn := c\<rparr>)
      | (Inr _, c) \<Rightarrow> (Inr (), s\<lparr>sn_conn := c, sn_traffic := sn_traffic s @ [Sent m]\<rparr>))"

definition forward_message :: "u16 \<Rightarrow> listening_port \<Rightarrow> message" where
  "forward_message port lp = Forward port Tcp (lp_process_name lp) (lp_pid lp)"

definition entries :: "(u16 list \<Rightarrow> u16 list) \<Rightarrow> (u16, listening_port) hashmap \<Rightarrow> (u16 \<times> listening_port) list" where
  "entries iter m = List.map_filter (\<lambda>p. map_option (Pair p) (hm_get m p)) (iter (hm_keys m))"

subsection \<open>One scan\<close>

fun send_new :: "session_env \<Rightarrow> (u16 \<times> listening_port) list \<Rightarrow> session \<Rightarrow> control_error option \<times> session" where
  "send_new env [] s = (None, s)"
| "send_new env ((port, lp) # rest) s =
     (if hm_contains (sn_forwarded s) port then send_new env rest s
      else (case say env (forward_message port lp) s of
              (Inl e, s1) \<Rightarrow> (Some e, s1)
            | (Inr _, s1) \<Rightarrow> send_new env rest (s1\<lparr>sn_forwarded := hm_insert port lp (sn_forwarded s1)\<rparr>)))"

fun send_removed :: "session_env \<Rightarrow> u16 list \<Rightarrow> session \<Rightarrow> control_error option \<times> session" where
  "send_removed env [] s = (None, s)"
| "send_removed env (port # rest) s =
     (case say env (Unforward port) s of
        (Inl e, s1) \<Rightarrow> (Some e, s1)
      | (Inr _, s1) \<Rightarrow> send_removed env rest (s1\<lparr>sn_forwarded := hm_remove port (sn_forwarded s1)\<rparr>))"

definition current_map :: "listening_port list \<Rightarrow> (u16, listening_port) hashmap" where
  "current_map filtered = fold (\<lambda>lp. hm_insert (lp_port lp) lp) filtered []"

definition announce :: "session_env \<Rightarrow> listening_port list \<Rightarrow> session \<Rightarrow> control_error option \<times> session" where
  "announce env filtered s =
     (let current = current_map filtered in
      case send_new env (entries (sv_iter env) current) s of
        (Some e, s1) \<Rightarrow> (Some e, s1)
      | (None, s1) \<Rightarrow>
          send_removed env (filter (\<lambda>p. \<not> hm_contains current p) (sv_iter env (hm_keys (sn_forwarded s1)))) s1)"

definition scan_tick :: "session_params \<Rightarrow> session_env \<Rightarrow> session \<Rightarrow> session_outcome option \<times> session" where
  "scan_tick params env s =
     (case scan_listening_ports (sv_proc env) (sp_exclude_ports params) (hm_keys (sn_forwarded s)) of
        Inl _ \<Rightarrow> (None, s)
      | Inr current \<Rightarrow>
          (case announce env (filter_ports (sp_port_filter params) current) s of
             (Some e, s1) \<Rightarrow> (Some (SessionError (ControlFailed e)), s1)
           | (None, s1) \<Rightarrow> (None, s1)))"

subsection \<open>Messages of the host\<close>

definition socket_forwarded :: "session_params \<Rightarrow> session_env \<Rightarrow> string \<Rightarrow> string \<Rightarrow> session \<Rightarrow> session" where
  "socket_forwarded params env socket_id container_path s =
     (case create_mirror_socket (sv_mirror env) (sv_listener env) socket_id container_path (sn_fs s) of
        (Inl _, fs) \<Rightarrow> s\<lparr>sn_fs := fs\<rparr>
      | (Inr mirror, fs) \<Rightarrow>
          s\<lparr>sn_fs := fs,
            sn_loops := (case ms_listener mirror of Some l \<Rightarrow> sn_loops s @ [(socket_id, l, sp_data_addr params)] | None \<Rightarrow> sn_loops s),
            sn_mirrors := hm_insert socket_id (mirror\<lparr>ms_listener := None\<rparr>) (sn_mirrors s)\<rparr>)"

definition socket_unforwarded :: "session_env \<Rightarrow> string \<Rightarrow> session \<Rightarrow> session" where
  "socket_unforwarded env socket_id s =
     (case hm_get (sn_mirrors s) socket_id of
        None \<Rightarrow> s
      | Some mirror \<Rightarrow>
          s\<lparr>sn_mirrors := hm_remove socket_id (sn_mirrors s),
            sn_fs := remove_mirror_socket (sv_mirror env) (mirror\<lparr>ms_shutdown := True\<rparr>) (sn_fs s)\<rparr>)"

definition handle_host_message :: "session_params \<Rightarrow> session_env \<Rightarrow> message \<Rightarrow> session \<Rightarrow> session_outcome option \<times> session" where
  "handle_host_message params env msg s =
     (case msg of
        ConnectRequest port conn_id \<Rightarrow>
          (None, s\<lparr>sn_handles := filter (\<lambda>h. \<not> sv_finished env h) (sn_handles s @ [(port, conn_id, sp_data_addr params)])\<rparr>)
      | Ping \<Rightarrow>
          (case say env Pong s of
             (Inl e, s1) \<Rightarrow> (Some (SessionError (ControlFailed e)), s1)
           | (Inr _, s1) \<Rightarrow> (None, s1))
      | ForwardAck port success host_port \<Rightarrow>
          (None, if success then s else s\<lparr>sn_forwarded := hm_remove port (sn_forwarded s)\<rparr>)
      | SocketForward socket_id host_path container_path \<Rightarrow> (None, socket_forwarded params env socket_id container_path s)
      | SocketUnforward socket_id \<Rightarrow> (None, socket_unforwarded env socket_id s)
      | _ \<Rightarrow> (None, s))"

definition receive_turn :: "session_params \<Rightarrow> session_env \<Rightarrow> session \<Rightarrow> session_outcome option \<times> session" where
  "receive_turn params env s =
     (case conn_recv (sv_from_str env) (sn_conn s) of
        (Inl e, c) \<Rightarrow>
          (Some (if e = ConnectionClosed then Disconnected else SessionError (ControlFailed e)), s\<lparr>sn_conn := c\<rparr>)
      | (Inr msg, c) \<Rightarrow> handle_host_message params env msg (s\<lparr>sn_conn := c, sn_traffic := sn_traffic s @ [Got msg]\<rparr>))"

subsection \<open>Relayed messages and shutdown\<close>

definition relay_turn :: "session_env \<Rightarrow> relay_message \<Rightarrow> session \<Rightarrow> session_outcome option \<times> session" where
  "relay_turn env relay s =
     (case say env (rm_msg relay) s of
        (Inl e, s1) \<Rightarrow> (Some (SessionError (ControlFailed e)), s1)
      | (Inr _, s1) \<Rightarrow>
          (None, case rm_ack_tx relay of Some ack \<Rightarrow> s1\<lparr>sn_acked := sn_acked s1 @ [ack]\<rparr> | None \<Rightarrow> s1))"

definition shutdown_turn :: "session_env \<Rightarrow> session \<Rightarrow> session_outcome option \<times> session" where
  "shutdown_turn env s =
     (Some SessionShutdown, fold (\<lambda>port s. snd (say env (Unforward port) s)) (sv_iter env (hm_keys (sn_forwarded s))) s)"

text \<open>
  The branch of \<open>select!\<close> that wins a turn. The other branches drop the pending read, which may
  have made some turns of its own.
\<close>

datatype session_event =
    ScanTick nat session_env
  | Receive session_env
  | Relay nat session_env relay_message
  | StopSession nat session_env

definition dropped :: "nat \<Rightarrow> session \<Rightarrow> session" where
  "dropped turns s = s\<lparr>sn_conn := conn_recv_dropped turns (sn_conn s)\<rparr>"

fun session_turn :: "session_params \<Rightarrow> session_event \<Rightarrow> session \<Rightarrow> session_outcome option \<times> session" where
  "session_turn params (ScanTick turns env) s = scan_tick params env (dropped turns s)"
| "session_turn params (Receive env) s = receive_turn params env s"
| "session_turn params (Relay turns env relay) s = relay_turn env relay (dropped turns s)"
| "session_turn params (StopSession turns env) s = shutdown_turn env (dropped turns s)"

fun session_loop :: "session_params \<Rightarrow> session_event list \<Rightarrow> session \<Rightarrow> session_outcome option \<times> session" where
  "session_loop params [] s = (None, s)"
| "session_loop params (ev # evs) s =
     (case session_turn params ev s of
        (Some out, s1) \<Rightarrow> (Some out, s1)
      | (None, s1) \<Rightarrow> session_loop params evs s1)"

text \<open>The end: mirrors are removed, and the handlers that have not finished are waited for.\<close>

definition session_end :: "session_env \<Rightarrow> session \<Rightarrow> session" where
  "session_end env s =
     (let s1 = (if sn_mirrors s = [] then s
                else (case cleanup_all_mirrors (sv_mirror env) (sn_mirrors s) (sn_fs s) of
                        (mirrors, fs) \<Rightarrow> s\<lparr>sn_mirrors := mirrors, sn_fs := fs\<rparr>))
      in s1\<lparr>sn_handles := filter (\<lambda>h. \<not> sv_finished env h) (sn_handles s1)\<rparr>)"

definition session_start :: "(u16, listening_port) hashmap \<Rightarrow> file_system \<Rightarrow> control_connection \<Rightarrow> session" where
  "session_start initial_forwarded fs conn =
     \<lparr>sn_conn = conn, sn_forwarded = initial_forwarded, sn_handles = [], sn_mirrors = [], sn_loops = [], sn_fs = fs,
      sn_acked = [], sn_traffic = []\<rparr>"

text \<open>\<open>None\<close> is a session that is still running when the events are used up.\<close>

definition run_session ::
  "session_params \<Rightarrow> session_event list \<Rightarrow> session_env \<Rightarrow> (u16, listening_port) hashmap \<Rightarrow> file_system \<Rightarrow> control_connection
   \<Rightarrow> session_outcome option \<times> session" where
  "run_session params events final initial_forwarded fs conn =
     (case session_loop params events (session_start initial_forwarded fs conn) of
        (None, s) \<Rightarrow> (None, s)
      | (Some out, s) \<Rightarrow> (Some out, session_end final s))"

subsection \<open>What the host has been told\<close>

text \<open>The ports that the messages of a session leave forwarded, starting from those of the session before.\<close>

fun told_one :: "traffic \<Rightarrow> u16 set \<Rightarrow> u16 set" where
  "told_one (Sent (Forward port protocol name pid)) P = insert port P"
| "told_one (Sent (Unforward port)) P = P - {port}"
| "told_one (Got (ForwardAck port success host_port)) P = (if success then P else P - {port})"
| "told_one t P = P"

definition told :: "u16 set \<Rightarrow> traffic list \<Rightarrow> u16 set" where
  "told P ts = fold told_one ts P"

definition in_step :: "u16 set \<Rightarrow> session \<Rightarrow> bool" where
  "in_step P s \<longleftrightarrow> set (hm_keys (sn_forwarded s)) = told P (sn_traffic s)"

text \<open>The relayed messages come from the handlers of connections.\<close>

fun relays_ok :: "session_event \<Rightarrow> bool" where
  "relays_ok (Relay turns env relay) = (case rm_msg relay of ConnectFailed _ _ \<Rightarrow> True | SocketConnectRequest _ _ \<Rightarrow> True | _ \<Rightarrow> False)"
| "relays_ok _ = True"

lemma told_simps [simp]: "told P [] = P" "told P (t # ts) = told (told_one t P) ts" "told P (ts @ us) = told (told P ts) us"
  by (simp_all add: told_def)

lemma in_step_keep:
  "in_step P s \<Longrightarrow> sn_forwarded s1 = sn_forwarded s \<Longrightarrow> told P (sn_traffic s1) = told P (sn_traffic s) \<Longrightarrow> in_step P s1"
  by (simp add: in_step_def)

lemma say_Inr: "say env m s = (Inr u, s1) \<Longrightarrow>
    sn_traffic s1 = sn_traffic s @ [Sent m] \<and> sn_forwarded s1 = sn_forwarded s \<and> sn_mirrors s1 = sn_mirrors s \<and> sn_fs s1 = sn_fs s"
  by (auto simp: say_def split: prod.splits sum.splits)

lemma say_Inl: "say env m s = (Inl e, s1) \<Longrightarrow>
    sn_traffic s1 = sn_traffic s \<and> sn_forwarded s1 = sn_forwarded s \<and> sn_mirrors s1 = sn_mirrors s \<and> sn_fs s1 = sn_fs s"
  by (auto simp: say_def split: prod.splits sum.splits)

lemma keys_insert: "set (hm_keys (hm_insert k v m)) = insert k (set (hm_keys m))"
  by (rule hm_keys_insert)

lemma send_new_in_step: "send_new env xs s = (e, s1) \<Longrightarrow> in_step P s \<Longrightarrow> in_step P s1"
proof (induction env xs s rule: send_new.induct)
  case (2 env port lp rest s)
  show ?case
  proof (cases "hm_contains (sn_forwarded s) port")
    case True
    with 2 show ?thesis
      by simp
  next
    case False
    show ?thesis
    proof (cases "say env (forward_message port lp) s")
      case (Pair r s2)
      show ?thesis
      proof (cases r)
        case (Inl e2)
        with 2 False Pair say_Inl [of env _ s e2 s2] show ?thesis
          by (auto simp: in_step_def)
      next
        case (Inr u)
        have "in_step P (s2\<lparr>sn_forwarded := hm_insert port lp (sn_forwarded s2)\<rparr>)"
          using say_Inr [OF Pair [unfolded Inr]] "2.prems"(2) hm_keys_insert [of port lp "sn_forwarded s"]
          by (simp add: in_step_def forward_message_def)
        with 2 False Pair Inr show ?thesis
          by simp
      qed
    qed
  qed
qed simp

lemma send_removed_in_step: "send_removed env ports s = (e, s1) \<Longrightarrow> in_step P s \<Longrightarrow> in_step P s1"
proof (induction env ports s rule: send_removed.induct)
  case (2 env port rest s)
  show ?case
  proof (cases "say env (Unforward port) s")
    case (Pair r s2)
    show ?thesis
    proof (cases r)
      case (Inl e2)
      with 2 Pair say_Inl [of env _ s e2 s2] show ?thesis
        by (auto simp: in_step_def)
    next
      case (Inr u)
      have "in_step P (s2\<lparr>sn_forwarded := hm_remove port (sn_forwarded s2)\<rparr>)"
        using say_Inr [OF Pair [unfolded Inr]] "2.prems"(2) hm_keys_remove [of port "sn_forwarded s"]
        by (simp add: in_step_def)
      with 2 Pair Inr show ?thesis
        by simp
    qed
  qed
qed simp

lemma announce_in_step: "announce env filtered s = (e, s1) \<Longrightarrow> in_step P s \<Longrightarrow> in_step P s1"
  by (auto simp: announce_def Let_def split: prod.splits option.splits dest: send_new_in_step send_removed_in_step)

lemma scan_tick_in_step: "scan_tick params env s = (out, s1) \<Longrightarrow> in_step P s \<Longrightarrow> in_step P s1"
  by (auto simp: scan_tick_def split: sum.splits prod.splits option.splits dest: announce_in_step)

lemma in_step_cong: "sn_forwarded s1 = sn_forwarded s \<Longrightarrow> sn_traffic s1 = sn_traffic s \<Longrightarrow> in_step P s1 = in_step P s"
  by (simp add: in_step_def)

lemma socket_forwarded_frame [simp]:
  "sn_forwarded (socket_forwarded params env socket_id path s) = sn_forwarded s"
  "sn_traffic (socket_forwarded params env socket_id path s) = sn_traffic s"
  by (simp_all add: socket_forwarded_def split: prod.split sum.split)

lemma socket_unforwarded_frame [simp]:
  "sn_forwarded (socket_unforwarded env socket_id s) = sn_forwarded s"
  "sn_traffic (socket_unforwarded env socket_id s) = sn_traffic s"
  by (simp_all add: socket_unforwarded_def split: option.split)

lemma host_message_frame:
  assumes "handle_host_message params env msg s = (out, s1)" and "\<forall>port ok hp. msg \<noteq> ForwardAck port ok hp"
  shows "sn_forwarded s1 = sn_forwarded s \<and> (sn_traffic s1 = sn_traffic s \<or> sn_traffic s1 = sn_traffic s @ [Sent Pong])"
proof (cases msg)
  case Ping
  obtain r s2 where r: "say env Pong s = (r, s2)"
    by (cases "say env Pong s")
  with assms Ping have "s1 = s2"
    by (auto simp: handle_host_message_def split: sum.splits)
  then show ?thesis
    using r say_Inr [of env Pong s _ s2] say_Inl [of env Pong s _ s2] by (cases r) auto
qed (use assms in \<open>auto simp: handle_host_message_def\<close>)

lemma host_message_in_step:
  assumes "handle_host_message params env msg (s\<lparr>sn_conn := c, sn_traffic := sn_traffic s @ [Got msg]\<rparr>) = (out, s1)" and "in_step P s"
  shows "in_step P s1"
proof (cases "\<exists>port ok hp. msg = ForwardAck port ok hp")
  case True
  then obtain port ok hp where m: "msg = ForwardAck port ok hp"
    by blast
  show ?thesis
    using assms hm_keys_remove [of port "sn_forwarded s"] unfolding m
    by (cases ok) (fastforce simp add: handle_host_message_def in_step_def simp del: set_map)+
next
  case False
  have "told_one (Got msg) P' = P'" for P'
    using False by (cases msg) auto
  then show ?thesis
    using host_message_frame [OF assms(1)] False by (intro in_step_keep [OF assms(2)]) auto
qed

lemma turn_in_step:
  assumes "session_turn params ev s = (out, s1)" and "relays_ok ev" and "in_step P s" and "out \<noteq> Some SessionShutdown"
  shows "in_step P s1"
proof (cases ev)
  case (ScanTick turns env)
  then show ?thesis
    using assms scan_tick_in_step [of params env "dropped turns s" out s1 P] by (simp add: in_step_def dropped_def)
next
  case (Receive env)
  show ?thesis
  proof (cases "conn_recv (sv_from_str env) (sn_conn s)")
    case (Pair r c)
    show ?thesis
    proof (cases r)
      case (Inl e)
      then have "s1 = s\<lparr>sn_conn := c\<rparr>"
        using assms(1) Receive Pair by (simp add: receive_turn_def)
      then show ?thesis
        using assms(3) by (simp add: in_step_def)
    next
      case (Inr msg)
      then show ?thesis
        using assms(1,3) Receive Pair host_message_in_step [of params env msg s c out s1 P] by (simp add: receive_turn_def)
    qed
  qed
next
  case (Relay turns env relay)
  obtain r s2 where r: "say env (rm_msg relay) (dropped turns s) = (r, s2)"
    by (cases "say env (rm_msg relay) (dropped turns s)")
  have "told_one (Sent (rm_msg relay)) P' = P'" for P'
    using assms(2) Relay by (cases "rm_msg relay") simp_all
  then have s2: "sn_forwarded s2 = sn_forwarded s \<and> told P (sn_traffic s2) = told P (sn_traffic s)"
    using r say_Inr [of env _ _ _ s2] say_Inl [of env _ _ _ s2] by (cases r) (fastforce simp: dropped_def)+
  have "sn_forwarded s1 = sn_forwarded s2 \<and> sn_traffic s1 = sn_traffic s2"
    using assms(1) Relay r by (auto simp: relay_turn_def split: sum.splits option.splits)
  with s2 show ?thesis
    by (intro in_step_keep [OF assms(3)]) simp_all
next
  case (StopSession turns env)
  with assms show ?thesis
    by (simp add: shutdown_turn_def)
qed

text \<open>
  What the events of a session rely on, as a locale: a fact about the session that each turn keeps, on events
  of some kind and short of a shutdown, holds after any number of turns.
\<close>

locale session_fact =
  fixes ok :: "session_event \<Rightarrow> bool" and holds :: "session \<Rightarrow> bool"
  assumes turn_keeps: "session_turn params ev s = (out, s1) \<Longrightarrow> ok ev \<Longrightarrow> holds s \<Longrightarrow> out \<noteq> Some SessionShutdown \<Longrightarrow> holds s1"
begin

lemma loop_keeps:
  "session_loop params evs s = (out, s1) \<Longrightarrow> \<forall>ev \<in> set evs. ok ev \<Longrightarrow> holds s \<Longrightarrow> out \<noteq> Some SessionShutdown \<Longrightarrow> holds s1"
proof (induction evs arbitrary: s)
  case (Cons ev evs)
  obtain o1 s2 where t: "session_turn params ev s = (o1, s2)"
    by (cases "session_turn params ev s")
  have "o1 \<noteq> Some SessionShutdown"
    using Cons.prems(1,4) t by auto
  then have "holds s2"
    using turn_keeps [OF t _ Cons.prems(3)] Cons.prems(2) by simp
  then show ?case
    using Cons t by (cases o1) auto
qed simp

end

interpretation table: session_fact relays_ok "in_step P" for P
  by unfold_locales (rule turn_in_step)

subsection \<open>A scan turn\<close>

definition iterates_keys :: "session_env \<Rightarrow> bool" where
  "iterates_keys env \<longleftrightarrow> (\<forall>xs. set (sv_iter env xs) = set xs \<and> (distinct xs \<longrightarrow> distinct (sv_iter env xs)))"

lemma send_new_ok:
  "send_new env xs s = (None, s1) \<Longrightarrow> distinct (map fst xs) \<Longrightarrow>
   hm_get (sn_forwarded s1) p = (case hm_get (sn_forwarded s) p of Some lp \<Rightarrow> Some lp | None \<Rightarrow> map_of xs p)
   \<and> sn_traffic s1 = sn_traffic s @ map (\<lambda>(p, lp). Sent (forward_message p lp)) (filter (\<lambda>(p, lp). \<not> hm_contains (sn_forwarded s) p) xs)
   \<and> (hm_wf (sn_forwarded s) \<longrightarrow> hm_wf (sn_forwarded s1))"
proof (induction env xs s rule: send_new.induct)
  case (1 env s)
  then show ?case
    by (simp split: option.split)
next
  case (2 env port lp rest s)
  show ?case
  proof (cases "hm_contains (sn_forwarded s) port")
    case True
    with 2 show ?thesis
      by (auto simp: hm_contains_def split: option.splits)
  next
    case False
    obtain s2 where r: "say env (forward_message port lp) s = (Inr (), s2)"
      using "2.prems"(1) False by (cases "say env (forward_message port lp) s") (auto split: sum.splits)
    let ?s3 = "s2\<lparr>sn_forwarded := hm_insert port lp (sn_forwarded s2)\<rparr>"
    have f: "sn_forwarded ?s3 = hm_insert port lp (sn_forwarded s)" "sn_traffic ?s3 = sn_traffic s @ [Sent (forward_message port lp)]"
      using say_Inr [OF r] by simp_all
    have "port \<notin> fst ` set rest"
      using "2.prems"(2) by simp
    then have filt: "filter (\<lambda>(p, lp). \<not> hm_contains (hm_insert port lp' (sn_forwarded s)) p) rest
        = filter (\<lambda>(p, lp). \<not> hm_contains (sn_forwarded s) p) rest" for lp'
      by (intro filter_cong) (force simp: hm_contains_def)+
    have "send_new env rest ?s3 = (None, s1)"
      using "2.prems"(1) False r by simp
    with "2.IH"(2) [OF False r [symmetric] refl] "2.prems"(2)
    have "hm_get (sn_forwarded s1) p = (case hm_get (hm_insert port lp (sn_forwarded s)) p of Some lp \<Rightarrow> Some lp | None \<Rightarrow> map_of rest p)
       \<and> sn_traffic s1 = sn_traffic s @ [Sent (forward_message port lp)]
           @ map (\<lambda>(p, lp). Sent (forward_message p lp)) (filter (\<lambda>(p, lp). \<not> hm_contains (sn_forwarded s) p) rest)
       \<and> (hm_wf (sn_forwarded s) \<longrightarrow> hm_wf (sn_forwarded s1))"
      by (simp add: f filt)
    then show ?thesis
      using False by (auto simp: hm_contains_def split: option.splits)
  qed
qed

lemma send_removed_ok:
  "send_removed env ports s = (None, s1) \<Longrightarrow>
   hm_get (sn_forwarded s1) p = (if p \<in> set ports then None else hm_get (sn_forwarded s) p)
   \<and> sn_traffic s1 = sn_traffic s @ map (\<lambda>p. Sent (Unforward p)) ports
   \<and> (hm_wf (sn_forwarded s) \<longrightarrow> hm_wf (sn_forwarded s1))"
proof (induction env ports s rule: send_removed.induct)
  case (2 env port rest s)
  obtain s2 where r: "say env (Unforward port) s = (Inr (), s2)"
    using "2.prems" by (cases "say env (Unforward port) s") (auto split: sum.splits)
  let ?s3 = "s2\<lparr>sn_forwarded := hm_remove port (sn_forwarded s2)\<rparr>"
  have f: "sn_forwarded ?s3 = hm_remove port (sn_forwarded s)" "sn_traffic ?s3 = sn_traffic s @ [Sent (Unforward port)]"
    using say_Inr [OF r] by simp_all
  have "send_removed env rest ?s3 = (None, s1)"
    using "2.prems" r by simp
  with "2.IH" [OF r [symmetric] refl] show ?case
    by (simp add: f)
qed simp

lemma current_map_get: "hm_get (current_map ports) p \<noteq> None \<longleftrightarrow> p \<in> lp_port ` set ports"
proof -
  have "hm_get (fold (\<lambda>lp. hm_insert (lp_port lp) lp) ports m) p \<noteq> None \<longleftrightarrow> hm_get m p \<noteq> None \<or> p \<in> lp_port ` set ports" for m
    by (induction ports arbitrary: m) auto
  then show ?thesis
    by (simp add: current_map_def)
qed

lemma current_map_wf: "hm_wf (current_map ports)"
proof -
  have "hm_wf m \<Longrightarrow> hm_wf (fold (\<lambda>lp. hm_insert (lp_port lp) lp) ports m)" for m
    by (induction ports arbitrary: m) auto
  then show ?thesis
    by (simp add: current_map_def)
qed

lemma entries_ok:
  assumes "iterates_keys env" and "hm_wf m"
  shows "distinct (map fst (entries (sv_iter env) m))" and "map_of (entries (sv_iter env) m) = hm_get m"
proof -
  have d: "distinct (sv_iter env (hm_keys m))" and k: "set (sv_iter env (hm_keys m)) = set (hm_keys m)"
    using assms by (auto simp: iterates_keys_def hm_wf_def)
  have keys: "map fst (List.map_filter (\<lambda>p. map_option (Pair p) (hm_get m p)) ps) = filter (\<lambda>p. hm_get m p \<noteq> None) ps" for ps
    by (induction ps) (auto simp: List.map_filter_simps split: option.split)
  have get: "map_of (List.map_filter (\<lambda>p. map_option (Pair p) (hm_get m p)) ps) p = (if p \<in> set ps then hm_get m p else None)" for ps p
    by (induction ps) (auto simp: List.map_filter_simps split: option.split)
  show "distinct (map fst (entries (sv_iter env) m))"
    using d by (simp add: entries_def keys)
  show "map_of (entries (sv_iter env) m) = hm_get m"
    using hm_get_keys [of m] by (intro ext) (simp add: entries_def get k del: set_map, metis)
qed

lemma keys_get: "p \<in> set (hm_keys m) \<longleftrightarrow> hm_get m p \<noteq> None"
  by (simp add: hm_get_keys)

lemma announce_ok:
  assumes "announce env filtered s = (None, s1)" and "iterates_keys env" and "hm_wf (sn_forwarded s)"
  obtains new gone where "set (hm_keys (sn_forwarded s1)) = lp_port ` set filtered" and "hm_wf (sn_forwarded s1)"
    and "sn_traffic s1 = sn_traffic s @ map (\<lambda>(p, lp). Sent (forward_message p lp)) new @ map (\<lambda>p. Sent (Unforward p)) gone"
    and "distinct (map fst new)" and "fst ` set new = lp_port ` set filtered - set (hm_keys (sn_forwarded s))"
    and "distinct gone" and "set gone = set (hm_keys (sn_forwarded s)) - lp_port ` set filtered"
proof -
  let ?cur = "current_map filtered" and ?es = "entries (sv_iter env) (current_map filtered)"
  obtain s2 where n: "send_new env ?es s = (None, s2)"
    and r: "send_removed env (filter (\<lambda>p. \<not> hm_contains ?cur p) (sv_iter env (hm_keys (sn_forwarded s2)))) s2 = (None, s1)"
    using assms(1) by (auto simp: announce_def Let_def split: prod.splits option.splits)
  note es = entries_ok [OF assms(2) current_map_wf [of filtered]]
  note n = send_new_ok [OF n es(1), unfolded es(2)]
  note r = send_removed_ok [OF r]
  let ?new = "filter (\<lambda>(p, lp). \<not> hm_contains (sn_forwarded s) p) ?es"
  let ?gone = "filter (\<lambda>p. \<not> hm_contains ?cur p) (sv_iter env (hm_keys (sn_forwarded s2)))"
  have k2: "p \<in> set (hm_keys (sn_forwarded s2)) \<longleftrightarrow> p \<in> set (hm_keys (sn_forwarded s)) \<or> p \<in> lp_port ` set filtered" for p
    using n [of p] current_map_get [of filtered p] unfolding keys_get by (cases "hm_get (sn_forwarded s) p") simp_all
  have wf2: "hm_wf (sn_forwarded s2)"
    using n assms(3) by simp
  have gone: "set ?gone = set (hm_keys (sn_forwarded s)) - lp_port ` set filtered" and dg: "distinct ?gone"
    using assms(2) wf2 k2 current_map_get [of filtered] by (auto simp: iterates_keys_def hm_contains_def hm_wf_def)
  have "p \<in> set (hm_keys (sn_forwarded s1)) \<longleftrightarrow> p \<in> lp_port ` set filtered" for p
    using r [of p] k2 [of p] gone keys_get [of p "sn_forwarded s1"] keys_get [of p "sn_forwarded s2"] by (metis DiffD1 DiffD2 DiffI)
  then have k1: "set (hm_keys (sn_forwarded s1)) = lp_port ` set filtered"
    by blast
  have fst_es: "fst ` set ?es = lp_port ` set filtered"
    using current_map_get [of filtered] map_of_eq_None_iff [of ?es] es(2) by (metis subsetI subset_antisym)
  have "fst ` set ?new = fst ` set ?es - set (hm_keys (sn_forwarded s))"
    by (force simp: hm_contains_keys)
  moreover have "distinct (map fst ?new)"
    using es(1) by (rule distinct_map_filter)
  ultimately show ?thesis
    using that [of ?new ?gone] k1 gone dg fst_es n r wf2 by simp
qed

lemma say_sendable:
  assumes "tw_up (cc_writer (sn_conn s))" and "sv_to_string env m = Some json" and "length json \<le> MAX_MESSAGE_SIZE"
  obtains s1 where "say env m s = (Inr (), s1)" and "tw_up (cc_writer (sn_conn s1))"
  using assms by (auto simp: say_def conn_send_def write_message_def write_all_def)

definition unforwards_fit :: "session_env \<Rightarrow> bool" where
  "unforwards_fit env \<longleftrightarrow> (\<forall>port. \<exists>json. sv_to_string env (Unforward port) = Some json \<and> length json \<le> MAX_MESSAGE_SIZE)"

lemma fold_unforward:
  "tw_up (cc_writer (sn_conn s)) \<Longrightarrow> unforwards_fit env \<Longrightarrow>
   sn_traffic (fold (\<lambda>port s. snd (say env (Unforward port) s)) ports s) = sn_traffic s @ map (\<lambda>p. Sent (Unforward p)) ports"
proof (induction ports arbitrary: s)
  case (Cons port ports)
  obtain json where "sv_to_string env (Unforward port) = Some json" "length json \<le> MAX_MESSAGE_SIZE"
    using Cons.prems(2) by (auto simp: unforwards_fit_def)
  then obtain s1 where r: "say env (Unforward port) s = (Inr (), s1)" and up: "tw_up (cc_writer (sn_conn s1))"
    by (rule say_sendable [OF Cons.prems(1)])
  show ?case
    using Cons.IH [OF up Cons.prems(2)] say_Inr [OF r] r by simp
qed simp

lemma told_unforwards: "told P (map (\<lambda>p. Sent (Unforward p)) ports) = P - set ports"
  by (induction ports arbitrary: P) auto

subsection \<open>A sample session\<close>

definition sample_session_env :: session_env where
  "sample_session_env =
     \<lparr>sv_to_string = (\<lambda>_. Some ''{}''), sv_from_str = (\<lambda>_. Some (ForwardAck 8080 False 0)), sv_proc = sample_proc, sv_iter = (\<lambda>xs. xs),
      sv_mirror = sample_mirror_env, sv_listener = 7, sv_finished = (\<lambda>_. False)\<rparr>"

definition sample_params :: session_params where
  "sample_params =
     \<lparr>sp_data_addr = V4 [127, 0, 0, 1] 19286, sp_exclude_ports = [], sp_port_filter = \<lparr>pf_exclude_ports = [19285], pf_include_ports = [], pf_exclude_process = None\<rparr>\<rparr>"

definition sample_session :: session where
  "sample_session = session_start [] sample_fs (control_connection_new [])"

definition sample_listening :: listening_port where
  "sample_listening = \<lparr>lp_port = 8080, lp_process_name = Some ''node'', lp_pid = Some 42\<rparr>"

definition sample_scanned :: session where
  "sample_scanned = sample_session\<lparr>sn_conn := \<lparr>cc_reader = \<lparr>br_buf = [], br_net = []\<rparr>, cc_writer = \<lparr>tw_out = ''{}'' @ [newline], tw_up = True\<rparr>\<rparr>,
     sn_forwarded := [(8080, sample_listening)], sn_traffic := [Sent (forward_message 8080 sample_listening)]\<rparr>"

lemma sample_tick: "scan_tick sample_params sample_session_env sample_session = (None, sample_scanned)"
  by (simp add: scan_tick_def sample_params_def sample_session_env_def sample_session_def session_start_def sample_scan
      filter_ports_def should_forward_def announce_def current_map_def entries_def List.map_filter_simps hm_contains_def
      say_def conn_send_def write_message_def write_all_def control_connection_new_def MAX_MESSAGE_SIZE_def
      sample_scanned_def sample_listening_def)

subsection \<open>Properties\<close>

text \<open>C8. However the turns of a session interleave, the table of forwarded ports is what the messages
  exchanged with the host say: the ports of the last session, plus those forwarded, less those
  unforwarded and those the host refused. A shutdown of a session that can still write
  leaves no port forwarded.\<close>

theorem session_announces:
  assumes "\<forall>ev \<in> set events. relays_ok ev"
    and "session_loop params events (session_start initial fs conn) = (out, s)"
    and "out \<noteq> Some SessionShutdown"
  shows "set (hm_keys (sn_forwarded s)) = told (set (hm_keys initial)) (sn_traffic s)
    \<and> (\<forall>turns env. iterates_keys env \<longrightarrow> unforwards_fit env \<longrightarrow> tw_up (cc_writer (sn_conn s)) \<longrightarrow>
         told (set (hm_keys initial)) (sn_traffic (snd (session_turn params (StopSession turns env) s))) = {})"
proof -
  let ?P = "set (hm_keys initial)"
  have "in_step ?P (session_start initial fs conn)"
    by (simp add: in_step_def session_start_def)
  then have keys: "set (hm_keys (sn_forwarded s)) = told ?P (sn_traffic s)"
    using table.loop_keeps [OF assms(2,1) _ assms(3)] by (simp add: in_step_def)
  have "told ?P (sn_traffic (snd (session_turn params (StopSession turns env) s))) = {}"
    if "iterates_keys env" "unforwards_fit env" "tw_up (cc_writer (sn_conn s))" for turns env
  proof -
    have up: "tw_up (cc_writer (sn_conn (dropped turns s)))"
      using that(3) by (simp add: dropped_def conn_recv_dropped_def)
    have "set (sv_iter env (hm_keys (sn_forwarded s))) = told ?P (sn_traffic s)"
      using that(1) keys by (simp add: iterates_keys_def)
    then show ?thesis
      using fold_unforward [OF up that(2)] by (simp add: shutdown_turn_def dropped_def told_unforwards)
  qed
  with keys show ?thesis
    by blast
qed

theorem session_announces_witness:
  "set (hm_keys (sn_forwarded sample_scanned)) = told {} (sn_traffic sample_scanned)
   \<and> told {} (sn_traffic (snd (session_turn sample_params (StopSession 0 sample_session_env) sample_scanned))) = {}"
proof -
  have "dropped 0 sample_session = sample_session"
    by (simp add: dropped_def conn_recv_dropped_def sample_session_def session_start_def control_connection_new_def)
  then have run: "session_loop sample_params [ScanTick 0 sample_session_env] (session_start [] sample_fs (control_connection_new []))
      = (None, sample_scanned)"
    using sample_tick by (simp add: sample_session_def)
  have "iterates_keys sample_session_env" "unforwards_fit sample_session_env" "tw_up (cc_writer (sn_conn sample_scanned))"
    by (simp_all add: iterates_keys_def unforwards_fit_def sample_session_env_def sample_scanned_def MAX_MESSAGE_SIZE_def)
  then show ?thesis
    using session_announces [OF _ run] by simp
qed

lemma scan_returns: "\<not> (isl (pe_tcp env) \<and> isl (pe_tcp6 env)) \<Longrightarrow> \<exists>ports. scan_listening_ports env exclude resolved = Inr ports"
  by (cases "pe_tcp env"; cases "pe_tcp6 env") (simp_all add: scan_listening_ports_def Let_def)

lemma scan_port_set:
  assumes "scan_listening_ports env exclude resolved = Inr ports"
  shows "lp_port ` set ports = ls_port ` set (sockets_of (pe_tcp env) @ sockets_of (pe_tcp6 env)) - set exclude"
proof (rule scan_ok [OF assms])
  fix found
  assume "ports = map (listening_of found) (first_sockets exclude [] (sockets_of (pe_tcp env) @ sockets_of (pe_tcp6 env)))"
  then show ?thesis
    using first_sockets_ports [of exclude "[]" "sockets_of (pe_tcp env) @ sockets_of (pe_tcp6 env)"]
    by (simp add: image_image listening_of_def del: set_append)
qed

text \<open>C17. A scan turn whose messages could be sent leaves exactly the allowed listening ports of the
  container forwarded, and sends one \<open>Forward\<close> for each new one and then one \<open>Unforward\<close> for each one gone,
  and nothing else.\<close>

theorem scan_tick_exact:
  assumes "scan_tick params env s = (None, s1)" and "iterates_keys env" and "hm_wf (sn_forwarded s)"
    and "\<not> (isl (pe_tcp (sv_proc env)) \<and> isl (pe_tcp6 (sv_proc env)))"
    and "pf_exclude_process (sp_port_filter params) = None"
    and "listening = {p \<in> ls_port ` set (sockets_of (pe_tcp (sv_proc env)) @ sockets_of (pe_tcp6 (sv_proc env))).
           p \<notin> set (sp_exclude_ports params) \<and> p \<notin> set (pf_exclude_ports (sp_port_filter params))
           \<and> (pf_include_ports (sp_port_filter params) = [] \<or> p \<in> set (pf_include_ports (sp_port_filter params)))}"
  shows "set (hm_keys (sn_forwarded s1)) = listening
    \<and> (\<exists>new gone. sn_traffic s1 = sn_traffic s @ map (\<lambda>(p, lp). Sent (forward_message p lp)) new @ map (\<lambda>p. Sent (Unforward p)) gone
         \<and> distinct (map fst new) \<and> fst ` set new = listening - set (hm_keys (sn_forwarded s))
         \<and> distinct gone \<and> set gone = set (hm_keys (sn_forwarded s)) - listening)"
proof -
  obtain current where c: "scan_listening_ports (sv_proc env) (sp_exclude_ports params) (hm_keys (sn_forwarded s)) = Inr current"
    using scan_returns [OF assms(4)] by blast
  let ?filtered = "filter_ports (sp_port_filter params) current"
  have "announce env ?filtered s = (None, s1)"
    using assms(1) c by (auto simp: scan_tick_def split: prod.splits option.splits)
  moreover have "lp_port ` set ?filtered = listening"
  proof -
    let ?ok = "\<lambda>p. p \<notin> set (pf_exclude_ports (sp_port_filter params))
      \<and> (pf_include_ports (sp_port_filter params) = [] \<or> p \<in> set (pf_include_ports (sp_port_filter params)))"
    have "should_forward (sp_port_filter params) lp = ?ok (lp_port lp)" for lp
      using assms(5) by (auto simp: should_forward_def)
    then have "lp_port ` set ?filtered = {p \<in> lp_port ` set current. ?ok p}"
      by (auto simp: filter_ports_def)
    then show ?thesis
      unfolding scan_port_set [OF c] assms(6) by blast
  qed
  ultimately show ?thesis
    using announce_ok [OF _ assms(2,3), of ?filtered s1] by metis
qed

theorem scan_tick_exact_witness:
  "set (hm_keys (sn_forwarded sample_scanned)) = {8080}"
proof -
  have "iterates_keys sample_session_env"
    by (simp add: iterates_keys_def sample_session_env_def)
  moreover have "sockets_of (pe_tcp (sv_proc sample_session_env)) = [\<lparr>ls_port = 8080, ls_uid = 1000, ls_inode = 12345\<rparr>]"
    "sockets_of (pe_tcp6 (sv_proc sample_session_env)) = []"
    using scan_sample_sockets by (simp_all add: sample_session_env_def sample_proc_def sockets_of_def)
  ultimately show ?thesis
    using scan_tick_exact [OF sample_tick _ _ _ _ refl]
    by (simp add: sample_session_def session_start_def sample_session_env_def sample_proc_def sample_params_def) auto
qed

text \<open>The delay between connection attempts doubles with each failure up to its maximum and starts
  again after a success: after \<open>n\<close> failures since then it is \<open>100 * 2 ^ n\<close> ms, at most 5 s.\<close>

theorem backoff_delay:
  "bo_current ((escalate ^^ n) (backoff_reset ((escalate ^^ m) (backoff_new 100 5000)))) = min (100 * 2 ^ n) 5000"
proof -
  have inv: "bo_initial ((escalate ^^ k) b) = bo_initial b \<and> bo_max ((escalate ^^ k) b) = bo_max b" for k b
    by (induction k) (simp_all add: escalate_def)
  have "bo_initial b = 100 \<Longrightarrow> bo_max b = 5000 \<Longrightarrow> bo_current b = 100 \<Longrightarrow> bo_current ((escalate ^^ n) b) = min (100 * 2 ^ n) 5000" for b
    by (induction n) (auto simp: escalate_def inv)
  then show ?thesis
    by (simp add: backoff_reset_def backoff_new_def inv [of m, unfolded backoff_new_def])
qed

end
