(* ===== verification/Config.thy ===== *)
theory Config
  imports Control RustPath
begin

section \<open>Configuration (src/config.rs)\<close>

text \<open>
  The layers of the configuration: defaults, the file, the environment. What the file gives is the
  datatype \<open>config_file\<close>: no file, an unreadable or malformed one, or the value that the TOML parser yields.
\<close>

definition DEFAULT_CONTROL_PORT :: u16 where "DEFAULT_CONTROL_PORT = 19285"
definition DEFAULT_DATA_PORT :: u16 where "DEFAULT_DATA_PORT = 19286"
definition DEFAULT_SCAN_INTERVAL_MS :: u64 where "DEFAULT_SCAN_INTERVAL_MS = 1000"
definition DEFAULT_LOG_LEVEL :: string where "DEFAULT_LOG_LEVEL = ''info''"
definition DEFAULT_LOG_FORMAT :: string where "DEFAULT_LOG_FORMAT = ''text''"
definition DEFAULT_SOCKET_SCAN_INTERVAL_MS :: u64 where "DEFAULT_SOCKET_SCAN_INTERVAL_MS = 2000"
definition DEFAULT_MAX_SOCKET_FORWARDS :: nat where "DEFAULT_MAX_SOCKET_FORWARDS = 16"

record socket_forwarding_config =
  sf_enabled :: bool
  sf_watch_paths :: "string list"
  sf_container_path_prefix :: "string option"
  sf_scan_interval_ms :: u64
  sf_max_socket_forwards :: nat

definition socket_forwarding_default :: socket_forwarding_config where
  "socket_forwarding_default =
     \<lparr>sf_enabled = False, sf_watch_paths = [], sf_container_path_prefix = None,
      sf_scan_interval_ms = DEFAULT_SOCKET_SCAN_INTERVAL_MS, sf_max_socket_forwards = DEFAULT_MAX_SOCKET_FORWARDS\<rparr>"

datatype config_error =
    InvalidValue string string
  | InvalidPort string
  | ConfigFile

record file_socket_forwarding_config =
  fsf_enabled :: "bool option"
  fsf_watch_paths :: "string list option"
  fsf_container_path_prefix :: "string option"
  fsf_scan_interval_ms :: "u64 option"
  fsf_max_socket_forwards :: "nat option"

record file_config =
  ff_control_port :: "u16 option"
  ff_data_port :: "u16 option"
  ff_host_addr :: "string option"
  ff_scan_interval_ms :: "u64 option"
  ff_log_level :: "string option"
  ff_log_format :: "string option"
  ff_log_file :: "string option"
  ff_exclude_ports :: "u16 list option"
  ff_include_ports :: "u16 list option"
  ff_no_auth :: "bool option"
  ff_socket_forwarding :: "file_socket_forwarding_config option"
  ff_clipboard :: "bool option"

record config =
  cf_control_port :: u16
  cf_data_port :: u16
  cf_host_addr :: "string option"
  cf_scan_interval_ms :: u64
  cf_log_level :: string
  cf_log_format :: string
  cf_log_file :: "string option"
  cf_exclude_ports :: "u16 list"
  cf_include_ports :: "u16 list"
  cf_no_auth :: bool
  cf_socket_forwarding :: socket_forwarding_config
  cf_clipboard_enabled :: bool

definition config_default :: config where
  "config_default =
     \<lparr>cf_control_port = DEFAULT_CONTROL_PORT, cf_data_port = DEFAULT_DATA_PORT, cf_host_addr = None,
      cf_scan_interval_ms = DEFAULT_SCAN_INTERVAL_MS, cf_log_level = DEFAULT_LOG_LEVEL, cf_log_format = DEFAULT_LOG_FORMAT,
      cf_log_file = None, cf_exclude_ports = [], cf_include_ports = [], cf_no_auth = False,
      cf_socket_forwarding = socket_forwarding_default, cf_clipboard_enabled = False\<rparr>"

definition or_keep :: "'a option \<Rightarrow> 'a \<Rightarrow> 'a" where
  "or_keep v old = (case v of Some x \<Rightarrow> x | None \<Rightarrow> old)"

definition apply_socket_forwarding :: "file_socket_forwarding_config \<Rightarrow> socket_forwarding_config \<Rightarrow> socket_forwarding_config" where
  "apply_socket_forwarding sf c =
     (let c1 = c\<lparr>sf_enabled := or_keep (fsf_enabled sf) (sf_enabled c)\<rparr>;
          c2 = (case fsf_watch_paths sf of
                  None \<Rightarrow> c1
                | Some v \<Rightarrow>
                    let c2 = c1\<lparr>sf_watch_paths := v\<rparr>
                    in if v \<noteq> [] \<and> fsf_enabled sf = None then c2\<lparr>sf_enabled := True\<rparr> else c2);
          c3 = (if fsf_container_path_prefix sf \<noteq> None then c2\<lparr>sf_container_path_prefix := fsf_container_path_prefix sf\<rparr> else c2)
      in c3\<lparr>sf_scan_interval_ms := or_keep (fsf_scan_interval_ms sf) (sf_scan_interval_ms c3),
            sf_max_socket_forwards := or_keep (fsf_max_socket_forwards sf) (sf_max_socket_forwards c3)\<rparr>)"

text \<open>The ports are checked in the order of the code; a bad one ends the load.\<close>

definition apply_file_config :: "file_config \<Rightarrow> config \<Rightarrow> config_error + config" where
  "apply_file_config f c =
     (let c1 = c\<lparr>cf_clipboard_enabled := or_keep (ff_clipboard f) (cf_clipboard_enabled c)\<rparr> in
      if ff_control_port f = Some 0 then Inl (InvalidPort ''0'')
      else let c2 = c1\<lparr>cf_control_port := or_keep (ff_control_port f) (cf_control_port c1)\<rparr> in
      if ff_data_port f = Some 0 then Inl (InvalidPort ''0'')
      else Inr (c2\<lparr>cf_data_port := or_keep (ff_data_port f) (cf_data_port c2),
                   cf_scan_interval_ms := or_keep (ff_scan_interval_ms f) (cf_scan_interval_ms c2),
                   cf_host_addr := (case ff_host_addr f of Some v \<Rightarrow> if v \<noteq> [] then Some v else cf_host_addr c2 | None \<Rightarrow> cf_host_addr c2),
                   cf_log_level := or_keep (ff_log_level f) (cf_log_level c2),
                   cf_log_format := or_keep (ff_log_format f) (cf_log_format c2),
                   cf_log_file := (if ff_log_file f \<noteq> None then ff_log_file f else cf_log_file c2),
                   cf_exclude_ports := or_keep (ff_exclude_ports f) (cf_exclude_ports c2),
                   cf_include_ports := or_keep (ff_include_ports f) (cf_include_ports c2),
                   cf_no_auth := or_keep (ff_no_auth f) (cf_no_auth c2),
                   cf_socket_forwarding := (case ff_socket_forwarding f of
                      Some sf \<Rightarrow> apply_socket_forwarding sf (cf_socket_forwarding c2)
                    | None \<Rightarrow> cf_socket_forwarding c2)\<rparr>))"

datatype config_file = NoFile | Unreadable | Malformed | Parsed file_config

definition apply_env :: "(string \<Rightarrow> string option) \<Rightarrow> config \<Rightarrow> config_error + config" where
  "apply_env lookup c =
     (let c1 = (case lookup ''DCBRIDGE_HOST'' of Some host \<Rightarrow> if host \<noteq> [] then c\<lparr>cf_host_addr := Some host\<rparr> else c | None \<Rightarrow> c)
      in case lookup ''DCBRIDGE_HOST_PORT'' of
           None \<Rightarrow> Inr c1
         | Some port_str \<Rightarrow>
             if port_str = [] then Inr c1
             else (case parse_u16 port_str of
                     None \<Rightarrow> Inl (InvalidPort port_str)
                   | Some port \<Rightarrow> if port = 0 then Inl (InvalidPort ''0'') else Inr (c1\<lparr>cf_control_port := port\<rparr>)))"

definition load :: "config_file \<Rightarrow> (string \<Rightarrow> string option) \<Rightarrow> config_error + config" where
  "load f lookup =
     res_bind (case f of
                 NoFile \<Rightarrow> Inr config_default
               | Unreadable \<Rightarrow> Inl ConfigFile
               | Malformed \<Rightarrow> Inl ConfigFile
               | Parsed file_cfg \<Rightarrow> apply_file_config file_cfg config_default)
       (apply_env lookup)"

definition config_file_path :: "bytes option \<Rightarrow> bytes option" where
  "config_file_path home = map_option (\<lambda>h. path_join (path_join (path_join h ''.config'') ''dbr'') ''config.toml'') home"

definition from_env :: "bytes option \<Rightarrow> (bytes \<Rightarrow> config_file) \<Rightarrow> (string \<Rightarrow> string option) \<Rightarrow> config_error + config" where
  "from_env home files lookup = load (case config_file_path home of Some p \<Rightarrow> files p | None \<Rightarrow> NoFile) lookup"

subsection \<open>Properties\<close>

text \<open>A well-formed configuration.\<close>

definition config_ok :: "config \<Rightarrow> bool" where
  "config_ok c \<longleftrightarrow> cf_control_port c \<noteq> 0 \<and> cf_data_port c \<noteq> 0 \<and> cf_host_addr c \<noteq> Some []"

text \<open>The value of the first layer that gives one.\<close>

fun layered :: "'a option list \<Rightarrow> 'a \<Rightarrow> 'a" where
  "layered [] d = d"
| "layered (v # vs) d = (case v of Some x \<Rightarrow> x | None \<Rightarrow> layered vs d)"

definition given :: "string option \<Rightarrow> string option" where
  "given v = (if v = Some [] then None else v)"

definition file_layer :: "config_file \<Rightarrow> (file_config \<Rightarrow> 'a option) \<Rightarrow> 'a option" where
  "file_layer f field = (case f of Parsed file_cfg \<Rightarrow> field file_cfg | _ \<Rightarrow> None)"

lemma apply_env_frame:
  assumes "apply_env lookup c = Inr c'"
  shows "c' = c\<lparr>cf_host_addr := (case given (lookup ''DCBRIDGE_HOST'') of Some h \<Rightarrow> Some h | None \<Rightarrow> cf_host_addr c),
                cf_control_port := layered [Option.bind (given (lookup ''DCBRIDGE_HOST_PORT'')) parse_u16] (cf_control_port c)\<rparr>"
    and "\<forall>t. given (lookup ''DCBRIDGE_HOST_PORT'') = Some t \<longrightarrow> (\<exists>p. parse_u16 t = Some p \<and> p \<noteq> 0)"
  using assms by (auto simp: apply_env_def Let_def given_def split: option.splits if_splits)

lemma default_simps [simp]:
  "cf_control_port config_default = DEFAULT_CONTROL_PORT" "cf_data_port config_default = DEFAULT_DATA_PORT"
  "cf_host_addr config_default = None" "cf_clipboard_enabled config_default = False" "cf_no_auth config_default = False"
  "cf_socket_forwarding config_default = socket_forwarding_default"
  by (simp_all add: config_default_def)

lemma apply_file_frame:
  assumes "apply_file_config f c = Inr c'"
  shows "ff_control_port f \<noteq> Some 0" and "ff_data_port f \<noteq> Some 0"
    and "cf_control_port c' = or_keep (ff_control_port f) (cf_control_port c)" and "cf_data_port c' = or_keep (ff_data_port f) (cf_data_port c)"
    and "cf_host_addr c' = (case given (ff_host_addr f) of Some h \<Rightarrow> Some h | None \<Rightarrow> cf_host_addr c)"
    and "cf_clipboard_enabled c' = or_keep (ff_clipboard f) (cf_clipboard_enabled c)" and "cf_no_auth c' = or_keep (ff_no_auth f) (cf_no_auth c)"
    and "cf_socket_forwarding c' = (case ff_socket_forwarding f of Some sf \<Rightarrow> apply_socket_forwarding sf (cf_socket_forwarding c)
          | None \<Rightarrow> cf_socket_forwarding c)"
proof -
  have ok: "ff_control_port f \<noteq> Some 0" "ff_data_port f \<noteq> Some 0"
    using assms by (auto simp: apply_file_config_def Let_def split: if_splits)
  then show "ff_control_port f \<noteq> Some 0" "ff_data_port f \<noteq> Some 0" .
  note c' = assms [unfolded apply_file_config_def Let_def, unfolded if_not_P [OF ok(1)] if_not_P [OF ok(2)], THEN sum.inject(2) [THEN iffD1]]
  show "cf_control_port c' = or_keep (ff_control_port f) (cf_control_port c)" "cf_data_port c' = or_keep (ff_data_port f) (cf_data_port c)"
    "cf_clipboard_enabled c' = or_keep (ff_clipboard f) (cf_clipboard_enabled c)" "cf_no_auth c' = or_keep (ff_no_auth f) (cf_no_auth c)"
    unfolding c' [symmetric] by simp_all
  show "cf_socket_forwarding c' = (case ff_socket_forwarding f of Some sf \<Rightarrow> apply_socket_forwarding sf (cf_socket_forwarding c)
          | None \<Rightarrow> cf_socket_forwarding c)"
    unfolding c' [symmetric] by (simp split: option.split)
  show "cf_host_addr c' = (case given (ff_host_addr f) of Some h \<Rightarrow> Some h | None \<Rightarrow> cf_host_addr c)"
    unfolding c' [symmetric] by (simp add: given_def split: option.split)
qed

lemma load_cases:
  assumes "load f lookup = Inr c"
  obtains "f = NoFile" and "apply_env lookup config_default = Inr c"
  | g b where "f = Parsed g" and "apply_file_config g config_default = Inr b" and "apply_env lookup b = Inr c"
  using assms by (cases f) (auto simp: load_def res_bind_eq_Inr)



text \<open>Socket forwarding is on after a load if the file enables it, or names paths and does not disable it.\<close>

theorem socket_forwarding_opt_in:
  assumes "load f lookup = Inr c"
  shows "sf_enabled (cf_socket_forwarding c) \<longleftrightarrow>
    (\<exists>sf. file_layer f ff_socket_forwarding = Some sf
       \<and> (fsf_enabled sf = Some True \<or> fsf_enabled sf = None \<and> (\<exists>p ps. fsf_watch_paths sf = Some (p # ps))))"
proof -
  have sf: "sf_enabled (apply_socket_forwarding sf socket_forwarding_default) \<longleftrightarrow>
      fsf_enabled sf = Some True \<or> fsf_enabled sf = None \<and> (\<exists>p ps. fsf_watch_paths sf = Some (p # ps))" for sf
    by (cases "fsf_watch_paths sf"; cases "fsf_enabled sf")
      (auto simp: apply_socket_forwarding_def socket_forwarding_default_def or_keep_def Let_def neq_Nil_conv)
  have "cf_socket_forwarding c = (case file_layer f ff_socket_forwarding of
      Some sf \<Rightarrow> apply_socket_forwarding sf socket_forwarding_default | None \<Rightarrow> socket_forwarding_default)"
    using assms
  proof (cases rule: load_cases)
    case 1
    then show ?thesis
      using apply_env_frame(1) [OF 1(2)] by (simp add: file_layer_def)
  next
    case (2 g b)
    then show ?thesis
      using apply_env_frame(1) [OF 2(3)] apply_file_frame(8) [OF 2(2)] by (simp add: file_layer_def split: option.split)
  qed
  then show ?thesis
    using sf by (auto simp: socket_forwarding_default_def split: option.split)
qed

end
