(* ===== verification/ContainerRun.thy ===== *)
theory ContainerRun
  imports Session Config
begin

section \<open>The reconnection loop of the container daemon (src/container/mod.rs)\<close>

text \<open>
  The setup of the daemon and the loop around its sessions. What the world does during one turn of the
  loop is the record \<open>attempt\<close>: the connection, the events of the session, and whether the shutdown
  signal comes during the delay after a failure.
\<close>

definition EXIT_PERMANENT_FAILURE :: nat where "EXIT_PERMANENT_FAILURE = 2"

subsection \<open>Setup\<close>

record run_plan =
  rp_control_addr :: socket_addr
  rp_data_addr :: socket_addr
  rp_scan_interval :: u64
  rp_params :: session_params

definition run_setup :: "resolve_env \<Rightarrow> config \<Rightarrow> container_error + run_plan" where
  "run_setup env cfg =
     res_bind (resolve_host_addr env (cf_host_addr cfg)) (\<lambda>host.
     res_bind (parse_addr (re_v6_scoped env) host (cf_control_port cfg)) (\<lambda>control_addr.
     res_bind (parse_addr (re_v6_scoped env) host (cf_data_port cfg)) (\<lambda>data_addr.
       let exclude_ports = cf_exclude_ports cfg @ [cf_control_port cfg, cf_data_port cfg] in
       case port_filter_new (\<lambda>_. None) exclude_ports (cf_include_ports cfg) None None of
         Inl e \<Rightarrow> Inl (FilterFailed e)
       | Inr port_filter \<Rightarrow>
           Inr \<lparr>rp_control_addr = control_addr, rp_data_addr = data_addr,
                rp_scan_interval = max (cf_scan_interval_ms cfg) 100,
                rp_params = \<lparr>sp_data_addr = data_addr, sp_exclude_ports = exclude_ports, sp_port_filter = port_filter\<rparr>\<rparr>)))"

subsection \<open>One turn of the loop\<close>

record attempt =
  at_connect :: "io_error + control_connection"
  at_container_id :: string
  at_env :: session_env
  at_events :: "session_event list"
  at_stop :: bool

record container_run =
  cr_backoff :: backoff
  cr_last_forwarded :: "(u16, listening_port) hashmap"
  cr_fs :: file_system

datatype run_result = Finished "container_error + unit" | Again | StillRunning session

definition retry :: "attempt \<Rightarrow> container_run \<Rightarrow> run_result \<times> container_run" where
  "retry a r =
     (case wait_or_shutdown (at_stop a) (cr_backoff r) of
        (stop, b) \<Rightarrow> (if stop then Finished (Inr ()) else Again, r\<lparr>cr_backoff := b\<rparr>))"

fun send_forwards :: "json_printer \<Rightarrow> (u16 \<times> listening_port) list \<Rightarrow> control_connection \<Rightarrow> bool \<times> control_connection" where
  "send_forwards to_string [] conn = (False, conn)"
| "send_forwards to_string ((port, lp) # rest) conn =
     (case conn_send to_string (forward_message port lp) conn of
        (Inl _, conn1) \<Rightarrow> (True, conn1)
      | (Inr _, conn1) \<Rightarrow> send_forwards to_string rest conn1)"

definition re_forward_ports :: "session_env \<Rightarrow> (u16, listening_port) hashmap \<Rightarrow> control_connection \<Rightarrow> bool \<times> control_connection" where
  "re_forward_ports env forwarded conn = send_forwards (sv_to_string env) (entries (sv_iter env) forwarded) conn"

definition connected :: "session_params \<Rightarrow> attempt \<Rightarrow> control_connection \<Rightarrow> container_run \<Rightarrow> run_result \<times> container_run" where
  "connected params a conn r =
     (case run_session params (at_events a) (at_env a) (cr_last_forwarded r) (cr_fs r) conn of
        (None, s) \<Rightarrow> (StillRunning s, r)
      | (Some SessionShutdown, s) \<Rightarrow> (Finished (Inr ()), r\<lparr>cr_fs := sn_fs s\<rparr>)
      | (Some _, s) \<Rightarrow> retry a (r\<lparr>cr_last_forwarded := sn_forwarded s, cr_fs := sn_fs s\<rparr>))"

definition run_attempt :: "session_params \<Rightarrow> string \<Rightarrow> attempt \<Rightarrow> container_run \<Rightarrow> run_result \<times> container_run" where
  "run_attempt params auth_token a r =
     (case at_connect a of
        Inl _ \<Rightarrow> retry a r
      | Inr conn \<Rightarrow>
          (case conn_send (sv_to_string (at_env a)) (Register (at_container_id a) (at_container_id a) auth_token) conn of
             (Inl _, _) \<Rightarrow> retry a r
           | (Inr _, conn1) \<Rightarrow>
               (case conn_recv (sv_from_str (at_env a)) conn1 of
                  (Inl _, _) \<Rightarrow> retry a r
                | (Inr (RegisterAck success), conn2) \<Rightarrow>
                    if \<not> success then (Finished (Inl AuthenticationFailed), r)
                    else let r1 = r\<lparr>cr_backoff := backoff_reset (cr_backoff r)\<rparr> in
                      if cr_last_forwarded r1 = [] then connected params a conn2 r1
                      else (case re_forward_ports (at_env a) (cr_last_forwarded r1) conn2 of
                              (failed, conn3) \<Rightarrow> if failed then retry a r1 else connected params a conn3 r1)
                | (Inr _, _) \<Rightarrow> retry a r)))"

fun run_loop :: "session_params \<Rightarrow> string \<Rightarrow> attempt list \<Rightarrow> container_run \<Rightarrow> run_result \<times> container_run" where
  "run_loop params auth_token [] r = (Again, r)"
| "run_loop params auth_token (a # as) r =
     (case run_attempt params auth_token a r of
        (Again, r1) \<Rightarrow> run_loop params auth_token as r1
      | (res, r1) \<Rightarrow> (res, r1))"

definition container_daemon :: "resolve_env \<Rightarrow> config \<Rightarrow> string \<Rightarrow> attempt list \<Rightarrow> file_system \<Rightarrow> run_result \<times> container_run" where
  "container_daemon env cfg auth_token attempts fs =
     (let r = \<lparr>cr_backoff = backoff_new 100 5000, cr_last_forwarded = [], cr_fs = fs\<rparr> in
      case run_setup env cfg of
        Inl e \<Rightarrow> (Finished (Inl e), r)
      | Inr plan \<Rightarrow> run_loop (rp_params plan) auth_token attempts r)"

subsection \<open>Properties\<close>

definition backoff_ok :: "backoff \<Rightarrow> bool" where
  "backoff_ok b \<longleftrightarrow> bo_initial b = 100 \<and> bo_max b = 5000 \<and> 100 \<le> bo_current b \<and> bo_current b \<le> 5000"

lemma backoff_ok_ops: "backoff_ok b \<Longrightarrow> backoff_ok (escalate b)" "backoff_ok b \<Longrightarrow> backoff_ok (backoff_reset b)"
  by (auto simp: backoff_ok_def escalate_def backoff_reset_def)

lemma retry_eq: "retry a r = (if at_stop a then (Finished (Inr ()), r) else (Again, r\<lparr>cr_backoff := escalate (cr_backoff r)\<rparr>))"
  by (simp add: retry_def wait_or_shutdown_def)

text \<open>The attempt is refused: the host answers the registration with a negative acknowledgement.\<close>

definition refused_by_host :: "string \<Rightarrow> attempt \<Rightarrow> bool" where
  "refused_by_host auth_token a \<longleftrightarrow> (\<exists>conn conn1 conn2. at_connect a = Inr conn
     \<and> conn_send (sv_to_string (at_env a)) (Register (at_container_id a) (at_container_id a) auth_token) conn = (Inr (), conn1)
     \<and> conn_recv (sv_from_str (at_env a)) conn1 = (Inr (RegisterAck False), conn2))"

text \<open>What every turn keeps: the backoff, and no other error than a refused registration.\<close>

definition turn_ok :: "string \<Rightarrow> attempt \<Rightarrow> run_result \<times> container_run \<Rightarrow> bool" where
  "turn_ok auth_token a x \<longleftrightarrow> backoff_ok (cr_backoff (snd x))
     \<and> (\<forall>e. fst x = Finished (Inl e) \<longrightarrow> e = AuthenticationFailed \<and> refused_by_host auth_token a)"

lemma retry_ok: "backoff_ok (cr_backoff r) \<Longrightarrow> turn_ok auth_token a (retry a r)"
  by (simp add: retry_eq turn_ok_def backoff_ok_ops)

lemma connected_ok: "backoff_ok (cr_backoff r) \<Longrightarrow> turn_ok auth_token a (connected params a conn r)"
proof -
  assume r: "backoff_ok (cr_backoff r)"
  obtain out s where "run_session params (at_events a) (at_env a) (cr_last_forwarded r) (cr_fs r) conn = (out, s)"
    by (cases "run_session params (at_events a) (at_env a) (cr_last_forwarded r) (cr_fs r) conn")
  then show ?thesis
    using r by (cases out) (auto simp: connected_def turn_ok_def retry_eq backoff_ok_ops split: session_outcome.split)
qed

lemma attempt_ok: "backoff_ok (cr_backoff r) \<Longrightarrow> turn_ok auth_token a (run_attempt params auth_token a r)"
proof (cases "at_connect a")
  case (Inl e)
  then show "backoff_ok (cr_backoff r) \<Longrightarrow> ?thesis"
    by (simp add: run_attempt_def retry_ok)
next
  case c: (Inr conn)
  assume r: "backoff_ok (cr_backoff r)"
  let ?m = "Register (at_container_id a) (at_container_id a) auth_token"
  obtain q conn1 where q: "conn_send (sv_to_string (at_env a)) ?m conn = (q, conn1)"
    by (cases "conn_send (sv_to_string (at_env a)) ?m conn")
  obtain m conn2 where m: "conn_recv (sv_from_str (at_env a)) conn1 = (m, conn2)"
    by (cases "conn_recv (sv_from_str (at_env a)) conn1")
  let ?r1 = "r\<lparr>cr_backoff := backoff_reset (cr_backoff r)\<rparr>"
  have r1: "backoff_ok (cr_backoff ?r1)"
    using r by (simp add: backoff_ok_ops)
  consider "\<forall>u. q \<noteq> Inr u" | "q = Inr ()" "\<forall>b. m \<noteq> Inr (RegisterAck b)" | "q = Inr ()" "m = Inr (RegisterAck False)"
    | "q = Inr ()" "m = Inr (RegisterAck True)"
    by (metis (full_types) unit.exhaust)
  then show ?thesis
  proof cases
    case 1
    then show ?thesis
      using c q r by (cases q) (simp_all add: run_attempt_def retry_ok)
  next
    case 2
    then have "run_attempt params auth_token a r = retry a r"
      using c q m by (cases m) (auto simp: run_attempt_def split: message.split)
    then show ?thesis
      using r by (simp add: retry_ok)
  next
    case 3
    then show ?thesis
      using c q m r by (auto simp: run_attempt_def turn_ok_def refused_by_host_def)
  next
    case 4
    have s: "turn_ok auth_token a (connected params a conn' ?r1)" for conn'
      using connected_ok [OF r1] .
    show ?thesis
      using 4 c q m s retry_ok [OF r1] by (simp add: run_attempt_def Let_def split: prod.split)
  qed
qed

lemma run_loop_ok:
  assumes "run_loop params auth_token attempts r = (res, r1)" and "backoff_ok (cr_backoff r)"
  shows "backoff_ok (cr_backoff r1)
    \<and> (\<forall>e. res = Finished (Inl e) \<longrightarrow> e = AuthenticationFailed \<and> (\<exists>a \<in> set attempts. refused_by_host auth_token a))"
  using assms
proof (induction attempts arbitrary: r)
  case (Cons a attempts)
  obtain res2 r2 where t: "run_attempt params auth_token a r = (res2, r2)"
    by (cases "run_attempt params auth_token a r")
  have ok: "turn_ok auth_token a (res2, r2)"
    using attempt_ok [OF Cons.prems(2), of auth_token a params] t by simp
  show ?case
  proof (cases "res2 = Again")
    case True
    then show ?thesis
      using Cons.IH [of r2] Cons.prems(1) t ok by (auto simp: turn_ok_def)
  next
    case False
    then have "res = res2" "r1 = r2"
      using Cons.prems(1) t by (auto split: run_result.splits)
    then show ?thesis
      using ok by (auto simp: turn_ok_def)
  qed
qed simp


definition sample_attempt :: "bool \<Rightarrow> attempt" where
  "sample_attempt up =
     \<lparr>at_connect = (if up then Inr (control_connection_new [Seg (''{}'' @ [newline])]) else Inl OtherIo), at_container_id = ''c1'',
      at_env = sample_session_env\<lparr>sv_from_str := (\<lambda>_. Some (RegisterAck False))\<rparr>, at_events = [], at_stop = False\<rparr>"

definition run_sample :: container_run where
  "run_sample = \<lparr>cr_backoff = backoff_new 100 5000, cr_last_forwarded = [], cr_fs = sample_fs\<rparr>"

lemma sample_refused: "run_attempt params auth_token (sample_attempt True) r = (Finished (Inl AuthenticationFailed), r)"
proof -
  let ?w = "\<lparr>tw_out = ''{}'' @ [newline], tw_up = True\<rparr>"
  have line: "read_line \<lparr>br_buf = [], br_net = [Seg (''{}'' @ [newline])]\<rparr> [] = (Inr (''{}'' @ [newline]), \<lparr>br_buf = [], br_net = []\<rparr>)"
    by (subst read_line.simps)
      (simp add: fill_buf_def consume_def utf8_ok_ascii is_ascii_def)
  have recv: "\<exists>c. conn_recv (\<lambda>_. Some (RegisterAck False)) \<lparr>cc_reader = \<lparr>br_buf = [], br_net = [Seg (''{}'' @ [newline])]\<rparr>, cc_writer = ?w\<rparr>
      = (Inr (RegisterAck False), c)"
    unfolding conn_recv_def control_connection.simps read_message_def line by (simp add: MAX_MESSAGE_SIZE_def)
  have send: "conn_send (\<lambda>_. Some ''{}'') m (control_connection_new [Seg (''{}'' @ [newline])])
      = (Inr (), \<lparr>cc_reader = \<lparr>br_buf = [], br_net = [Seg (''{}'' @ [newline])]\<rparr>, cc_writer = ?w\<rparr>)" for m
    by (simp add: conn_send_def write_message_def write_all_def control_connection_new_def MAX_MESSAGE_SIZE_def)
  show ?thesis
    using send recv by (auto simp: run_attempt_def sample_attempt_def sample_session_env_def)
qed


text \<open>
  After a reconnection every port of the last session is announced again, once, before the session starts.
\<close>

lemma send_forwards_written:
  "send_forwards to_string xs conn = (False, conn1) \<Longrightarrow>
   tw_out (cc_writer conn1) = tw_out (cc_writer conn) @ concat (map (\<lambda>(p, lp). the (to_string (forward_message p lp)) @ [newline]) xs)"
proof (induction to_string xs conn rule: send_forwards.induct)
  case (2 to_string port lp rest conn)
  obtain conn2 where s: "conn_send to_string (forward_message port lp) conn = (Inr (), conn2)"
    using "2.prems" by (cases "conn_send to_string (forward_message port lp) conn") (auto split: sum.splits)
  then have "tw_out (cc_writer conn2) = tw_out (cc_writer conn) @ the (to_string (forward_message port lp)) @ [newline]"
    by (auto simp: conn_send_def write_message_def write_all_def split: option.splits if_splits)
  then show ?case
    using "2.IH" [OF s [symmetric] refl] "2.prems" s by simp
qed simp

theorem reconnect_reannounces:
  assumes "re_forward_ports env forwarded conn = (False, conn1)" and "iterates_keys env" and "hm_wf forwarded"
  shows "\<exists>xs. tw_out (cc_writer conn1) = tw_out (cc_writer conn)
         @ concat (map (\<lambda>(p, lp). the (sv_to_string env (forward_message p lp)) @ [newline]) xs)
       \<and> distinct (map fst xs) \<and> map_of xs = hm_get forwarded"
  using send_forwards_written [OF assms(1) [unfolded re_forward_ports_def]] entries_ok [OF assms(2,3)] by blast

text \<open>The daemon never forwards its own ports, and scans at most ten times a second.\<close>

theorem setup_excludes_own_ports:
  assumes "run_setup env cfg = Inr plan"
  shows "cf_control_port cfg \<in> set (sp_exclude_ports (rp_params plan)) \<and> cf_data_port cfg \<in> set (sp_exclude_ports (rp_params plan))
    \<and> 100 \<le> rp_scan_interval plan \<and> pf_exclude_process (sp_port_filter (rp_params plan)) = None
    \<and> pf_include_ports (sp_port_filter (rp_params plan)) = cf_include_ports cfg"
  using assms by (auto simp: run_setup_def res_bind_eq_Inr port_filter_new_def Let_def)

end
