(* ===== verification/Framing.thy ===== *)
theory Framing
  imports Control
begin

section \<open>Correctness of the framing\<close>

text \<open>
  What a loop over a buffered reader relies on, as a locale: every fill shows a prefix of
  the bytes still to come, an empty one only at the end of the stream, and consuming
  removes what was seen. Its lemmas say what one turn of such a loop finds when the stream
  holds a whole line. The TCP reader of theory Control is its instance, and from it follow
  the theorems on \<open>read_message\<close> for every segmentation of the stream.
\<close>

subsection \<open>Bytes still to come, whole segments and cuts\<close>

fun seg_bytes :: "segment \<Rightarrow> bytes" where
  "seg_bytes (Seg b) = b"
| "seg_bytes (Failure e) = []"

definition stream :: "buf_reader \<Rightarrow> bytes" where
  "stream r = br_buf r @ concat (map seg_bytes (br_net r))"

definition clean :: "buf_reader \<Rightarrow> bool" where
  "clean r \<longleftrightarrow> (\<forall>g \<in> set (br_net r). \<exists>b. g = Seg b \<and> b \<noteq> [])"

text \<open>The offsets of the stream at which one read ends.\<close>

fun seg_cuts :: "nat \<Rightarrow> segment list \<Rightarrow> nat list" where
  "seg_cuts n [] = []"
| "seg_cuts n (g # gs) = (n + length (seg_bytes g)) # seg_cuts (n + length (seg_bytes g)) gs"

definition cuts :: "buf_reader \<Rightarrow> nat list" where
  "cuts r = seg_cuts 0 (Seg (br_buf r) # br_net r)"

definition aligned :: "buf_reader \<Rightarrow> bytes \<Rightarrow> bool" where
  "aligned r l \<longleftrightarrow> utf8_ok l \<and> (\<forall>k \<in> set (cuts r). utf8_ok (take k l))"

lemma seg_cuts_shift: "seg_cuts (n + m) gs = map ((+) n) (seg_cuts m gs)"
  by (induction gs arbitrary: m) (auto simp: add.assoc)

lemma aligned_ascii: "\<forall>c \<in> set l. is_ascii c \<Longrightarrow> aligned r l"
  by (auto simp: aligned_def intro!: utf8_ok_ascii dest: in_set_takeD)

locale buffered_read =
  fixes fill :: "'r \<Rightarrow> ('e + bytes) \<times> 'r"
    and eat :: "nat \<Rightarrow> 'r \<Rightarrow> 'r"
    and rest_of :: "'r \<Rightarrow> bytes"
    and ok :: "'r \<Rightarrow> bool"
  assumes fill_ok: "ok r \<Longrightarrow> \<exists>a r1 t. fill r = (Inr a, r1) \<and> ok r1 \<and> rest_of r = a @ t
      \<and> rest_of r1 = rest_of r \<and> (a = [] \<longrightarrow> rest_of r = [])"
    and eat_ok: "ok r \<Longrightarrow> fill r = (Inr a, r1) \<Longrightarrow> n \<le> length a \<Longrightarrow>
      ok (eat n r1) \<and> rest_of (eat n r1) = drop n (rest_of r)"
begin

text \<open>One turn while a line \<open>l\<close> is ahead: the fill shows its line feed, or a part of it.\<close>

lemma line_turn:
  assumes "ok r" and "rest_of r = l @ nl # t" and "nl \<notin> set l"
  obtains (found) a r1 where "fill r = (Inr a, r1)" and "a \<noteq> []"
      and "position (\<lambda>b. b = nl) a = Some (length l)" and "take (Suc (length l)) a = l @ [nl]"
      and "ok (eat (length l + 1) r1)" and "rest_of (eat (length l + 1) r1) = t"
  | (more) a r1 l' where "fill r = (Inr a, r1)" and "a \<noteq> []"
      and "position (\<lambda>b. b = nl) a = None" and "l = a @ l'"
      and "ok (eat (length a) r1)" and "rest_of (eat (length a) r1) = l' @ nl # t"
proof -
  obtain a r1 u where f: "fill r = (Inr a, r1)" and a: "l @ nl # t = a @ u" and ne: "a \<noteq> []"
    using fill_ok [OF assms(1)] assms(2) by auto
  show ?thesis
  proof (cases "length a \<le> length l")
    case True
    then have l: "l = a @ drop (length a) l"
      by (metis a append_eq_append_conv_if append_take_drop_id)
    have "rest_of (eat (length a) r1) = drop (length a) l @ nl # t"
      using eat_ok [OF assms(1) f, of "length a"] assms(2) True by simp
    moreover have "position (\<lambda>b. b = nl) a = None"
      unfolding position_None using assms(3) arg_cong [OF l, of set] by auto
    ultimately show ?thesis
      using more [OF f ne _ l] eat_ok [OF assms(1) f, of "length a"] by blast
  next
    case False
    then obtain v where v: "a = l @ nl # v"
      using a by (auto simp: append_eq_append_conv2 append_eq_Cons_conv Cons_eq_append_conv)
    have "position (\<lambda>b. b = nl) l = None"
      using assms(3) by (auto simp: position_None)
    then have "position (\<lambda>b. b = nl) a = Some (length l)"
      by (simp add: v position_append)
    then show ?thesis
      using found [OF f ne] eat_ok [OF assms(1) f, of "length l + 1"] assms(2) v by simp
  qed
qed

lemma eof_turn:
  assumes "ok r" and "rest_of r = []"
  obtains r1 where "fill r = (Inr [], r1)" and "rest_of r1 = []"
  using fill_ok [OF assms(1)] assms(2) by auto

end

interpretation tcp: buffered_read fill_buf consume stream clean
proof unfold_locales
  fix r assume "clean r"
  then show "\<exists>a r1 t. fill_buf r = (Inr a, r1) \<and> clean r1 \<and> stream r = a @ t
      \<and> stream r1 = stream r \<and> (a = [] \<longrightarrow> stream r = [])"
    by (cases "br_net r") (auto simp: fill_buf_def clean_def stream_def)
next
  fix r a r1 n assume "clean r" and "fill_buf r = (Inr a, r1)" and "n \<le> length a"
  then show "clean (consume n r1) \<and> stream (consume n r1) = drop n (stream r)"
    by (auto simp: fill_buf_def clean_def stream_def consume_def split: if_splits list.splits segment.splits)
qed

lemma fill_cuts:
  assumes "clean r" and "fill_buf r = (Inr a, r1)" and "a \<noteq> []"
  shows "length a \<in> set (cuts r)"
    and "n \<le> length a \<Longrightarrow> k \<in> set (cuts (consume n r1)) \<Longrightarrow> n + k \<in> set (cuts r)"
proof -
  have c: "cuts r1 = length a # seg_cuts (length a) (br_net r1)" and sub: "set (cuts r1) \<subseteq> set (cuts r)"
    and buf: "br_buf r1 = a"
    using assms
    by (auto simp: fill_buf_def cuts_def split: if_splits list.splits segment.splits)
  then show "length a \<in> set (cuts r)"
    by auto
  assume n: "n \<le> length a" and k: "k \<in> set (cuts (consume n r1))"
  have "cuts (consume n r1) = (length a - n) # seg_cuts (length a - n) (br_net r1)"
    by (simp add: cuts_def consume_def buf)
  moreover have "seg_cuts (length a) (br_net r1) = map ((+) n) (seg_cuts (length a - n) (br_net r1))"
    using n seg_cuts_shift [of n "length a - n" "br_net r1"] by simp
  ultimately have "n + k \<in> set (cuts r1)"
    using k c n by auto
  then show "n + k \<in> set (cuts r)"
    using sub by auto
qed

lemma aligned_more:
  assumes "clean r" and "fill_buf r = (Inr a, r1)" and "a \<noteq> []"
  shows "aligned r (a @ s) \<Longrightarrow> utf8_ok a"
    and "aligned r (u @ s) \<Longrightarrow> utf8_ok u \<Longrightarrow> length u \<le> length a \<Longrightarrow> aligned (consume (length u) r1) s"
proof -
  show "utf8_ok a" if "aligned r (a @ s)"
    using that fill_cuts(1) [OF assms] by (auto simp: aligned_def dest: bspec)
  assume al: "aligned r (u @ s)" and u: "utf8_ok u" "length u \<le> length a"
  show "aligned (consume (length u) r1) s"
    unfolding aligned_def
  proof (intro conjI ballI)
    show "utf8_ok s"
      using al u by (simp add: aligned_def utf8_ok_append)
    fix k assume "k \<in> set (cuts (consume (length u) r1))"
    then have "utf8_ok (take (length u + k) (u @ s))"
      using fill_cuts(2) [OF assms u(2)] al unfolding aligned_def by blast
    then show "utf8_ok (take k s)"
      using u by (simp add: utf8_ok_append)
  qed
qed

text \<open>The same for a line that is ahead, in the two cases of \<open>tcp.line_turn\<close>.\<close>

lemma aligned_line:
  assumes "clean r" and "aligned r (l @ newline # t)" and "utf8_ok l" and "fill_buf r = (Inr a, r1)"
    and "a \<noteq> []"
  shows "l = a @ l' \<Longrightarrow> utf8_ok a \<and> utf8_ok l' \<and> aligned (consume (length a) r1) (l' @ newline # t)"
    and "length l < length a \<Longrightarrow> utf8_ok (l @ [newline]) \<and> aligned (consume (length l + 1) r1) t"
proof -
  assume l: "l = a @ l'"
  have a: "utf8_ok a"
    using aligned_more(1) [OF assms(1,4,5), of "l' @ newline # t"] assms(2) l by simp
  then show "utf8_ok a \<and> utf8_ok l' \<and> aligned (consume (length a) r1) (l' @ newline # t)"
    using aligned_more(2) [OF assms(1,4,5), of a "l' @ newline # t"] assms(2,3) l
    by (simp add: utf8_ok_append)
next
  assume "length l < length a"
  moreover have "utf8_ok (l @ [newline])"
    using assms(3) by (auto simp: utf8_ok_append utf8_ok_ascii is_ascii_def)
  ultimately show "utf8_ok (l @ [newline]) \<and> aligned (consume (length l + 1) r1) t"
    using aligned_more(2) [OF assms(1,4,5), of "l @ [newline]" t] assms(2) by simp
qed

subsection \<open>Reading one line\<close>

text \<open>A reader ahead of the bytes \<open>s\<close> whose reads all end between characters.\<close>

definition ahead :: "buf_reader \<Rightarrow> bytes \<Rightarrow> bool" where
  "ahead r s \<longleftrightarrow> clean r \<and> stream r = s \<and> aligned r s"

lemma position_Some_less: "position P a = Some n \<Longrightarrow> n < length a"
  by (auto dest: position_Some)

lemma ahead_turn:
  assumes "ahead r (l @ newline # t)" and "newline \<notin> set l" and "utf8_ok l"
  obtains (found) a r1 where "fill_buf r = (Inr a, r1)" and "a \<noteq> []"
      and "position (\<lambda>b. b = newline) a = Some (length l)" and "take (Suc (length l)) a = l @ [newline]"
      and "utf8_ok (l @ [newline])" and "ahead (consume (length l + 1) r1) t"
  | (more) a r1 l' where "fill_buf r = (Inr a, r1)" and "a \<noteq> []"
      and "position (\<lambda>b. b = newline) a = None" and "l = a @ l'" and "utf8_ok a"
      and "newline \<notin> set l'" and "utf8_ok l'" and "ahead (consume (length a) r1) (l' @ newline # t)"
proof (rule tcp.line_turn [of r l newline t])
  show "clean r" and "stream r = l @ newline # t" and "newline \<notin> set l"
    using assms by (simp_all add: ahead_def)
next
  fix a r1
  assume a: "fill_buf r = (Inr a, r1)" "a \<noteq> []" "position (\<lambda>b. b = newline) a = Some (length l)"
    "take (Suc (length l)) a = l @ [newline]"
    "clean (consume (length l + 1) r1)" "stream (consume (length l + 1) r1) = t"
  show ?thesis
    using found [OF a(1-4)] aligned_line(2) [OF _ _ assms(3) a(1,2), of t] assms(1) position_Some_less [OF a(3)] a(5,6)
    by (simp add: ahead_def)
next
  fix a r1 l'
  assume a: "fill_buf r = (Inr a, r1)" "a \<noteq> []" "position (\<lambda>b. b = newline) a = None" "l = a @ l'"
    "clean (consume (length a) r1)" "stream (consume (length a) r1) = l' @ newline # t"
  show ?thesis
    using more [OF a(1-4)] aligned_line(1) [OF _ _ assms(3) a(1,2,4), of t] assms(1,2) a(4-6)
    by (simp add: ahead_def)
qed

lemma drain_line_stream:
  "ahead r (l @ newline # t) \<Longrightarrow> newline \<notin> set l \<Longrightarrow> utf8_ok l \<Longrightarrow>
   \<exists>r'. drain_line r = (Inr (), r') \<and> ahead r' t"
proof (induction r arbitrary: l rule: drain_line.induct)
  case (1 r)
  from "1.prems" show ?case
  proof (cases rule: ahead_turn)
    case (found a r1)
    then show ?thesis
      by (simp add: drain_line.simps [of r])
  next
    case (more a r1 l')
    then show ?thesis
      using "1.IH" [OF more(1) [symmetric] refl more(2,3,8,6,7)] by (simp add: drain_line.simps [of r])
  qed
qed

lemma read_line_fits:
  "ahead r (l @ newline # t) \<Longrightarrow> newline \<notin> set l \<Longrightarrow> utf8_ok l \<Longrightarrow>
   length acc + length l \<le> MAX_MESSAGE_SIZE \<Longrightarrow>
   \<exists>r'. read_line r acc = (Inr (acc @ l @ [newline]), r') \<and> ahead r' t"
proof (induction r acc arbitrary: l rule: read_line.induct)
  case (1 r acc)
  from "1.prems"(1-3) show ?case
  proof (cases rule: ahead_turn)
    case (found a r1)
    then show ?thesis
      by (simp add: read_line.simps [of r])
  next
    case (more a r1 l')
    have small: "\<not> MAX_MESSAGE_SIZE < length acc + length a"
      using "1.prems"(4) more(4) by simp
    show ?thesis
      using "1.IH" [OF more(1) [symmetric] refl more(2,3) small _ more(8,6,7)] "1.prems"(4) more small
      by (simp add: read_line.simps [of r acc])
  qed
qed

lemma read_line_oversize:
  "ahead r (l @ newline # t) \<Longrightarrow> newline \<notin> set l \<Longrightarrow> utf8_ok l \<Longrightarrow>
   \<exists>r'. ahead r' t \<and>
     (read_line r acc = (Inr (acc @ l @ [newline]), r') \<or>
      (\<exists>n > MAX_MESSAGE_SIZE. read_line r acc = (Inl (MessageTooLarge n), r')))"
proof (induction r acc arbitrary: l rule: read_line.induct)
  case (1 r acc)
  from "1.prems" show ?case
  proof (cases rule: ahead_turn)
    case (found a r1)
    then show ?thesis
      by (simp add: read_line.simps [of r])
  next
    case (more a r1 l')
    show ?thesis
    proof (cases "MAX_MESSAGE_SIZE < length acc + length a")
      case True
      with drain_line_stream [OF more(8,6,7)] more show ?thesis
        by (auto simp: read_line.simps [of r acc])
    next
      case False
      with "1.IH" [OF more(1) [symmetric] refl more(2,3) False _ more(8,6,7)] more show ?thesis
        by (simp add: read_line.simps [of r acc])
    qed
  qed
qed

lemma read_line_eof: "clean r \<Longrightarrow> stream r = [] \<Longrightarrow> fst (read_line r acc) = Inl ConnectionClosed"
  by (erule (1) tcp.eof_turn) (simp add: read_line.simps)

subsection \<open>Messages\<close>

lemma read_message_fits:
  assumes "codec_ok to_string from_str m" and "to_string m = Some j" and "length j < MAX_MESSAGE_SIZE"
    and "ahead r (j @ newline # t)"
  shows "\<exists>r'. read_message from_str r = (Inr m, r') \<and> ahead r' t"
proof -
  obtain r' where "read_line r [] = (Inr (j @ [newline]), r')" and "ahead r' t"
    using read_line_fits [OF assms(4), of "[]"] assms(1,2,3) by (auto simp: codec_ok_def)
  moreover have "trim_end (j @ [newline]) = j" and "from_str j = Some m"
    using assms(1,2) by (auto simp: codec_ok_def intro: trim_end_newline)
  ultimately show ?thesis
    using assms(3) by (simp add: read_message_def)
qed

lemma read_message_oversize:
  assumes "utf8_ok l" and "newline \<notin> set l" and "MAX_MESSAGE_SIZE \<le> length l"
    and "ahead r (l @ newline # t)"
  shows "\<exists>n r'. read_message from_str r = (Inl (MessageTooLarge n), r') \<and> MAX_MESSAGE_SIZE < n \<and> ahead r' t"
  using read_line_oversize [OF assms(4,2,1), of "[]"] assms(3) by (auto simp: read_message_def)

text \<open>Writing and reading several messages on one connection.\<close>

primrec write_messages ::
  "json_printer \<Rightarrow> tcp_writer \<Rightarrow> message list \<Rightarrow> (control_error + unit) \<times> tcp_writer" where
  "write_messages to_string w [] = (Inr (), w)"
| "write_messages to_string w (m # ms) =
     (case write_message to_string w m of
        (Inl e, w1) \<Rightarrow> (Inl e, w1)
      | (Inr _, w1) \<Rightarrow> write_messages to_string w1 ms)"

primrec read_messages :: "json_parser \<Rightarrow> nat \<Rightarrow> buf_reader \<Rightarrow> (control_error + message) list \<times> buf_reader" where
  "read_messages from_str 0 r = ([], r)"
| "read_messages from_str (Suc n) r =
     (case read_message from_str r of
        (res, r1) \<Rightarrow> (case read_messages from_str n r1 of (rest, r2) \<Rightarrow> (res # rest, r2)))"

definition framed :: "json_printer \<Rightarrow> message list \<Rightarrow> bytes" where
  "framed to_string ms = concat (map (\<lambda>m. the (to_string m) @ [newline]) ms)"

definition fits :: "json_printer \<Rightarrow> json_parser \<Rightarrow> message \<Rightarrow> bool" where
  "fits to_string from_str m \<longleftrightarrow>
     codec_ok to_string from_str m \<and> length (the (to_string m)) < MAX_MESSAGE_SIZE"

lemma fits_json: "fits to_string from_str m \<Longrightarrow> \<exists>j. to_string m = Some j \<and> length j < MAX_MESSAGE_SIZE"
  by (auto simp: fits_def codec_ok_def split: option.splits)

text \<open>
  A line of ASCII text may be cut into reads anywhere and be followed by any bytes, for only the
  line is checked for UTF-8.
\<close>

lemma read_line_ascii:
  "clean r \<Longrightarrow> stream r = l @ newline # t \<Longrightarrow> newline \<notin> set l \<Longrightarrow> \<forall>c \<in> set l. is_ascii c \<Longrightarrow>
   length acc + length l \<le> MAX_MESSAGE_SIZE \<Longrightarrow>
   \<exists>r'. read_line r acc = (Inr (acc @ l @ [newline]), r') \<and> clean r' \<and> stream r' = t"
proof (induction r acc arbitrary: l rule: read_line.induct)
  case (1 r acc)
  from "1.prems"(1-3) show ?case
  proof (cases rule: tcp.line_turn)
    case (found a r1)
    moreover have "utf8_ok (l @ [newline])"
      using "1.prems"(4) by (intro utf8_ok_ascii) (auto simp: is_ascii_def)
    ultimately show ?thesis
      by (simp add: read_line.simps [of r])
  next
    case (more a r1 l')
    have small: "\<not> MAX_MESSAGE_SIZE < length acc + length a"
      using "1.prems"(5) more(4) by simp
    have "utf8_ok a"
      using "1.prems"(4) more(4) by (intro utf8_ok_ascii) simp
    with "1.IH" [OF more(1) [symmetric] refl more(2,3) small _ more(5,6)] "1.prems"(3-5) more small show ?thesis
      by (simp add: read_line.simps [of r acc])
  qed
qed

definition ascii_codec :: "json_printer \<Rightarrow> json_parser \<Rightarrow> message \<Rightarrow> bool" where
  "ascii_codec to_string from_str m \<longleftrightarrow>
     fits to_string from_str m \<and> (\<forall>c \<in> set (the (to_string m)). is_ascii c)"

lemma read_message_ascii:
  assumes "ascii_codec to_string from_str m" and "clean r" and "stream r = the (to_string m) @ newline # t"
  shows "\<exists>r'. read_message from_str r = (Inr m, r') \<and> clean r' \<and> stream r' = t"
proof -
  obtain j where j: "to_string m = Some j" "length j < MAX_MESSAGE_SIZE"
    using assms(1) fits_json [of to_string from_str m] by (auto simp: ascii_codec_def)
  have c: "from_str j = Some m" "newline \<notin> set j" "trim_end (j @ [newline]) = j" "\<forall>c \<in> set j. is_ascii c"
    using assms(1) j(1) by (auto simp: ascii_codec_def fits_def codec_ok_def intro: trim_end_newline)
  obtain r' where "read_line r [] = (Inr (j @ [newline]), r')" "clean r'" "stream r' = t"
    using read_line_ascii [OF assms(2), of j t "[]"] assms(3) j c by auto
  then show ?thesis
    using j c by (simp add: read_message_def)
qed

lemma write_messages_framed:
  "tw_up w \<Longrightarrow> list_all (fits to_string from_str) ms \<Longrightarrow>
   write_messages to_string w ms = (Inr (), w\<lparr>tw_out := tw_out w @ framed to_string ms\<rparr>)"
proof (induction ms arbitrary: w)
  case Nil
  then show ?case
    by (simp add: framed_def)
next
  case (Cons m ms)
  from Cons.prems obtain j where "to_string m = Some j" and "length j < MAX_MESSAGE_SIZE"
    by (auto dest: fits_json)
  with Cons show ?case
    by (simp add: framed_def write_message_def write_all_def)
qed

lemma read_messages_framed:
  "list_all (fits to_string from_str) ms \<Longrightarrow> ahead r (framed to_string ms @ t) \<Longrightarrow>
   \<exists>r'. read_messages from_str (length ms) r = (map Inr ms, r') \<and> ahead r' t"
proof (induction ms arbitrary: r)
  case Nil
  then show ?case
    by (simp add: framed_def)
next
  case (Cons m ms)
  from Cons.prems(1) have f: "fits to_string from_str m" and fs: "list_all (fits to_string from_str) ms"
    by simp_all
  obtain j where j: "to_string m = Some j" "length j < MAX_MESSAGE_SIZE"
    using fits_json [OF f] by blast
  have "ahead r (j @ newline # (framed to_string ms @ t))"
    using Cons.prems(2) j by (simp add: framed_def)
  then obtain r1 where "read_message from_str r = (Inr m, r1)" and "ahead r1 (framed to_string ms @ t)"
    using read_message_fits [of to_string from_str m j r] j f unfolding fits_def by blast
  with Cons.IH [OF fs] show ?case
    by fastforce
qed

subsection \<open>Properties\<close>

text \<open>A small printer and parser of two messages, for the concrete instances.\<close>

definition ping_json :: json_printer where
  "ping_json m = (if m = Ping then Some ''{\"type\":\"Ping\"}'' else if m = Pong then Some ''{\"type\":\"Pong\"}'' else None)"

definition ping_parse :: json_parser where
  "ping_parse s = (if s = ''{\"type\":\"Ping\"}'' then Some Ping else if s = ''{\"type\":\"Pong\"}'' then Some Pong else None)"

lemma ping_codec: "fits ping_json ping_parse Ping" "fits ping_json ping_parse Pong"
proof -
  have a: "\<forall>c \<in> set ''{\"type\":\"Ping\"}''. is_ascii c" "\<forall>c \<in> set ''{\"type\":\"Pong\"}''. is_ascii c"
    by (simp_all add: is_ascii_def)
  show "fits ping_json ping_parse Ping" "fits ping_json ping_parse Pong"
    using a [THEN utf8_ok_ascii] a [THEN chars_ascii]
    by (simp_all add: fits_def codec_ok_def ping_json_def ping_parse_def MAX_MESSAGE_SIZE_def
        str_chars_def is_white_ascii)
qed

text \<open>C12. Framing round trip: any list of messages whose JSON fits is written without error, and
  a reader of these bytes returns the same messages in the same order, then the end of the
  stream, however the network cuts the bytes into reads as long as no cut falls inside a
  character.\<close>

theorem framing_roundtrip:
  assumes "list_all (fits to_string from_str) ms" and "tw_up w" and "tw_out w = []"
  shows "\<exists>w'. write_messages to_string w ms = (Inr (), w') \<and>
    (\<forall>r. ahead r (tw_out w') \<longrightarrow>
      (\<exists>r'. read_messages from_str (length ms) r = (map Inr ms, r')
          \<and> fst (read_message from_str r') = Inl ConnectionClosed))"
proof -
  let ?w = "w\<lparr>tw_out := framed to_string ms\<rparr>"
  have "write_messages to_string w ms = (Inr (), ?w)"
    using write_messages_framed [OF assms(2,1)] assms(3) by simp
  moreover have "\<exists>r'. read_messages from_str (length ms) r = (map Inr ms, r')
      \<and> fst (read_message from_str r') = Inl ConnectionClosed"
    if r: "ahead r (tw_out ?w)" for r
  proof -
    have "ahead r (framed to_string ms @ [])"
      using r by simp
    then obtain r' where r': "read_messages from_str (length ms) r = (map Inr ms, r')" and a: "ahead r' []"
      using read_messages_framed [OF assms(1)] by blast
    have "fst (read_line r' []) = Inl ConnectionClosed"
      using a by (intro read_line_eof) (simp_all add: ahead_def)
    then have "fst (read_message from_str r') = Inl ConnectionClosed"
      by (auto simp: read_message_def split: prod.splits)
    with r' show ?thesis
      by blast
  qed
  ultimately show ?thesis
    by blast
qed

text \<open>The instance: a ping and a pong that arrive in three reads.\<close>

definition three_reads :: buf_reader where
  "three_reads = \<lparr>br_buf = [], br_net = [Seg ''{\"type\":'', Seg (''\"Ping\"}'' @ [newline] @ ''{\"ty''),
     Seg (''pe\":\"Pong\"}'' @ [newline])]\<rparr>"

lemma three_reads_ahead: "ahead three_reads (framed ping_json [Ping, Pong])"
  unfolding ahead_def
proof (intro conjI aligned_ascii)
  show "clean three_reads" "stream three_reads = framed ping_json [Ping, Pong]"
    by (simp_all add: three_reads_def clean_def stream_def framed_def ping_json_def)
  show "\<forall>c \<in> set (framed ping_json [Ping, Pong]). is_ascii c"
    by (simp add: framed_def ping_json_def is_ascii_def)
qed

theorem framing_roundtrip_witness:
  "\<exists>r'. read_messages ping_parse 2 three_reads = ([Inr Ping, Inr Pong], r')
      \<and> fst (read_message ping_parse r') = Inl ConnectionClosed"
proof -
  let ?w = "\<lparr>tw_out = [], tw_up = True\<rparr>"
  have f: "list_all (fits ping_json ping_parse) [Ping, Pong]"
    by (simp add: ping_codec)
  have "write_messages ping_json ?w [Ping, Pong] = (Inr (), ?w\<lparr>tw_out := framed ping_json [Ping, Pong]\<rparr>)"
    using write_messages_framed [OF _ f, of ?w] by simp
  with framing_roundtrip [OF f, of ?w] three_reads_ahead show ?thesis
    by (auto simp: numeral_2_eq_2 simp del: read_messages.simps)
qed

text \<open>A line of 65,536 bytes or more before its line feed is rejected as \<open>MessageTooLarge\<close>, is
  drained to its line feed, and the connection stays usable: the messages behind it are
  read as if it had not been there.\<close>

theorem oversize_line_skipped:
  assumes "utf8_ok l" and "newline \<notin> set l" and "65536 \<le> length l"
    and "list_all (fits to_string from_str) ms"
    and "ahead r (l @ newline # framed to_string ms)"
  shows "\<exists>n r'. read_messages from_str (Suc (length ms)) r = (Inl (MessageTooLarge n) # map Inr ms, r') \<and> 65536 < n"
proof -
  obtain n r1 where "read_message from_str r = (Inl (MessageTooLarge n), r1)" and "65536 < n"
    and "ahead r1 (framed to_string ms @ [])"
    using read_message_oversize [OF assms(1,2) _ assms(5), of from_str] assms(3)
    by (auto simp: MAX_MESSAGE_SIZE_def)
  moreover obtain r' where "read_messages from_str (length ms) r1 = (map Inr ms, r')"
    using read_messages_framed [OF assms(4) calculation(3)] by blast
  ultimately show ?thesis
    by auto
qed

lemma replicate_line:
  "utf8_ok (replicate n (CHR ''x''))" "newline \<notin> set (replicate n (CHR ''x''))"
  by (rule utf8_ok_ascii) (auto simp: is_ascii_def)

theorem oversize_line_skipped_witness:
  "\<exists>n r'. read_messages ping_parse 2
        \<lparr>br_buf = [], br_net = [Seg (replicate 70000 (CHR ''x'')), Seg (newline # framed ping_json [Ping])]\<rparr>
      = ([Inl (MessageTooLarge n), Inr Ping], r') \<and> 65536 < n"
proof -
  let ?r = "\<lparr>br_buf = [], br_net = [Seg (replicate 70000 (CHR ''x'')), Seg (newline # framed ping_json [Ping])]\<rparr>"
  have "ahead ?r (replicate 70000 (CHR ''x'') @ newline # framed ping_json [Ping])"
    unfolding ahead_def
  proof (intro conjI aligned_ascii)
    show "\<forall>c \<in> set (replicate 70000 (CHR ''x'') @ newline # framed ping_json [Ping]). is_ascii c"
      by (auto simp: framed_def ping_json_def is_ascii_def)
  qed (simp_all add: clean_def stream_def)
  from oversize_line_skipped [OF replicate_line _ _ this] ping_codec show ?thesis
    by (simp add: numeral_2_eq_2 del: read_messages.simps)
qed

text \<open>The limits of the two sides differ by the line feed: a message whose JSON has exactly
  65,536 bytes is written without error, and no reader ever accepts it.\<close>

theorem largest_message_unreadable:
  assumes "to_string m = Some j" and "utf8_ok j" and "newline \<notin> set j" and "length j = 65536"
  shows "write_message to_string \<lparr>tw_out = [], tw_up = True\<rparr> m = (Inr (), \<lparr>tw_out = j @ [newline], tw_up = True\<rparr>)
    \<and> (\<forall>r t. ahead r (j @ newline # t) \<longrightarrow> (\<exists>n r'. read_message from_str r = (Inl (MessageTooLarge n), r')))"
  using read_message_oversize [OF assms(2,3)] assms(1,4)
  by (fastforce simp: write_message_def write_all_def MAX_MESSAGE_SIZE_def)

theorem largest_message_unreadable_witness:
  "\<exists>j n r'. write_message (\<lambda>m. Some j) \<lparr>tw_out = [], tw_up = True\<rparr> Ping = (Inr (), \<lparr>tw_out = j @ [newline], tw_up = True\<rparr>)
    \<and> read_message ping_parse \<lparr>br_buf = j @ [newline], br_net = []\<rparr> = (Inl (MessageTooLarge n), r')"
proof -
  let ?j = "replicate 65536 (CHR ''x'')"
  let ?r = "\<lparr>br_buf = ?j @ [newline], br_net = []\<rparr>"
  have "ahead ?r (?j @ newline # [])"
    unfolding ahead_def
  proof (intro conjI aligned_ascii)
    show "\<forall>c \<in> set (?j @ newline # []). is_ascii c"
      by (auto simp: is_ascii_def)
  qed (simp_all add: clean_def stream_def)
  with largest_message_unreadable [OF _ replicate_line, of "\<lambda>m. Some ?j" Ping 65536 ping_parse] show ?thesis
    by (intro exI [of _ ?j]) (simp, blast)
qed

text \<open>A message with a character of several bytes that two reads split is lost: the reader checks
  each read for UTF-8 on its own and reports invalid data, although the line is well formed.\<close>

theorem split_character_rejected:
  assumes "utf8_ok (a @ b)" and "\<not> utf8_ok a" and "newline \<notin> set a" and "length a \<le> 65536"
  shows "fst (read_message from_str \<lparr>br_buf = [], br_net = [Seg a, Seg (b @ [newline])]\<rparr>) = Inl (Io InvalidData)"
proof -
  have "a \<noteq> []"
    using assms(2) by (auto simp: utf8_ok_def)
  moreover have "position (\<lambda>c. c = newline) a = None"
    unfolding position_None using assms(3) by auto
  ultimately show ?thesis
    using assms by (simp add: read_message_def read_line.simps fill_buf_def MAX_MESSAGE_SIZE_def)
qed

theorem split_character_rejected_witness:
  "fst (read_message ping_parse \<lparr>br_buf = [],
      br_net = [Seg [CHR ''u'', CHR 0xC3], Seg ([CHR 0xA9] @ [newline])]\<rparr>) = Inl (Io InvalidData)"
proof -
  have "utf8_ok ([CHR ''u'', CHR 0xC3] @ [CHR 0xA9])" and "\<not> utf8_ok [CHR ''u'', CHR 0xC3]"
    by code_simp+
  then show ?thesis
    by (rule split_character_rejected) simp_all
qed

end
