(* ===== verification/HostBrowser.thy ===== *)
theory HostBrowser
  imports Framing
begin

section \<open>Opening URLs in the host browser (src/host/browser.rs)\<close>

text \<open>
  Validation, the sliding-window rate limit and the port rewriting of \<open>BrowserOpener\<close>. Time is
  \<open>Instant\<close> in nanoseconds. The browser process is a parameter: a function from the command
  and the URL to what the process does.
\<close>

definition RATE_LIMIT_PER_SEC :: nat where
  "RATE_LIMIT_PER_SEC = 5"

definition BROWSER_TIMEOUT :: nat where
  "BROWSER_TIMEOUT = 10 * 1000000000"

datatype browser_error =
    Validation url_validation_error
  | RateLimited
  | OpenFailed string
  | BrowserTimeout

definition validate_url :: "string \<Rightarrow> browser_error + unit" where
  "validate_url url = (case validate_open_url url of Inl e \<Rightarrow> Inl (Validation e) | Inr _ \<Rightarrow> Inr ())"

subsection \<open>Rewriting\<close>

text \<open>
  The loop over the three loopback prefixes; the first prefix that matches ends it.
  \<open>before\<close> is the URL up to its authority and \<open>rest\<close> what follows.
\<close>

fun rewrite_hosts :: "string list \<Rightarrow> string \<Rightarrow> string \<Rightarrow> (u16, u16) hashmap \<Rightarrow> string option" where
  "rewrite_hosts [] before rest port_map = None"
| "rewrite_hosts (host_prefix # prefixes) before rest port_map =
     (if \<not> starts_with (to_ascii_lowercase rest) host_prefix
      then rewrite_hosts prefixes before rest port_map
      else
        (let after_host = drop (length host_prefix) rest;
             port_str = takeWhile is_ascii_digit after_host
         in case parse_u16 port_str of
              None \<Rightarrow> None
            | Some port \<Rightarrow>
                (case hm_get port_map port of
                   None \<Rightarrow> None
                 | Some host_port \<Rightarrow>
                     Some (before @ take (length host_prefix) rest @ show_nat (unat host_port)
                           @ drop (length port_str) after_host))))"

definition loopback_prefixes :: "string list" where
  "loopback_prefixes = [''localhost:'', ''127.0.0.1:'', ''[::1]:'']"

definition rewrite_url :: "string \<Rightarrow> (u16, u16) hashmap \<Rightarrow> string" where
  "rewrite_url url port_map =
     (case find_sub ''://'' url of
        None \<Rightarrow> url
      | Some p \<Rightarrow>
          let scheme_end = p + 3 in
          if port_map = [] then url
          else (case rewrite_hosts loopback_prefixes (take scheme_end url) (drop scheme_end url) port_map of
                  None \<Rightarrow> url
                | Some rewritten \<Rightarrow> rewritten))"

subsection \<open>The opener\<close>

record browser_opener =
  bo_port_map :: "(u16, u16) hashmap"
  bo_recent_opens :: "nat list"
  bo_browser_cmd :: "string option"

definition browser_new :: browser_opener where
  "browser_new = \<lparr>bo_port_map = [], bo_recent_opens = [], bo_browser_cmd = None\<rparr>"

definition browser_with_cmd :: "string option \<Rightarrow> browser_opener" where
  "browser_with_cmd cmd = \<lparr>bo_port_map = [], bo_recent_opens = [], bo_browser_cmd = cmd\<rparr>"

definition add_port_mapping :: "u16 \<Rightarrow> u16 \<Rightarrow> browser_opener \<Rightarrow> browser_opener" where
  "add_port_mapping container_port host_port b =
     b\<lparr>bo_port_map := hm_insert container_port host_port (bo_port_map b)\<rparr>"

definition remove_port_mapping :: "u16 \<Rightarrow> browser_opener \<Rightarrow> browser_opener" where
  "remove_port_mapping container_port b = b\<lparr>bo_port_map := hm_remove container_port (bo_port_map b)\<rparr>"

text \<open>\<open>now.duration_since(t).as_secs() >= 1\<close>; the duration is zero when \<open>t\<close> is later.\<close>

definition expired :: "nat \<Rightarrow> nat \<Rightarrow> bool" where
  "expired now t \<longleftrightarrow> (now - t) div 1000000000 \<ge> 1"

fun pop_expired :: "nat \<Rightarrow> nat list \<Rightarrow> nat list" where
  "pop_expired now [] = []"
| "pop_expired now (t # ts) = (if expired now t then pop_expired now ts else t # ts)"

definition prepare ::
  "nat \<Rightarrow> browser_opener \<Rightarrow> string \<Rightarrow> (browser_error + string \<times> string option) \<times> browser_opener" where
  "prepare now b url =
     (case validate_url url of
        Inl e \<Rightarrow> (Inl e, b)
      | Inr _ \<Rightarrow>
          let b1 = b\<lparr>bo_recent_opens := pop_expired now (bo_recent_opens b)\<rparr> in
          if length (bo_recent_opens b1) \<ge> RATE_LIMIT_PER_SEC then (Inl RateLimited, b1)
          else
            let b2 = b1\<lparr>bo_recent_opens := bo_recent_opens b1 @ [now]\<rparr>
            in (Inr (rewrite_url url (bo_port_map b2), bo_browser_cmd b2), b2))"

text \<open>
  What the browser process does with a command and a URL: it cannot be started, it exits
  after so many nanoseconds with success or not, or it never exits.
\<close>

datatype process = SpawnFails | ExitsAfter nat bool | NeverExits

type_synonym os_run = "string \<Rightarrow> string \<Rightarrow> process"

definition browser_command :: "bool \<Rightarrow> string option \<Rightarrow> string" where
  "browser_command macos browser_cmd =
     (case browser_cmd of Some c \<Rightarrow> c | None \<Rightarrow> if macos then ''open'' else ''xdg-open'')"

definition open_in_browser :: "os_run \<Rightarrow> bool \<Rightarrow> string \<Rightarrow> string option \<Rightarrow> (browser_error + unit) option" where
  "open_in_browser run macos url browser_cmd =
     (let cmd = browser_command macos browser_cmd in
      case run cmd url of
        SpawnFails \<Rightarrow> Some (Inl (OpenFailed cmd))
      | ExitsAfter t success \<Rightarrow> Some (if success then Inr () else Inl (OpenFailed cmd))
      | NeverExits \<Rightarrow> None)"

definition process_time :: "process \<Rightarrow> nat option" where
  "process_time p = (case p of SpawnFails \<Rightarrow> Some 0 | ExitsAfter t _ \<Rightarrow> Some t | NeverExits \<Rightarrow> None)"

definition launch :: "os_run \<Rightarrow> bool \<Rightarrow> string \<Rightarrow> string option \<Rightarrow> browser_error + unit" where
  "launch run macos url browser_cmd =
     (case (open_in_browser run macos url browser_cmd,
            process_time (run (browser_command macos browser_cmd) url)) of
        (Some r, Some t) \<Rightarrow> if t < BROWSER_TIMEOUT then r else Inl BrowserTimeout
      | _ \<Rightarrow> Inl BrowserTimeout)"

text \<open>\<open>BrowserOpener::open\<close>.\<close>

definition browser_open ::
  "os_run \<Rightarrow> bool \<Rightarrow> nat \<Rightarrow> browser_opener \<Rightarrow> string \<Rightarrow> (browser_error + unit) \<times> browser_opener" where
  "browser_open run macos now b url =
     (case prepare now b url of
        (Inl e, b1) \<Rightarrow> (Inl e, b1)
      | (Inr (rewritten, cmd), b1) \<Rightarrow> (launch run macos rewritten cmd, b1))"

subsection \<open>What rewriting changes\<close>

text \<open>A rewrite replaces the digits after one loopback prefix by a mapped host port.\<close>

definition rewrites_to :: "(u16, u16) hashmap \<Rightarrow> string \<Rightarrow> string \<Rightarrow> bool" where
  "rewrites_to m url url' \<longleftrightarrow>
     (\<exists>scheme host digits suffix p hp. url = scheme @ ''://'' @ host @ digits @ suffix
        \<and> to_ascii_lowercase host \<in> set loopback_prefixes
        \<and> parse_u16 digits = Some p \<and> (\<forall>c \<in> set digits. is_ascii_digit c)
        \<and> (suffix = [] \<or> \<not> is_ascii_digit (hd suffix)) \<and> hm_get m p = Some hp
        \<and> url' = scheme @ ''://'' @ host @ show_nat (unat hp) @ suffix)"

lemma starts_with_lower:
  assumes "starts_with (to_ascii_lowercase s) p"
  shows "to_ascii_lowercase (take (length p) s) = p" and "length p \<le> length s"
  using assms starts_with_length [OF assms] by (simp_all add: starts_with_take to_ascii_lowercase_def take_map)

lemma rewrite_hosts_Some:
  "rewrite_hosts ps before rest m = Some r \<Longrightarrow>
   \<exists>h ds suf p hp. rest = h @ ds @ suf \<and> to_ascii_lowercase h \<in> set ps \<and> parse_u16 ds = Some p
     \<and> (\<forall>c \<in> set ds. is_ascii_digit c) \<and> (suf = [] \<or> \<not> is_ascii_digit (hd suf))
     \<and> hm_get m p = Some hp \<and> r = before @ h @ show_nat (unat hp) @ suf"
proof (induction ps before rest m rule: rewrite_hosts.induct)
  case (2 hp0 ps before rest m)
  show ?case
  proof (cases "starts_with (to_ascii_lowercase rest) hp0")
    case False
    then have "rewrite_hosts ps before rest m = Some r"
      using 2(2) by simp
    from 2(1) [OF False this] show ?thesis
      by (simp only: list.set insert_iff) blast
  next
    case True
    let ?h = "take (length hp0) rest" and ?a = "drop (length hp0) rest"
    let ?ds = "takeWhile is_ascii_digit ?a" and ?suf = "dropWhile is_ascii_digit ?a"
    from 2(2) True obtain p hp where "parse_u16 ?ds = Some p" and "hm_get m p = Some hp"
      and "r = before @ ?h @ show_nat (unat hp) @ drop (length ?ds) ?a"
      by (auto simp: Let_def split: option.splits)
    moreover have "rest = ?h @ ?ds @ ?suf"
      by (simp only: takeWhile_dropWhile_id append_take_drop_id)
    moreover have "\<forall>c \<in> set ?ds. is_ascii_digit c" and "?suf = [] \<or> \<not> is_ascii_digit (hd ?suf)"
      using hd_dropWhile [of is_ascii_digit ?a] by (auto dest: set_takeWhileD)
    ultimately show ?thesis
      using starts_with_lower(1) [OF True]
      by (intro exI [of _ ?h] exI [of _ ?ds] exI [of _ ?suf] exI [of _ p] exI [of _ hp])
        (simp add: dropWhile_eq_drop)
  qed
qed simp

lemma rewrite_url_cases: "rewrite_url url m = url \<or> rewrites_to m url (rewrite_url url m)"
proof (cases "rewrite_url url m = url")
  case False
  then obtain i where i: "find_sub ''://'' url = Some i"
    and r: "rewrite_hosts loopback_prefixes (take (i + 3) url) (drop (i + 3) url) m = Some (rewrite_url url m)"
    by (auto simp: rewrite_url_def Let_def split: option.splits if_splits)
  have "take 3 (drop i url) = ''://''"
    using find_sub_Some [OF i] by (simp add: starts_with_take numeral_3_eq_3)
  then have s: "take (i + 3) url = take i url @ ''://''"
    by (simp only: take_add)
  obtain h ds suf p hp where "drop (i + 3) url = h @ ds @ suf" "to_ascii_lowercase h \<in> set loopback_prefixes"
    "parse_u16 ds = Some p" "\<forall>c \<in> set ds. is_ascii_digit c" "suf = [] \<or> \<not> is_ascii_digit (hd suf)"
    "hm_get m p = Some hp" "rewrite_url url m = take (i + 3) url @ h @ show_nat (unat hp) @ suf"
    using rewrite_hosts_Some [OF r] by blast
  moreover have "url = take (i + 3) url @ h @ ds @ suf"
    using calculation(1) by (metis append_take_drop_id)
  ultimately have "rewrites_to m url (rewrite_url url m)"
    unfolding rewrites_to_def s
    by (intro exI [of _ "take i url"] exI [of _ h] exI [of _ ds] exI [of _ suf] exI [of _ p] exI [of _ hp]) simp
  then show ?thesis ..
qed simp

lemma show_u16_length: "length (show_nat (unat (p :: u16))) \<le> 5"
proof -
  have "unat p < 10 ^ Suc 4"
    using unsigned_less [of p, where ?'a = nat] by simp
  from show_nat_length [OF this] show ?thesis
    by simp
qed

lemma starts_with_same: "starts_with (p @ s) q \<Longrightarrow> length q \<le> length p \<Longrightarrow> starts_with (p @ t) q"
  by (simp add: starts_with_take)

lemma starts_with_http:
  "8 \<le> length p \<Longrightarrow> starts_with (p @ s) ''http://'' \<or> starts_with (p @ s) ''https://'' \<Longrightarrow>
   starts_with (p @ t) ''http://'' \<or> starts_with (p @ t) ''https://''"
  using starts_with_same [of p s "''http://''" t] starts_with_same [of p s "''https://''" t] by auto

lemma loopback_length: "to_ascii_lowercase h \<in> set loopback_prefixes \<Longrightarrow> 6 \<le> length h"
  by (auto simp: loopback_prefixes_def dest: arg_cong [of _ _ length])

lemma rewrites_to_safe:
  assumes "rewrites_to m url url'" and "validate_open_url url = Inr ()"
  shows "\<forall>c \<in> set url'. \<not> is_ascii_control c"
    and "starts_with (to_ascii_lowercase url') ''http://'' \<or> starts_with (to_ascii_lowercase url') ''https://''"
    and "length url' \<le> 2052"
proof -
  obtain scheme host digits suffix p hp where u: "url = scheme @ ''://'' @ host @ digits @ suffix"
    and h: "to_ascii_lowercase host \<in> set loopback_prefixes" and d: "parse_u16 digits = Some p"
    and u': "url' = scheme @ ''://'' @ host @ show_nat (unat (hp :: u16)) @ suffix"
    using assms(1) unfolding rewrites_to_def by (elim exE conjE) (rule that, assumption+)
  have len: "length url \<le> 2048" and ctl: "\<forall>c \<in> set url. \<not> is_ascii_control c"
    and sch: "starts_with (to_ascii_lowercase url) ''http://'' \<or> starts_with (to_ascii_lowercase url) ''https://''"
    using assms(2) by (simp_all add: validate_open_url_ok)
  have "\<forall>c \<in> set (show_nat (unat hp)). \<not> is_ascii_control c"
    using show_nat_digits [of "unat hp"] by (auto simp: is_ascii_digit_def is_ascii_control_def)
  then show "\<forall>c \<in> set url'. \<not> is_ascii_control c"
    using ctl by (auto simp: u u')
  have "digits \<noteq> []"
    using d by (auto simp: parse_u16_def from_str_radix_def)
  then show "length url' \<le> 2052"
    using len show_u16_length [of hp] by (cases digits) (simp_all add: u u')
  let ?p = "to_ascii_lowercase (scheme @ ''://'' @ host)"
  have eq: "to_ascii_lowercase url = ?p @ to_ascii_lowercase (digits @ suffix)"
    "to_ascii_lowercase url' = ?p @ to_ascii_lowercase (show_nat (unat hp) @ suffix)"
    by (simp_all only: u u' to_ascii_lowercase_def map_append append.assoc)
  have "8 \<le> length ?p"
    using loopback_length [OF h] by simp
  then show "starts_with (to_ascii_lowercase url') ''http://'' \<or> starts_with (to_ascii_lowercase url') ''https://''"
    using sch unfolding eq by (rule starts_with_http)
qed

subsection \<open>The rate limit\<close>

text \<open>Requests in order, each with the instant at which \<open>prepare\<close> reads the clock.\<close>

fun prepare_all :: "browser_opener \<Rightarrow> (nat \<times> string) list \<Rightarrow> nat list \<times> browser_opener" where
  "prepare_all b [] = ([], b)"
| "prepare_all b ((now, url) # reqs) =
     (case prepare now b url of
        (Inl e, b1) \<Rightarrow> prepare_all b1 reqs
      | (Inr _, b1) \<Rightarrow> (case prepare_all b1 reqs of (ts, b2) \<Rightarrow> (now # ts, b2)))"

text \<open>
  The accepted instants \<open>acc\<close> end with the queue of the opener, and what is no longer in the
  queue was a second old when it left.
\<close>

definition window_ok :: "nat \<Rightarrow> nat list \<Rightarrow> nat list \<Rightarrow> bool" where
  "window_ok now acc q \<longleftrightarrow> length q \<le> 5 \<and> (\<exists>old. acc = old @ q \<and> (\<forall>t \<in> set old. t + 1000000000 \<le> now))
     \<and> (\<forall>t \<in> set acc. t \<le> now)"

definition in_window :: "nat \<Rightarrow> nat list \<Rightarrow> nat list" where
  "in_window t ts = filter (\<lambda>a. t \<le> a \<and> a < t + 1000000000) ts"

lemma expired_iff: "expired now t \<longleftrightarrow> t + 1000000000 \<le> now"
  by (auto simp: expired_def div_greater_zero_iff simp flip: Suc_le_eq)

lemma pop_expired_split: "\<exists>old. q = old @ pop_expired now q \<and> (\<forall>t \<in> set old. t + 1000000000 \<le> now)"
proof (induction q)
  case (Cons t q)
  then obtain old where o: "q = old @ pop_expired now q" "\<forall>t \<in> set old. t + 1000000000 \<le> now"
    by blast
  show ?case
  proof (cases "expired now t")
    case True
    with o show ?thesis
      by (intro exI [of _ "t # old"]) (simp add: expired_iff)
  qed simp
qed simp

lemma pop_expired_window:
  assumes "window_ok t acc q" and "t \<le> now"
  shows "window_ok now acc (pop_expired now q)"
proof -
  obtain old where "acc = old @ q" "\<forall>x \<in> set old. x + 1000000000 \<le> t"
    using assms(1) by (auto simp: window_ok_def)
  moreover obtain old' where o: "q = old' @ pop_expired now q" "\<forall>x \<in> set old'. x + 1000000000 \<le> now"
    using pop_expired_split by blast
  moreover have "length (pop_expired now q) \<le> length q"
    using o(1) by (metis le_add2 length_append)
  ultimately have "acc = (old @ old') @ pop_expired now q" and "\<forall>x \<in> set (old @ old'). x + 1000000000 \<le> now"
    using assms(2) by (auto intro: order_trans)
  then show ?thesis
    using assms \<open>length (pop_expired now q) \<le> length q\<close> unfolding window_ok_def by (blast intro: order_trans)
qed

lemma prepare_queue:
  "prepare now b url = (r, b1) \<Longrightarrow>
     (bo_recent_opens b1 = bo_recent_opens b \<and> isl r)
   \<or> (bo_recent_opens b1 = pop_expired now (bo_recent_opens b) \<and> isl r \<and> 5 \<le> length (bo_recent_opens b1))
   \<or> (bo_recent_opens b1 = pop_expired now (bo_recent_opens b) @ [now] \<and> \<not> isl r
      \<and> length (pop_expired now (bo_recent_opens b)) < 5)"
  by (auto simp: prepare_def Let_def RATE_LIMIT_PER_SEC_def split: sum.splits if_splits)

lemma window_accept:
  assumes "window_ok now acc q" and "length q < 5" and "\<forall>t. length (in_window t acc) \<le> 5"
  shows "window_ok now (acc @ [now]) (q @ [now])" and "length (in_window t (acc @ [now])) \<le> 5"
proof -
  obtain old where o: "acc = old @ q" "\<forall>x \<in> set old. x + 1000000000 \<le> now"
    using assms(1) by (auto simp: window_ok_def)
  then show "window_ok now (acc @ [now]) (q @ [now])"
    using assms(1,2) by (auto simp: window_ok_def)
  show "length (in_window t (acc @ [now])) \<le> 5"
  proof (cases "t \<le> now \<and> now < t + 1000000000")
    case True
    then have "in_window t old = []"
      using o(2) by (fastforce simp: in_window_def filter_empty_conv)
    then have "in_window t acc = in_window t q"
      by (simp add: o(1) in_window_def)
    moreover have "length (in_window t q) \<le> length q"
      unfolding in_window_def by (rule length_filter_le)
    moreover have "length (in_window t (acc @ [now])) \<le> length (in_window t acc) + 1"
      by (simp add: in_window_def)
    ultimately show ?thesis
      using assms(2) by simp
  next
    case False
    then have "in_window t (acc @ [now]) = in_window t acc"
      by (auto simp: in_window_def)
    then show ?thesis
      using assms(3) by simp
  qed
qed

lemma prepare_all_window:
  "sorted (map fst reqs) \<Longrightarrow> \<forall>r \<in> set reqs. now \<le> fst r \<Longrightarrow> window_ok now acc (bo_recent_opens b) \<Longrightarrow>
   \<forall>t. length (in_window t acc) \<le> 5 \<Longrightarrow> length (in_window t (acc @ fst (prepare_all b reqs))) \<le> 5"
proof (induction b reqs arbitrary: now acc rule: prepare_all.induct)
  case (2 b n url reqs)
  obtain r b1 where p: "prepare n b url = (r, b1)"
    by fastforce
  have le: "\<forall>r \<in> set reqs. n \<le> fst r" and s: "sorted (map fst reqs)" and n: "now \<le> n"
    using "2.prems" by auto
  have w: "window_ok n acc (bo_recent_opens b)"
    using "2.prems"(3) n by (auto simp: window_ok_def intro: order_trans)
  have w': "window_ok n acc (pop_expired n (bo_recent_opens b))"
    using pop_expired_window [OF w] by simp
  show ?case
  proof (cases r)
    case (Inl e)
    then have "window_ok n acc (bo_recent_opens b1)"
      using prepare_queue [OF p] w w' by auto
    with "2.IH"(1) [OF p [symmetric] Inl s le this "2.prems"(4)] show ?thesis
      by (simp add: p Inl)
  next
    case (Inr a)
    then have q: "bo_recent_opens b1 = pop_expired n (bo_recent_opens b) @ [n]"
      and l: "length (pop_expired n (bo_recent_opens b)) < 5"
      using prepare_queue [OF p] by auto
    have "window_ok n (acc @ [n]) (bo_recent_opens b1)" and "\<forall>t. length (in_window t (acc @ [n])) \<le> 5"
      using window_accept [OF w' l "2.prems"(4)] by (simp_all add: q)
    with "2.IH"(2) [OF p [symmetric] Inr s le, of "acc @ [n]"] show ?thesis
      by (cases "prepare_all b1 reqs") (simp add: p Inr)
  qed
qed simp

subsection \<open>Properties\<close>

text \<open>C34. Rate limit: whatever URLs are requested, in whatever order and however fast, the host opens
  at most five in any period of one second.\<close>

theorem browser_rate_limit:
  assumes "sorted (map fst reqs)"
  shows "length (filter (\<lambda>a. t \<le> a \<and> a < t + 1000000000) (fst (prepare_all (browser_with_cmd cmd) reqs))) \<le> 5"
  using prepare_all_window [OF assms, of 0 "[]" "browser_with_cmd cmd" t]
  by (simp add: window_ok_def in_window_def browser_with_cmd_def)

theorem browser_rate_limit_witness:
  "length (filter (\<lambda>a. 100 \<le> a \<and> a < 100 + 1000000000)
     (fst (prepare_all (browser_with_cmd None) (map (\<lambda>n. (200 * n, ''http://localhost:3000/'')) [0..<20])))) \<le> 5"
  by (rule browser_rate_limit) (simp add: upt_rec)

text \<open>C35. What \<open>prepare\<close> returns is safe to open and is the request up to the port: an http or https
  URL without control characters, at most four bytes over the length limit, that equals
  the request or differs only in the port after a loopback host, which is a forwarded
  container port replaced by its host port.\<close>

theorem prepare_safe:
  assumes "prepare now b url = (Inr (target, cmd), b')"
  shows "(\<forall>c \<in> set target. \<not> is_ascii_control c)
    \<and> (starts_with (to_ascii_lowercase target) ''http://'' \<or> starts_with (to_ascii_lowercase target) ''https://'')
    \<and> length target \<le> 2052
    \<and> (target = url \<or> rewrites_to (bo_port_map b) url target)
    \<and> cmd = bo_browser_cmd b"
proof -
  have v: "validate_open_url url = Inr ()" and t: "target = rewrite_url url (bo_port_map b)" and c: "cmd = bo_browser_cmd b"
    using assms by (auto simp: prepare_def validate_url_def Let_def split: sum.splits if_splits)
  show ?thesis
    using rewrite_url_cases [of url "bo_port_map b"]
  proof (elim disjE)
    assume "rewrite_url url (bo_port_map b) = url"
    with v c t show ?thesis
      by (simp add: validate_open_url_ok)
  next
    assume r: "rewrites_to (bo_port_map b) url (rewrite_url url (bo_port_map b))"
    with rewrites_to_safe [OF r v] c t show ?thesis
      by blast
  qed
qed

theorem prepare_safe_witness:
  "prepare 7 (add_port_mapping 3000 3001 browser_new) ''HTTP://Localhost:3000/cb''
     = (Inr (''HTTP://Localhost:3001/cb'', None), \<lparr>bo_port_map = [(3000, 3001)], bo_recent_opens = [7], bo_browser_cmd = None\<rparr>)
   \<and> length ''HTTP://Localhost:3001/cb'' \<le> 2052"
proof -
  have "prepare 7 (add_port_mapping 3000 3001 browser_new) ''HTTP://Localhost:3000/cb''
     = (Inr (''HTTP://Localhost:3001/cb'', None), \<lparr>bo_port_map = [(3000, 3001)], bo_recent_opens = [7], bo_browser_cmd = None\<rparr>)"
    by (simp add: prepare_def validate_url_def validate_open_url_def MAX_URL_LENGTH_def is_ascii_control_def
        to_ascii_lowercase_def ascii_lower_def add_port_mapping_def browser_new_def RATE_LIMIT_PER_SEC_def
        rewrite_url_def loopback_prefixes_def is_ascii_digit_def parse_u16_def from_str_radix_def digit_val_def
        show_nat.simps char_of_def bit_0)
  with prepare_safe [OF this] show ?thesis
    by blast
qed

end
