(* ===== verification/Pending.thy ===== *)
theory Pending
  imports HostBrowser
begin

section \<open>Pending reverse connections (src/host/proxy.rs)\<close>

text \<open>
  The table that matches a client waiting for its reverse data connection with the
  connection that announces itself by \<open>ConnectReady\<close>. A \<open>oneshot\<close> channel of tokio is one
  slot with its two ends: \<open>send\<close> fails when the receiver is gone, the receiver sees an error
  when the sender is dropped without a value. The table keeps the senders, as numbers of
  channels of an explicit store.
\<close>

definition CONNECT_TIMEOUT :: nat where
  "CONNECT_TIMEOUT = 10 * 1000000000"

definition EARLY_DATA_GRACE_PERIOD :: nat where
  "EARLY_DATA_GRACE_PERIOD = 1000000000"

definition EARLY_DATA_RETRY_INTERVAL :: nat where
  "EARLY_DATA_RETRY_INTERVAL = 10 * 1000000"

definition MAX_PENDING :: nat where
  "MAX_PENDING = 1024"

datatype proxy_error =
    ConnectTimeout string nat
  | ProxyConnectFailed string string
  | ProxyIo string io_error

text \<open>The stream is the socket it came on; the bytes are what was read beyond the handshake.\<close>

record data_stream =
  ds_stream :: nat
  ds_buffered :: bytes

record oneshot =
  os_value :: "data_stream option"
  os_tx :: bool
  os_rx :: bool

definition oneshot_new :: oneshot where
  "oneshot_new = \<lparr>os_value = None, os_tx = True, os_rx = True\<rparr>"

record pending_connections =
  pc_map :: "(string, nat) hashmap"
  pc_chan :: "nat \<Rightarrow> oneshot"
  pc_next :: nat

definition new_pending_connections :: pending_connections where
  "new_pending_connections =
     \<lparr>pc_map = [], pc_chan = (\<lambda>_. \<lparr>os_value = None, os_tx = False, os_rx = False\<rparr>), pc_next = 0\<rparr>"

definition is_closed :: "pending_connections \<Rightarrow> nat \<Rightarrow> bool" where
  "is_closed p ch \<longleftrightarrow> \<not> os_rx (pc_chan p ch)"

definition drop_senders :: "nat list \<Rightarrow> pending_connections \<Rightarrow> pending_connections" where
  "drop_senders chs p =
     p\<lparr>pc_chan := (\<lambda>ch. if ch \<in> set chs then (pc_chan p ch)\<lparr>os_tx := False\<rparr> else pc_chan p ch)\<rparr>"

text \<open>Dropping the receiver; a value in the channel is dropped with it.\<close>

definition drop_receiver :: "nat \<Rightarrow> pending_connections \<Rightarrow> pending_connections" where
  "drop_receiver ch p = p\<lparr>pc_chan := (pc_chan p)(ch := (pc_chan p ch)\<lparr>os_rx := False, os_value := None\<rparr>)\<rparr>"

definition retain_open :: "pending_connections \<Rightarrow> pending_connections" where
  "retain_open p =
     (drop_senders (hm_values (filter (\<lambda>(_, ch). is_closed p ch) (pc_map p))) p)
       \<lparr>pc_map := filter (\<lambda>(_, ch). \<not> is_closed p ch) (pc_map p)\<rparr>"

definition insert_sender :: "string \<Rightarrow> pending_connections \<Rightarrow> nat \<times> pending_connections" where
  "insert_sender conn_id p =
     (let ch = pc_next p;
          old = (case hm_get (pc_map p) conn_id of Some ch' \<Rightarrow> [ch'] | None \<Rightarrow> []);
          p1 = drop_senders old p
      in (ch, p1\<lparr>pc_map := hm_insert conn_id ch (pc_map p1), pc_chan := (pc_chan p1)(ch := oneshot_new),
                 pc_next := Suc ch\<rparr>))"

definition register_pending :: "string \<Rightarrow> pending_connections \<Rightarrow> nat option \<times> pending_connections" where
  "register_pending conn_id p =
     (if length (pc_map p) \<ge> MAX_PENDING then
        (let p1 = retain_open p in
         if length (pc_map p1) \<ge> MAX_PENDING then (None, p1)
         else (case insert_sender conn_id p1 of (rx, p2) \<Rightarrow> (Some rx, p2)))
      else (case insert_sender conn_id p of (rx, p2) \<Rightarrow> (Some rx, p2)))"

text \<open>\<open>tx.send(data)\<close>, which consumes the sender.\<close>

definition oneshot_send :: "nat \<Rightarrow> data_stream \<Rightarrow> pending_connections \<Rightarrow> bool \<times> pending_connections" where
  "oneshot_send ch data p =
     (if os_rx (pc_chan p ch)
      then (True, p\<lparr>pc_chan := (pc_chan p)(ch := (pc_chan p ch)\<lparr>os_value := Some data, os_tx := False\<rparr>)\<rparr>)
      else (False, p\<lparr>pc_chan := (pc_chan p)(ch := (pc_chan p ch)\<lparr>os_tx := False\<rparr>)\<rparr>))"

definition take_sender :: "string \<Rightarrow> pending_connections \<Rightarrow> nat option \<times> pending_connections" where
  "take_sender conn_id p =
     (hm_get (pc_map p) conn_id, p\<lparr>pc_map := hm_remove conn_id (pc_map p)\<rparr>)"

definition resolve_pending :: "string \<Rightarrow> data_stream \<Rightarrow> pending_connections \<Rightarrow> bool \<times> pending_connections" where
  "resolve_pending conn_id data p =
     (case take_sender conn_id p of
        (Some tx, p1) \<Rightarrow> oneshot_send tx data p1
      | (None, p1) \<Rightarrow> (False, p1))"

definition cancel_pending :: "string \<Rightarrow> pending_connections \<Rightarrow> pending_connections" where
  "cancel_pending conn_id p =
     (case take_sender conn_id p of
        (Some tx, p1) \<Rightarrow> drop_senders [tx] p1
      | (None, p1) \<Rightarrow> p1)"

text \<open>
  The loop of \<open>resolve_pending_with_grace\<close>: poll \<open>i\<close> happens at instant \<open>now\<close>; a sleep of ten
  milliseconds lasts \<open>late i\<close> longer than asked, and the other tasks change the table by
  \<open>others i\<close> meanwhile. The result also says after how many sleeps it was reached.
\<close>

function grace_loop ::
  "(nat \<Rightarrow> pending_connections \<Rightarrow> pending_connections) \<Rightarrow> (nat \<Rightarrow> nat) \<Rightarrow> nat \<Rightarrow> nat \<Rightarrow> nat \<Rightarrow> string
   \<Rightarrow> data_stream \<Rightarrow> pending_connections \<Rightarrow> nat \<times> bool \<times> pending_connections" where
  "grace_loop others late i now deadline conn_id data p =
     (case take_sender conn_id p of
        (Some tx, p1) \<Rightarrow> (i, oneshot_send tx data p1)
      | (None, p1) \<Rightarrow>
          if now \<ge> deadline then (i, False, p1)
          else grace_loop others late (Suc i) (now + EARLY_DATA_RETRY_INTERVAL + late i) deadline conn_id data (others i p1))"
  by pat_completeness auto
termination
  by (relation "measure (\<lambda>(others, late, i, now, deadline, conn_id, data, p). deadline - now)")
    (auto simp: EARLY_DATA_RETRY_INTERVAL_def)

declare grace_loop.simps [simp del]

definition resolve_pending_with_grace ::
  "(nat \<Rightarrow> pending_connections \<Rightarrow> pending_connections) \<Rightarrow> (nat \<Rightarrow> nat) \<Rightarrow> nat \<Rightarrow> string
   \<Rightarrow> data_stream \<Rightarrow> pending_connections \<Rightarrow> nat \<times> bool \<times> pending_connections" where
  "resolve_pending_with_grace others late now conn_id data p =
     grace_loop others late 0 now (now + EARLY_DATA_GRACE_PERIOD) conn_id data p"

text \<open>
  \<open>bridge_connection\<close> after its wait: the receiver got the data stream, saw its sender
  dropped, or ran into the timeout. The client is the bytes written to it and whether it can
  be written to; \<open>copy_bidirectional\<close> of tokio is a parameter that says, for a data socket,
  what it copies in each direction or how it fails.
\<close>

datatype waited = Delivered data_stream | SenderDropped | TimedOutWaiting

type_synonym copy = "nat \<Rightarrow> io_error + bytes \<times> bytes"

definition bridge_connection ::
  "copy \<Rightarrow> string \<Rightarrow> tcp_writer \<Rightarrow> waited \<Rightarrow> pending_connections
   \<Rightarrow> (proxy_error + nat \<times> nat) \<times> tcp_writer \<times> pending_connections" where
  "bridge_connection copy_bidirectional conn_id client w p =
     (case w of
        Delivered d \<Rightarrow>
          let pre_read = length (ds_buffered d) in
          (case (if ds_buffered d = [] then (Inr (), client) else write_all (ds_buffered d) client) of
             (Inl e, client1) \<Rightarrow> (Inl (ProxyIo conn_id e), client1, p)
           | (Inr _, client1) \<Rightarrow>
               (case copy_bidirectional (ds_stream d) of
                  Inl e \<Rightarrow> (Inl (ProxyIo conn_id e), client1, p)
                | Inr (to_container, to_client) \<Rightarrow>
                    (Inr (length to_container, length to_client + pre_read),
                     client1\<lparr>tw_out := tw_out client1 @ to_client\<rparr>, p)))
      | SenderDropped \<Rightarrow>
          (Inl (ProxyConnectFailed conn_id ''pending connection cancelled''), client, cancel_pending conn_id p)
      | TimedOutWaiting \<Rightarrow>
          (Inl (ConnectTimeout conn_id (CONNECT_TIMEOUT div 1000000000)), client, cancel_pending conn_id p))"

text \<open>What the receiver of a channel sees when it is polled; \<open>None\<close> is still waiting.\<close>

definition poll_receiver :: "nat \<Rightarrow> pending_connections \<Rightarrow> waited option" where
  "poll_receiver ch p =
     (case os_value (pc_chan p ch) of
        Some d \<Rightarrow> Some (Delivered d)
      | None \<Rightarrow> if os_tx (pc_chan p ch) then None else Some SenderDropped)"

subsection \<open>The rendezvous: traces of the table\<close>

datatype pending_op =
    OpRegister string
  | OpResolve string data_stream
  | OpCancel string
  | OpDropReceiver nat

datatype pending_event =
    Registered string nat
  | Rejected string
  | Resolved string data_stream bool
  | Cancelled string
  | ReceiverDropped nat
  | NoChannel nat

fun pending_step :: "pending_op \<Rightarrow> pending_connections \<Rightarrow> pending_event \<times> pending_connections" where
  "pending_step (OpRegister c) p =
     (case register_pending c p of (Some ch, p1) \<Rightarrow> (Registered c ch, p1) | (None, p1) \<Rightarrow> (Rejected c, p1))"
| "pending_step (OpResolve c d) p = (case resolve_pending c d p of (ok, p1) \<Rightarrow> (Resolved c d ok, p1))"
| "pending_step (OpCancel c) p = (Cancelled c, cancel_pending c p)"
| "pending_step (OpDropReceiver ch) p =
     (if ch < pc_next p then (ReceiverDropped ch, drop_receiver ch p) else (NoChannel ch, p))"

fun pending_run :: "pending_op list \<Rightarrow> pending_connections \<Rightarrow> pending_event list \<times> pending_connections" where
  "pending_run [] p = ([], p)"
| "pending_run (op # ops) p =
     (case pending_step op p of (ev, p1) \<Rightarrow> (case pending_run ops p1 of (evs, p2) \<Rightarrow> (ev # evs, p2)))"

text \<open>
  The specification reads everything off the trace, newest event first. The current
  registration of an id is its last one that has not been resolved or cancelled since, and a
  channel ends as the first event says that met it while it was current.
\<close>

fun current :: "pending_event list \<Rightarrow> string \<Rightarrow> nat option" where
  "current [] c = None"
| "current (Registered c' ch # evs) c = (if c' = c then Some ch else current evs c)"
| "current (Resolved c' d ok # evs) c = (if c' = c then None else current evs c)"
| "current (Cancelled c' # evs) c = (if c' = c then None else current evs c)"
| "current (e # evs) c = current evs c"

fun outcome :: "pending_event list \<Rightarrow> nat \<Rightarrow> waited option" where
  "outcome [] ch = None"
| "outcome (Registered c ch' # evs) ch = (if current evs c = Some ch then Some SenderDropped else outcome evs ch)"
| "outcome (Resolved c d ok # evs) ch = (if current evs c = Some ch then Some (Delivered d) else outcome evs ch)"
| "outcome (Cancelled c # evs) ch = (if current evs c = Some ch then Some SenderDropped else outcome evs ch)"
| "outcome (e # evs) ch = outcome evs ch"

definition pending_inv :: "pending_event list \<Rightarrow> pending_connections \<Rightarrow> bool" where
  "pending_inv tr p \<longleftrightarrow>
     hm_wf (pc_map p) \<and> length (pc_map p) \<le> MAX_PENDING
     \<and> (\<forall>c ch. hm_get (pc_map p) c = Some ch \<longrightarrow> current tr c = Some ch)
     \<and> (\<forall>c ch. current tr c = Some ch \<longrightarrow> os_rx (pc_chan p ch) \<longrightarrow> hm_get (pc_map p) c = Some ch)
     \<and> (\<forall>c ch. current tr c = Some ch \<longrightarrow> ch < pc_next p \<and> outcome tr ch = None)
     \<and> (\<forall>c c' ch. current tr c = Some ch \<longrightarrow> current tr c' = Some ch \<longrightarrow> c = c')
     \<and> (\<forall>ch < pc_next p. os_rx (pc_chan p ch) \<longrightarrow> poll_receiver ch p = outcome tr ch)
     \<and> (\<forall>ch < pc_next p. os_rx (pc_chan p ch) \<longleftrightarrow> ReceiverDropped ch \<notin> set tr)
     \<and> (\<forall>ch \<ge> pc_next p. ReceiverDropped ch \<notin> set tr \<and> outcome tr ch = None)"

lemma pending_invD:
  assumes "pending_inv tr p"
  shows "hm_wf (pc_map p)" and "length (pc_map p) \<le> MAX_PENDING"
    and "hm_get (pc_map p) c = Some ch \<Longrightarrow> current tr c = Some ch"
    and "current tr c = Some ch \<Longrightarrow> os_rx (pc_chan p ch) \<Longrightarrow> hm_get (pc_map p) c = Some ch"
    and "current tr c = Some ch \<Longrightarrow> ch < pc_next p" and "current tr c = Some ch \<Longrightarrow> outcome tr ch = None"
    and "current tr c = Some ch \<Longrightarrow> current tr c' = Some ch \<Longrightarrow> c = c'"
    and "ch < pc_next p \<Longrightarrow> os_rx (pc_chan p ch) \<Longrightarrow> poll_receiver ch p = outcome tr ch"
    and "ch < pc_next p \<Longrightarrow> os_rx (pc_chan p ch) \<longleftrightarrow> ReceiverDropped ch \<notin> set tr"
    and "pc_next p \<le> ch \<Longrightarrow> ReceiverDropped ch \<notin> set tr" and "pc_next p \<le> ch \<Longrightarrow> outcome tr ch = None"
  using assms unfolding pending_inv_def by blast+

lemma pending_invI:
  assumes "hm_wf (pc_map p)" and "length (pc_map p) \<le> MAX_PENDING"
    and "\<And>c ch. hm_get (pc_map p) c = Some ch \<Longrightarrow> current tr c = Some ch"
    and "\<And>c ch. current tr c = Some ch \<Longrightarrow> os_rx (pc_chan p ch) \<Longrightarrow> hm_get (pc_map p) c = Some ch"
    and "\<And>c ch. current tr c = Some ch \<Longrightarrow> ch < pc_next p" and "\<And>c ch. current tr c = Some ch \<Longrightarrow> outcome tr ch = None"
    and "\<And>c c' ch. current tr c = Some ch \<Longrightarrow> current tr c' = Some ch \<Longrightarrow> c = c'"
    and "\<And>ch. ch < pc_next p \<Longrightarrow> os_rx (pc_chan p ch) \<Longrightarrow> poll_receiver ch p = outcome tr ch"
    and "\<And>ch. ch < pc_next p \<Longrightarrow> os_rx (pc_chan p ch) \<longleftrightarrow> ReceiverDropped ch \<notin> set tr"
    and "\<And>ch. pc_next p \<le> ch \<Longrightarrow> ReceiverDropped ch \<notin> set tr" and "\<And>ch. pc_next p \<le> ch \<Longrightarrow> outcome tr ch = None"
  shows "pending_inv tr p"
  using assms unfolding pending_inv_def by blast

lemma pending_inv_new: "pending_inv [] new_pending_connections"
  by (simp add: pending_inv_def new_pending_connections_def)

lemma pc_drop_senders [simp]:
  "pc_map (drop_senders chs p) = pc_map p" "pc_next (drop_senders chs p) = pc_next p"
  "os_rx (pc_chan (drop_senders chs p) ch) = os_rx (pc_chan p ch)"
  "os_value (pc_chan (drop_senders chs p) ch) = os_value (pc_chan p ch)"
  "os_tx (pc_chan (drop_senders chs p) ch) = (os_tx (pc_chan p ch) \<and> ch \<notin> set chs)"
  by (simp_all add: drop_senders_def)

lemma pending_inv_retain: "pending_inv tr p \<Longrightarrow> pending_inv tr (retain_open p)"
proof -
  assume i: "pending_inv tr p"
  let ?q = "retain_open p"
  have w: "hm_wf (pc_map p)"
    using i by (simp add: pending_inv_def)
  have get: "hm_get (pc_map ?q) c = Some ch \<longleftrightarrow> hm_get (pc_map p) c = Some ch \<and> os_rx (pc_chan p ch)" for c ch
    using w by (auto simp: retain_open_def hm_get_iff is_closed_def)
  have tx: "os_rx (pc_chan p ch) \<Longrightarrow> os_tx (pc_chan ?q ch) = os_tx (pc_chan p ch)" for ch
    by (auto simp: retain_open_def is_closed_def)
  have rest: "os_rx (pc_chan ?q ch) = os_rx (pc_chan p ch)" "os_value (pc_chan ?q ch) = os_value (pc_chan p ch)"
    "pc_next ?q = pc_next p" "hm_wf (pc_map ?q)" "length (pc_map ?q) \<le> length (pc_map p)" for ch
    using w by (simp_all add: retain_open_def)
  have poll: "os_rx (pc_chan p ch) \<Longrightarrow> poll_receiver ch ?q = poll_receiver ch p" for ch
    by (simp add: poll_receiver_def rest tx)
  note d = pending_invD [OF i]
  show ?thesis
  proof (rule pending_invI)
    show "hm_wf (pc_map ?q)" "length (pc_map ?q) \<le> MAX_PENDING"
      using rest(4,5) d(2) by linarith+
    fix c c' ch
    show "hm_get (pc_map ?q) c = Some ch \<Longrightarrow> current tr c = Some ch"
      and "current tr c = Some ch \<Longrightarrow> os_rx (pc_chan ?q ch) \<Longrightarrow> hm_get (pc_map ?q) c = Some ch"
      unfolding get rest(1) using d(3,4) by blast+
    show "current tr c = Some ch \<Longrightarrow> ch < pc_next ?q" "current tr c = Some ch \<Longrightarrow> outcome tr ch = None"
      "current tr c = Some ch \<Longrightarrow> current tr c' = Some ch \<Longrightarrow> c = c'"
      unfolding rest(3) using d(5-7) by blast+
    show "ch < pc_next ?q \<Longrightarrow> os_rx (pc_chan ?q ch) \<Longrightarrow> poll_receiver ch ?q = outcome tr ch"
      unfolding rest(1,3) using d(8) poll by simp
    show "ch < pc_next ?q \<Longrightarrow> os_rx (pc_chan ?q ch) \<longleftrightarrow> ReceiverDropped ch \<notin> set tr"
      "pc_next ?q \<le> ch \<Longrightarrow> ReceiverDropped ch \<notin> set tr" "pc_next ?q \<le> ch \<Longrightarrow> outcome tr ch = None"
      unfolding rest(1,3) using d(9-11) by blast+
  qed
qed

lemma pending_inv_insert:
  assumes "pending_inv tr p" and "length (pc_map p) < MAX_PENDING" and "insert_sender c p = (ch, p')"
  shows "pending_inv (Registered c ch # tr) p'"
proof -
  let ?old = "case hm_get (pc_map p) c of Some ch' \<Rightarrow> [ch'] | None \<Rightarrow> []"
  have ch: "ch = pc_next p" and p': "pc_map p' = hm_insert c ch (pc_map p)" "pc_next p' = Suc ch"
    "pc_chan p' = (pc_chan (drop_senders ?old p))(ch := oneshot_new)"
    using assms(3) by (auto simp: insert_sender_def Let_def)
  note d = pending_invD [OF assms(1)]
  have val: "os_value (pc_chan p x) = None" if "current tr c' = Some x" "os_rx (pc_chan p x)" for c' x
    using d(8) [OF d(5) [OF that(1)] that(2)] d(6) [OF that(1)]
    by (simp add: poll_receiver_def split: option.splits if_splits)
  have poll: "poll_receiver x p' = outcome (Registered c ch # tr) x" if "x < Suc ch" "os_rx (pc_chan p' x)" for x
  proof (cases "x = ch")
    case True
    then show ?thesis
      using d(5) [of c ch] d(11) [of ch] by (auto simp: poll_receiver_def p' oneshot_new_def ch)
  next
    case False
    then have x: "x < pc_next p" "os_rx (pc_chan p x)"
      using that by (simp_all add: ch p')
    have "x \<in> set ?old \<longleftrightarrow> current tr c = Some x"
      using d(3) [of c x] d(4) [of c x] x(2) by (auto split: option.splits dest: d(3))
    then have "poll_receiver x p' = (if current tr c = Some x then Some SenderDropped else poll_receiver x p)"
      using False val [OF _ x(2), of c] by (auto simp: poll_receiver_def p' split: option.splits)
    then show ?thesis
      using d(8) [OF x] by simp
  qed
  have cur: "current (Registered c ch # tr) c' = Some x \<longleftrightarrow> (if c' = c then x = ch else current tr c' = Some x)" for c' x
    by auto
  have old: "current tr c' = Some x \<Longrightarrow> x \<noteq> ch" for c' x
    using d(5) [of c' x] by (auto simp: ch)
  show ?thesis
  proof (rule pending_invI, unfold cur p')
    show "hm_wf (hm_insert c ch (pc_map p))" "length (hm_insert c ch (pc_map p)) \<le> MAX_PENDING"
      using d(1) assms(2) by (simp_all add: hm_length_insert)
  next
    fix c' x assume "hm_get (hm_insert c ch (pc_map p)) c' = Some x"
    then show "if c' = c then x = ch else current tr c' = Some x"
      using d(3) by (simp split: if_splits)
  next
    fix c' x assume "if c' = c then x = ch else current tr c' = Some x"
      and "os_rx (((pc_chan (drop_senders ?old p))(ch := oneshot_new)) x)"
    then show "hm_get (hm_insert c ch (pc_map p)) c' = Some x"
      using d(4) [of c' x] old [of c' x] by (simp split: if_splits)
  next
    fix c' x assume "if c' = c then x = ch else current tr c' = Some x"
    then show "x < Suc ch"
      using d(5) [of c' x] by (simp add: ch split: if_splits)
  next
    fix c' x assume a: "if c' = c then x = ch else current tr c' = Some x"
    show "outcome (Registered c ch # tr) x = None"
    proof (cases "c' = c")
      case True
      then show ?thesis
        using a old [of c x] d(11) [of ch] by (auto simp: ch)
    next
      case False
      then show ?thesis
        using a d(6) [of c' x] d(7) [of c' x c] by (metis outcome.simps(2))
    qed
  next
    fix c' c'' x assume "if c' = c then x = ch else current tr c' = Some x"
      and "if c'' = c then x = ch else current tr c'' = Some x"
    then show "c' = c''"
      using d(7) old by (metis (full_types))
  next
    fix x assume "x < Suc ch"
    then show "os_rx (((pc_chan (drop_senders ?old p))(ch := oneshot_new)) x) \<longleftrightarrow> ReceiverDropped x \<notin> set (Registered c ch # tr)"
      using d(9) [of x] d(10) [of x] by (auto simp: ch oneshot_new_def less_Suc_eq)
  next
    fix x assume "x < Suc ch" and "os_rx (((pc_chan (drop_senders ?old p))(ch := oneshot_new)) x)"
    then show "poll_receiver x p' = outcome (Registered c ch # tr) x"
      using poll by (simp add: p')
  next
    fix x assume "Suc ch \<le> x"
    then show "ReceiverDropped x \<notin> set (Registered c ch # tr)" and "outcome (Registered c ch # tr) x = None"
      using d(10) [of x] d(11) [of x] d(5) [of c x] by (auto simp: ch)
  qed
qed

lemma pending_inv_skip:
  assumes "pending_inv tr p" and "current (ev # tr) = current tr" and "outcome (ev # tr) = outcome tr"
    and "\<And>ch. ev \<noteq> ReceiverDropped ch"
  shows "pending_inv (ev # tr) p"
proof -
  have mem: "ReceiverDropped ch \<in> set (ev # tr) \<longleftrightarrow> ReceiverDropped ch \<in> set tr" for ch
    using assms(4) [of ch] by auto
  show ?thesis
    using assms(1) unfolding pending_inv_def assms(2,3) mem .
qed

lemma pending_inv_register:
  assumes "pending_inv tr p" and "register_pending c p = (r, p')"
  shows "pending_inv (case r of Some ch \<Rightarrow> Registered c ch # tr | None \<Rightarrow> Rejected c # tr) p'"
proof -
  have rej: "pending_inv (Rejected c # tr) q" if "pending_inv tr q" for q
    using that by (rule pending_inv_skip) auto
  show ?thesis
    using assms pending_inv_retain [OF assms(1)]
    by (auto simp: register_pending_def Let_def not_le intro: rej pending_inv_insert split: if_splits prod.splits)
qed

text \<open>Taking the sender of \<open>c\<close> out of the table and ending its channel in some way.\<close>

lemma pending_inv_end:
  assumes "pending_inv tr p" and "pc_map p' = hm_remove c (pc_map p)" and "pc_next p' = pc_next p"
    and "\<And>x. os_rx (pc_chan p' x) = os_rx (pc_chan p x)"
    and "\<And>x. hm_get (pc_map p) c \<noteq> Some x \<Longrightarrow> os_rx (pc_chan p x) \<Longrightarrow> poll_receiver x p' = poll_receiver x p"
    and "\<And>x. hm_get (pc_map p) c = Some x \<Longrightarrow> os_rx (pc_chan p x) \<Longrightarrow> poll_receiver x p' = outcome (ev # tr) x"
    and cur: "\<And>c'. current (ev # tr) c' = (if c = c' then None else current tr c')"
    and out: "\<And>x. current tr c \<noteq> Some x \<Longrightarrow> outcome (ev # tr) x = outcome tr x"
    and ev: "\<And>x. ev \<noteq> ReceiverDropped x"
  shows "pending_inv (ev # tr) p'"
proof -
  note d = pending_invD [OF assms(1)]
  show ?thesis
  proof (rule pending_invI, unfold assms(2-4) cur)
    show "hm_wf (hm_remove c (pc_map p))" "length (hm_remove c (pc_map p)) \<le> MAX_PENDING"
      using d(1,2) hm_length_remove_le [of c "pc_map p"] by (auto intro: order_trans)
    fix c' c'' ch
    show "hm_get (hm_remove c (pc_map p)) c' = Some ch \<Longrightarrow> (if c = c' then None else current tr c') = Some ch"
      and "(if c = c' then None else current tr c') = Some ch \<Longrightarrow> os_rx (pc_chan p ch) \<Longrightarrow>
        hm_get (hm_remove c (pc_map p)) c' = Some ch"
      using d(3,4) [of c' ch] by (simp_all split: if_splits)
    show "(if c = c' then None else current tr c') = Some ch \<Longrightarrow> ch < pc_next p"
      using d(5) [of c' ch] by (simp split: if_splits)
    show "(if c = c' then None else current tr c') = Some ch \<Longrightarrow> outcome (ev # tr) ch = None"
      using d(6) [of c' ch] d(7) [of c ch c'] out [of ch] by (cases "current tr c = Some ch") (simp_all split: if_splits)
    show "(if c = c' then None else current tr c') = Some ch \<Longrightarrow>
        (if c = c'' then None else current tr c'') = Some ch \<Longrightarrow> c' = c''"
      using d(7) [of c' ch c''] by (simp split: if_splits)
    show "ch < pc_next p \<Longrightarrow> os_rx (pc_chan p ch) \<longleftrightarrow> ReceiverDropped ch \<notin> set (ev # tr)"
      using d(9) [of ch] ev [of ch] by auto
    show "ch < pc_next p \<Longrightarrow> os_rx (pc_chan p ch) \<Longrightarrow> poll_receiver ch p' = outcome (ev # tr) ch"
      using assms(5,6) [of ch] d(4) [of c ch] d(8) [of ch] out [of ch]
      by (cases "hm_get (pc_map p) c = Some ch"; cases "current tr c = Some ch") simp_all
    show "pc_next p \<le> ch \<Longrightarrow> ReceiverDropped ch \<notin> set (ev # tr)" "pc_next p \<le> ch \<Longrightarrow> outcome (ev # tr) ch = None"
      using d(10,11) [of ch] d(5) [of c ch] ev [of ch] out [of ch] by auto
  qed
qed

lemma pending_inv_resolve:
  assumes "pending_inv tr p" and "resolve_pending c data p = (ok, p')"
  shows "pending_inv (Resolved c data ok # tr) p'"
proof (rule pending_inv_end [OF assms(1)])
  note d = pending_invD [OF assms(1)]
  show "pc_map p' = hm_remove c (pc_map p)" "pc_next p' = pc_next p" "os_rx (pc_chan p' x) = os_rx (pc_chan p x)" for x
    using assms(2) by (auto simp: resolve_pending_def take_sender_def oneshot_send_def split: option.splits if_splits)
  show "hm_get (pc_map p) c \<noteq> Some x \<Longrightarrow> os_rx (pc_chan p x) \<Longrightarrow> poll_receiver x p' = poll_receiver x p" for x
    using assms(2)
    by (auto simp: resolve_pending_def take_sender_def oneshot_send_def poll_receiver_def split: option.splits if_splits)
  show "hm_get (pc_map p) c = Some x \<Longrightarrow> os_rx (pc_chan p x) \<Longrightarrow> poll_receiver x p' = outcome (Resolved c data ok # tr) x" for x
    using assms(2) d(3) [of c x]
    by (auto simp: resolve_pending_def take_sender_def oneshot_send_def poll_receiver_def split: option.splits if_splits)
qed simp_all

lemma pending_inv_cancel:
  assumes "pending_inv tr p"
  shows "pending_inv (Cancelled c # tr) (cancel_pending c p)"
proof (rule pending_inv_end [OF assms])
  note d = pending_invD [OF assms]
  show "pc_map (cancel_pending c p) = hm_remove c (pc_map p)" "pc_next (cancel_pending c p) = pc_next p"
    "os_rx (pc_chan (cancel_pending c p) x) = os_rx (pc_chan p x)" for x
    by (auto simp: cancel_pending_def take_sender_def split: option.splits)
  show "hm_get (pc_map p) c \<noteq> Some x \<Longrightarrow> os_rx (pc_chan p x) \<Longrightarrow>
      poll_receiver x (cancel_pending c p) = poll_receiver x p" for x
    by (auto simp: cancel_pending_def take_sender_def poll_receiver_def drop_senders_def split: option.splits)
  show "hm_get (pc_map p) c = Some x \<Longrightarrow> os_rx (pc_chan p x) \<Longrightarrow>
      poll_receiver x (cancel_pending c p) = outcome (Cancelled c # tr) x" for x
    using d(3) [of c x] d(8) [of x] d(5,6) [of c x]
    by (auto simp: cancel_pending_def take_sender_def poll_receiver_def split: option.splits if_splits)
qed simp_all

lemma pending_inv_drop:
  assumes "pending_inv tr p" and "x < pc_next p"
  shows "pending_inv (ReceiverDropped x # tr) (drop_receiver x p)"
proof -
  note d = pending_invD [OF assms(1)]
  have rx: "os_rx (pc_chan (drop_receiver x p) ch) \<longleftrightarrow> os_rx (pc_chan p ch) \<and> ch \<noteq> x"
    and m: "pc_map (drop_receiver x p) = pc_map p" "pc_next (drop_receiver x p) = pc_next p"
    and poll: "ch \<noteq> x \<Longrightarrow> poll_receiver ch (drop_receiver x p) = poll_receiver ch p" for ch
    by (auto simp: drop_receiver_def poll_receiver_def)
  have o: "outcome (ReceiverDropped x # tr) = outcome tr" "current (ReceiverDropped x # tr) = current tr"
    by auto
  show ?thesis
  proof (rule pending_invI, unfold rx m o)
    show "hm_wf (pc_map p)" "length (pc_map p) \<le> MAX_PENDING"
      by (rule d(1,2))+
    fix c c' ch
    show "hm_get (pc_map p) c = Some ch \<Longrightarrow> current tr c = Some ch"
      "current tr c = Some ch \<Longrightarrow> os_rx (pc_chan p ch) \<and> ch \<noteq> x \<Longrightarrow> hm_get (pc_map p) c = Some ch"
      "current tr c = Some ch \<Longrightarrow> ch < pc_next p" "current tr c = Some ch \<Longrightarrow> outcome tr ch = None"
      "current tr c = Some ch \<Longrightarrow> current tr c' = Some ch \<Longrightarrow> c = c'"
      "pc_next p \<le> ch \<Longrightarrow> outcome tr ch = None"
      using d(3-7,11) by blast+
    show "ch < pc_next p \<Longrightarrow> os_rx (pc_chan p ch) \<and> ch \<noteq> x \<Longrightarrow> poll_receiver ch (drop_receiver x p) = outcome tr ch"
      using poll [of ch] d(8) [of ch] by simp
    show "ch < pc_next p \<Longrightarrow> (os_rx (pc_chan p ch) \<and> ch \<noteq> x) \<longleftrightarrow> ReceiverDropped ch \<notin> set (ReceiverDropped x # tr)"
      "pc_next p \<le> ch \<Longrightarrow> ReceiverDropped ch \<notin> set (ReceiverDropped x # tr)"
      using d(9,10) [of ch] assms(2) by auto
  qed
qed

lemma pending_inv_step:
  "pending_inv tr p \<Longrightarrow> pending_step op p = (ev, p') \<Longrightarrow> pending_inv (ev # tr) p'"
proof (cases op)
  case (OpDropReceiver ch)
  have "pending_inv (NoChannel ch # tr) p" if "pending_inv tr p"
    using that by (rule pending_inv_skip) auto
  with OpDropReceiver show "pending_inv tr p \<Longrightarrow> pending_step op p = (ev, p') \<Longrightarrow> pending_inv (ev # tr) p'"
    by (auto split: if_splits intro: pending_inv_drop)
qed (auto split: prod.splits option.splits dest: pending_inv_register intro: pending_inv_resolve pending_inv_cancel)

lemma pending_inv_run:
  "pending_inv tr p \<Longrightarrow> pending_run ops p = (evs, p') \<Longrightarrow> pending_inv (rev evs @ tr) p'"
proof (induction ops p arbitrary: tr evs p' rule: pending_run.induct)
  case (2 op ops p)
  obtain ev p1 evs' where s: "pending_step op p = (ev, p1)" and r: "pending_run ops p1 = (evs', p')" and e: "evs = ev # evs'"
    using "2.prems"(2) by (auto split: prod.splits)
  show ?case
    using "2.IH" [OF s [symmetric] pending_inv_step [OF "2.prems"(1) s] r] by (simp add: e)
qed simp

lemma pending_run_inv: "pending_run ops new_pending_connections = (evs, p) \<Longrightarrow> pending_inv (rev evs) p"
  using pending_inv_run [OF pending_inv_new] by simp

subsection \<open>Properties\<close>

text \<open>C13. The rendezvous is exact: after any sequence of registrations, resolutions, cancellations and
  dropped receivers, every receiver that is still held sees what the trace specifies for its
  channel (the data of the connection that announced its id while it was the current
  registration of that id, an error when it was cancelled or replaced first, nothing
  otherwise), and a connection that announces itself now is delivered exactly when the
  current registration of its id still has its receiver.\<close>

theorem pending_rendezvous:
  assumes "pending_run ops new_pending_connections = (evs, p)"
  shows "(\<forall>ch < pc_next p. ReceiverDropped ch \<notin> set evs \<longrightarrow> poll_receiver ch p = outcome (rev evs) ch)
    \<and> (fst (resolve_pending c d p) \<longleftrightarrow> (\<exists>ch. current (rev evs) c = Some ch \<and> ReceiverDropped ch \<notin> set evs))"
proof
  note i = pending_invD [OF pending_run_inv [OF assms]]
  show "\<forall>ch < pc_next p. ReceiverDropped ch \<notin> set evs \<longrightarrow> poll_receiver ch p = outcome (rev evs) ch"
    using i(8,9) by simp
  show "fst (resolve_pending c d p) \<longleftrightarrow> (\<exists>ch. current (rev evs) c = Some ch \<and> ReceiverDropped ch \<notin> set evs)"
  proof (cases "hm_get (pc_map p) c")
    case None
    then show ?thesis
      using i(4) [of c] i(9) i(5) [of c] by (fastforce simp: resolve_pending_def take_sender_def)
  next
    case (Some ch)
    then have "current (rev evs) c = Some ch"
      by (rule i(3))
    then show ?thesis
      using Some i(9) [of ch] i(5) [of c ch]
      by (simp add: resolve_pending_def take_sender_def oneshot_send_def)
  qed
qed

theorem pending_rendezvous_witness:
  "let d = \<lparr>ds_stream = 9, ds_buffered = ''hi''\<rparr>;
       (evs, p) = pending_run [OpRegister ''a'', OpRegister ''b'', OpResolve ''a'' d] new_pending_connections
   in poll_receiver 0 p = Some (Delivered d) \<and> poll_receiver 1 p = None \<and> fst (resolve_pending ''b'' d p)"
proof -
  define d where "d = \<lparr>ds_stream = 9, ds_buffered = ''hi''\<rparr>"
  obtain evs p where r: "pending_run [OpRegister ''a'', OpRegister ''b'', OpResolve ''a'' d] new_pending_connections = (evs, p)"
    by fastforce
  then have "evs = [Registered ''a'' 0, Registered ''b'' 1, Resolved ''a'' d True]" and "pc_next p = 2"
    by (auto simp: new_pending_connections_def register_pending_def MAX_PENDING_def insert_sender_def drop_senders_def
        resolve_pending_def take_sender_def oneshot_send_def oneshot_new_def)
  with pending_rendezvous [OF r, of "''b''" d] have "poll_receiver 0 p = Some (Delivered d)"
    and "poll_receiver 1 p = None" and "fst (resolve_pending ''b'' d p)"
    by simp_all
  then show ?thesis
    unfolding Let_def d_def [symmetric] r by simp
qed

text \<open>Capacity: the table never holds more than 1024 entries, and a registration is refused only when
  1024 entries of other clients that still wait fill it after pruning.\<close>

theorem pending_capacity:
  assumes "pending_run ops new_pending_connections = (evs, p)"
  shows "length (pc_map p) \<le> 1024
    \<and> (fst (register_pending c p) = None \<longleftrightarrow> length (filter (\<lambda>(_, ch). os_rx (pc_chan p ch)) (pc_map p)) = 1024)"
proof
  show l: "length (pc_map p) \<le> 1024"
    using pending_invD(2) [OF pending_run_inv [OF assms]] by (simp add: MAX_PENDING_def)
  have "length (filter (\<lambda>(_, ch). os_rx (pc_chan p ch)) (pc_map p)) \<le> length (pc_map p)"
    by (rule length_filter_le)
  moreover have "fst (register_pending c p) = None \<longleftrightarrow>
      1024 \<le> length (pc_map p) \<and> 1024 \<le> length (filter (\<lambda>(_, ch). os_rx (pc_chan p ch)) (pc_map p))"
    by (simp add: register_pending_def Let_def MAX_PENDING_def retain_open_def is_closed_def split: prod.splits)
  ultimately show "fst (register_pending c p) = None
      \<longleftrightarrow> length (filter (\<lambda>(_, ch). os_rx (pc_chan p ch)) (pc_map p)) = 1024"
    using l by linarith
qed

theorem pending_capacity_witness:
  "fst (register_pending ''b'' (snd (pending_run [OpRegister ''a'', OpDropReceiver 0] new_pending_connections))) \<noteq> None"
proof -
  let ?ops = "[OpRegister ''a'', OpDropReceiver 0]"
  obtain evs p where r: "pending_run ?ops new_pending_connections = (evs, p)"
    by fastforce
  then have "pc_map p = [(''a'', 0)]"
    by (auto simp: new_pending_connections_def register_pending_def MAX_PENDING_def insert_sender_def drop_senders_def
        drop_receiver_def)
  with pending_capacity [OF r, of "''b''"] r show ?thesis
    by auto
qed

subsection \<open>The grace period\<close>

text \<open>The table at poll \<open>k\<close> when no earlier poll finds the id.\<close>

primrec grace_at ::
  "(nat \<Rightarrow> pending_connections \<Rightarrow> pending_connections) \<Rightarrow> string \<Rightarrow> pending_connections \<Rightarrow> nat \<Rightarrow> pending_connections" where
  "grace_at others conn_id p 0 = p"
| "grace_at others conn_id p (Suc k) = others k (snd (take_sender conn_id (grace_at others conn_id p k)))"

definition grace_clock :: "(nat \<Rightarrow> nat) \<Rightarrow> nat \<Rightarrow> nat" where
  "grace_clock late k = (\<Sum>m<k. 10000000 + late m)"

lemma grace_clock_Suc: "grace_clock late (Suc k) = grace_clock late k + 10000000 + late k"
  by (simp add: grace_clock_def)

lemma grace_clock_ge: "10000000 * k \<le> grace_clock late k"
  by (induction k) (simp_all add: grace_clock_Suc grace_clock_def)

text \<open>The loop at poll \<open>i\<close>, in the state that \<open>grace_at\<close> and \<open>grace_clock\<close> describe.\<close>

abbreviation grace_from where
  "grace_from others late now conn_id data p i \<equiv>
     grace_loop others late i (now + grace_clock late i) (now + EARLY_DATA_GRACE_PERIOD) conn_id data
       (grace_at others conn_id p i)"

lemma grace_turn:
  "grace_from others late now c d p i =
     (case hm_get (pc_map (grace_at others c p i)) c of
        Some tx \<Rightarrow> (i, oneshot_send tx d (snd (take_sender c (grace_at others c p i))))
      | None \<Rightarrow> if grace_clock late i \<ge> 1000000000 then (i, False, snd (take_sender c (grace_at others c p i)))
                else grace_from others late now c d p (Suc i))"
  by (simp add: grace_loop.simps [of others late i] take_sender_def grace_clock_Suc EARLY_DATA_GRACE_PERIOD_def
      EARLY_DATA_RETRY_INTERVAL_def add.assoc split: option.splits)

lemma grace_from_result:
  "grace_from others late now c d p i = (j, r) \<Longrightarrow>
   i \<le> j \<and> (\<forall>k. i \<le> k \<and> k < j \<longrightarrow> hm_get (pc_map (grace_at others c p k)) c = None \<and> grace_clock late k < 1000000000)
   \<and> (case hm_get (pc_map (grace_at others c p j)) c of
        Some ch \<Rightarrow> r = oneshot_send ch d (snd (take_sender c (grace_at others c p j)))
      | None \<Rightarrow> \<not> fst r \<and> 1000000000 \<le> grace_clock late j)"
proof (induction "1000000000 - grace_clock late i" arbitrary: i rule: less_induct)
  case less
  show ?case
  proof (cases "hm_get (pc_map (grace_at others c p i)) c = None \<and> grace_clock late i < 1000000000")
    case True
    then have n: "grace_from others late now c d p (Suc i) = (j, r)"
      using less.prems by (subst (asm) grace_turn) (simp add: not_le)
    have "1000000000 - grace_clock late (Suc i) < 1000000000 - grace_clock late i"
      using True unfolding grace_clock_Suc by arith
    from less.hyps [OF this n] True show ?thesis
      by (metis Suc_leD Suc_leI le_neq_implies_less)
  next
    case False
    with less.prems show ?thesis
      by (subst (asm) grace_turn) (auto split: option.splits if_splits)
  qed
qed

text \<open>C38. Grace period: a data connection that comes before its registration polls the table at most 101
  times. It is handed over at the first poll that finds its id, and it is given up only at a
  poll a full second after the first, whatever the other tasks do in between and however
  late the timer fires.\<close>

theorem grace_period:
  assumes "resolve_pending_with_grace others late now c d p = (j, ok, p')"
  shows "j \<le> 100
    \<and> (\<forall>k < j. hm_get (pc_map (grace_at others c p k)) c = None)
    \<and> (case hm_get (pc_map (grace_at others c p j)) c of
         Some ch \<Rightarrow> ok = os_rx (pc_chan (grace_at others c p j) ch) \<and> (ok \<longrightarrow> poll_receiver ch p' = Some (Delivered d))
       | None \<Rightarrow> \<not> ok \<and> 1000000000 \<le> grace_clock late j)"
proof -
  have "grace_from others late now c d p 0 = (j, ok, p')"
    using assms by (simp add: resolve_pending_with_grace_def grace_clock_def)
  from grace_from_result [OF this] have early: "\<forall>k < j. hm_get (pc_map (grace_at others c p k)) c = None \<and> grace_clock late k < 1000000000"
    and res: "case hm_get (pc_map (grace_at others c p j)) c of
        Some ch \<Rightarrow> (ok, p') = oneshot_send ch d (snd (take_sender c (grace_at others c p j)))
      | None \<Rightarrow> \<not> ok \<and> 1000000000 \<le> grace_clock late j"
    by (auto split: option.splits)
  have "j \<le> 100"
  proof (cases j)
    case (Suc m)
    with early have "grace_clock late m < 1000000000"
      by simp
    with grace_clock_ge [of m late] Suc show ?thesis
      by simp
  qed simp
  with early res show ?thesis
    by (auto simp: oneshot_send_def take_sender_def poll_receiver_def split: option.splits if_splits)
qed

text \<open>The instance: the registration arrives between the second and the third poll.\<close>

definition late_registration :: "nat \<Rightarrow> pending_connections \<Rightarrow> pending_connections" where
  "late_registration k = (if k = 1 then snd \<circ> register_pending ''a'' else id)"

theorem grace_period_witness:
  "case resolve_pending_with_grace late_registration (\<lambda>_. 0) 0 ''a'' \<lparr>ds_stream = 4, ds_buffered = []\<rparr> new_pending_connections
   of (j, ok, p') \<Rightarrow> j = 2 \<and> ok \<and> poll_receiver 0 p' = Some (Delivered \<lparr>ds_stream = 4, ds_buffered = []\<rparr>)"
proof -
  let ?r = "resolve_pending_with_grace late_registration (\<lambda>_. 0) 0 ''a'' \<lparr>ds_stream = 4, ds_buffered = []\<rparr> new_pending_connections"
  obtain j ok p' where r: "?r = (j, ok, p')"
    by (cases ?r) auto
  have "j = 2 \<and> ok"
    using r
    by (simp add: resolve_pending_with_grace_def grace_loop.simps late_registration_def take_sender_def oneshot_send_def
        new_pending_connections_def register_pending_def MAX_PENDING_def insert_sender_def drop_senders_def oneshot_new_def
        EARLY_DATA_RETRY_INTERVAL_def EARLY_DATA_GRACE_PERIOD_def)
  moreover have "hm_get (pc_map (grace_at late_registration ''a'' new_pending_connections 2)) ''a'' = Some 0"
    by (simp add: numeral_2_eq_2 late_registration_def take_sender_def new_pending_connections_def register_pending_def
        MAX_PENDING_def insert_sender_def drop_senders_def)
  ultimately show ?thesis
    using grace_period [OF r] by (simp add: r)
qed

end
