(* ===== verification/HostPorts.thy ===== *)
theory HostPorts
  imports Pending
begin

section \<open>The choice of a host port (find\_available\_port in src/host/mod.rs)\<close>

text \<open>
  The search runs over 16-bit ports with wrap-around. The outer \<open>None\<close> is a search that
  never returns, the inner one the answer that no port is free.
\<close>

definition next_port :: "u16 \<Rightarrow> u16 \<Rightarrow> u16" where
  "next_port preferred port =
     (let port1 = port + 1 in if port1 < 1024 \<and> port1 \<noteq> preferred then 1024 else port1)"

partial_function (option) find_port_loop :: "(u16 \<Rightarrow> bool) \<Rightarrow> u16 \<Rightarrow> u16 \<Rightarrow> u16 option option" where
  "find_port_loop used preferred port =
     (if \<not> used port then Some (Some port)
      else if next_port preferred port = preferred then Some None
      else find_port_loop used preferred (next_port preferred port))"

declare find_port_loop.simps [code]

definition find_port :: "(u16 \<Rightarrow> bool) \<Rightarrow> u16 \<Rightarrow> u16 option option" where
  "find_port used preferred = (if preferred = 0 then Some None else find_port_loop used preferred preferred)"

subsection \<open>The ports in the order in which they are tried\<close>

definition ports :: "nat \<Rightarrow> nat \<Rightarrow> u16 list" where
  "ports a b = map of_nat [a..<b]"

definition candidates :: "u16 \<Rightarrow> u16 list" where
  "candidates preferred =
     (if preferred < 1024 then preferred # ports 1024 65536
      else ports (unat preferred) 65536 @ ports 1024 (unat preferred))"

text \<open>A stretch of the walk: each port leads to the next one, none of which is the preferred.\<close>

definition walk :: "u16 \<Rightarrow> u16 list \<Rightarrow> bool" where
  "walk preferred ps = successively (\<lambda>a b. next_port preferred a = b \<and> b \<noteq> preferred) ps"

lemma loop_along_walk:
  "walk preferred (p # ps) \<Longrightarrow>
   find_port_loop used preferred p =
     (case find (\<lambda>x. \<not> used x) (p # ps) of
        Some x \<Rightarrow> Some (Some x)
      | None \<Rightarrow> let n = next_port preferred (last (p # ps)) in
          if n = preferred then Some None else find_port_loop used preferred n)"
proof (induction ps arbitrary: p)
  case Nil
  show ?case
    by (simp add: find_port_loop.simps [of used preferred p] Let_def)
next
  case (Cons q ps)
  then have w: "walk preferred (q # ps)" and n: "next_port preferred p = q" "q \<noteq> preferred"
    by (simp_all add: walk_def)
  show ?case
    using Cons.IH [OF w] n by (simp add: find_port_loop.simps [of used preferred p] Let_def split: option.splits)
qed

lemma of_nat_u16: "n < 65536 \<Longrightarrow> unat (of_nat n :: u16) = n"
  by (simp add: unat_of_nat)

lemma of_nat_u16_eq: "m < 65536 \<Longrightarrow> n < 65536 \<Longrightarrow> (of_nat m :: u16) = of_nat n \<longleftrightarrow> m = n"
  by (metis of_nat_u16)

lemma next_port_up:
  assumes "1023 \<le> n" and "n < 65535"
  shows "next_port preferred (of_nat n) = of_nat (Suc n)"
proof -
  have "unat (of_nat (Suc n) :: u16) = Suc n"
    using assms by (intro of_nat_u16) simp
  then have "\<not> (of_nat (Suc n) :: u16) < 1024"
    using assms by (simp add: word_less_nat_alt)
  moreover have "(of_nat n :: u16) + 1 = of_nat (Suc n)"
    by simp
  ultimately show ?thesis
    unfolding next_port_def Let_def by (simp only: if_False simp_thms)
qed

lemma next_port_top: "preferred \<noteq> 0 \<Longrightarrow> next_port preferred (of_nat 65535) = 1024"
proof -
  have "(of_nat 65535 + 1 :: u16) = 0"
    by simp
  moreover assume "preferred \<noteq> 0"
  ultimately show ?thesis
    by (simp only: next_port_def Let_def) simp
qed

lemma find_append: "find P (xs @ ys) = (case find P xs of Some x \<Rightarrow> Some x | None \<Rightarrow> find P ys)"
  by (induction xs) simp_all

lemma walk_ports:
  assumes "1024 \<le> a" and "b \<le> 65536" and "\<forall>n. a < n \<and> n < b \<longrightarrow> of_nat n \<noteq> preferred"
  shows "walk preferred (ports a b)"
  using assms
proof (induction "b - a" arbitrary: a)
  case (Suc d)
  show ?case
  proof (cases "Suc a < b")
    case True
    then have "ports a b = of_nat a # of_nat (Suc a) # ports (Suc (Suc a)) b"
      by (simp add: ports_def upt_rec)
    moreover have "ports (Suc a) b = of_nat (Suc a) # ports (Suc (Suc a)) b"
      using True by (simp add: ports_def upt_rec)
    moreover have "walk preferred (ports (Suc a) b)"
      using Suc by simp
    moreover have "next_port preferred (of_nat a) = of_nat (Suc a)" and "(of_nat (Suc a) :: u16) \<noteq> preferred"
      using next_port_up [of a preferred] Suc.prems True by auto
    ultimately show ?thesis
      by (simp add: walk_def)
  next
    case False
    then show ?thesis
      using Suc(2) by (simp add: walk_def ports_def upt_rec)
  qed
qed (simp add: walk_def ports_def)

lemma ports_Cons: "a < b \<Longrightarrow> ports a b = of_nat a # ports (Suc a) b"
  by (simp add: ports_def upt_rec)

lemma set_ports: "set (ports a b) = of_nat ` {a..<b}"
  by (simp add: ports_def)

lemma last_ports: "a < b \<Longrightarrow> last (ports a b) = of_nat (b - 1)"
  by (simp add: ports_def last_map)

lemma ports_nonempty: "a < b \<Longrightarrow> ports a b \<noteq> []"
  by (simp add: ports_def)

lemma unat_ge_1024: "\<not> (p :: u16) < 1024 \<Longrightarrow> 1024 \<le> unat p"
  by (simp add: word_less_nat_alt)

lemma unat_u16_less: "unat (p :: u16) < 65536"
  using unsigned_less [of p, where ?'a = nat] by simp

text \<open>An unprivileged preference: the search covers all unprivileged ports once.\<close>

lemma find_port_high:
  assumes "\<not> preferred < 1024"
  shows "find_port_loop used preferred preferred = Some (find (\<lambda>x. \<not> used x) (candidates preferred))"
proof -
  let ?n = "unat preferred"
  have n: "1024 \<le> ?n" "?n < 65536" and pref: "of_nat ?n = preferred"
    using unat_ge_1024 [OF assms] unat_u16_less by simp_all
  have ne: "m < 65536 \<Longrightarrow> m \<noteq> ?n \<Longrightarrow> of_nat m \<noteq> preferred" for m
    using of_nat_u16 [of m] by auto
  have "preferred \<noteq> 0"
    using assms by auto
  let ?up = "ports (Suc ?n) 65536" and ?low = "ports 1024 ?n"
  have "walk preferred (preferred # ?up)"
    using walk_ports [of ?n 65536 preferred] n ne by (simp add: ports_Cons pref)
  moreover have "last (preferred # ?up) = of_nat 65535"
    using last_ports [of ?n 65536] n by (simp add: ports_Cons pref)
  ultimately have first: "find_port_loop used preferred preferred =
     (case find (\<lambda>x. \<not> used x) (preferred # ?up) of
        Some x \<Rightarrow> Some (Some x)
      | None \<Rightarrow> if 1024 = preferred then Some None else find_port_loop used preferred 1024)"
    using loop_along_walk [of preferred preferred ?up used] next_port_top [OF \<open>preferred \<noteq> 0\<close>] by (simp only: Let_def)
  have second: "find_port_loop used preferred 1024 = Some (find (\<lambda>x. \<not> used x) ?low)" if "preferred \<noteq> 1024"
  proof -
    have lt: "1024 < ?n"
      using that n pref by (cases "?n = 1024") (auto simp: )
    have "walk preferred (1024 # ports 1025 ?n)"
      using walk_ports [of 1024 ?n preferred] n ne lt by (simp add: ports_Cons)
    moreover have "last (1024 # ports 1025 ?n) = of_nat (?n - 1)"
      using last_ports [of 1024 ?n] lt by (simp add: ports_Cons)
    moreover have "next_port preferred (of_nat (?n - 1)) = preferred"
      using next_port_up [of "?n - 1" preferred] lt n pref by simp
    ultimately show ?thesis
      using loop_along_walk [of preferred 1024 "ports 1025 ?n" used] lt
      by (simp add: ports_Cons split: option.splits)
  qed
  have c: "candidates preferred = (preferred # ?up) @ ?low"
    using assms n by (simp add: candidates_def ports_Cons pref)
  show ?thesis
  proof (cases "find (\<lambda>x. \<not> used x) (preferred # ?up)")
    case None
    show ?thesis
    proof (cases "preferred = 1024")
      case True
      then have "?low = []"
        by (simp add: ports_def)
      then have "find (\<lambda>x. \<not> used x) (candidates preferred) = None"
        unfolding c find_append None by simp
      moreover have "find_port_loop used preferred preferred = Some None"
        using first unfolding None by (simp add: True)
      ultimately show ?thesis
        by simp
    next
      case False
      then have "1024 \<noteq> preferred"
        by simp
      with second [OF False] first None show ?thesis
        by (simp only: c find_append option.case if_False)
    qed
  next
    case (Some x)
    then show ?thesis
      using first by (simp only: c find_append option.case)
  qed
qed

text \<open>A privileged preference that is taken: the search returns to it from nowhere.\<close>

lemma next_port_ge: "preferred < 1024 \<Longrightarrow> preferred \<noteq> 0 \<Longrightarrow> 1024 \<le> p \<or> p = preferred \<Longrightarrow> 1024 \<le> next_port preferred p"
proof -
  assume a: "preferred < 1024" "preferred \<noteq> 0" "1024 \<le> p \<or> p = preferred"
  have "p + 1 \<noteq> preferred"
  proof
    assume e: "p + 1 = preferred"
    then have "1024 \<le> p"
      using a(3) by auto
    with e a(1,2) show False
      by unat_arith
  qed
  then show ?thesis
    by (simp add: next_port_def Let_def not_less)
qed

text \<open>Inside this region every port is taken and no step returns to the preference.\<close>

definition stuck_at :: "(u16 \<Rightarrow> bool) \<Rightarrow> u16 \<Rightarrow> u16 \<Rightarrow> bool" where
  "stuck_at used preferred p \<longleftrightarrow> preferred < 1024 \<and> preferred \<noteq> 0 \<and> used preferred
     \<and> (\<forall>q. 1024 \<le> q \<longrightarrow> used q) \<and> (1024 \<le> p \<or> p = preferred)"

lemma stuck_at_next:
  assumes "stuck_at used preferred p"
  shows "used p" and "next_port preferred p \<noteq> preferred" and "stuck_at used preferred (next_port preferred p)"
proof -
  have "1024 \<le> next_port preferred p"
    using assms next_port_ge by (simp add: stuck_at_def)
  moreover have "preferred < 1024"
    using assms by (simp add: stuck_at_def)
  ultimately show "next_port preferred p \<noteq> preferred" and "stuck_at used preferred (next_port preferred p)"
    using assms by (auto simp: stuck_at_def)
  show "used p"
    using assms by (auto simp: stuck_at_def)
qed

lemma find_port_loop_stuck:
  "find_port_loop used preferred p = Some r \<Longrightarrow> \<not> stuck_at used preferred p"
proof (rule find_port_loop.raw_induct [where P = "\<lambda>used preferred p r. \<not> stuck_at used preferred p"])
  fix loop used preferred p r
  assume IH: "\<And>used preferred p r. loop used preferred p = Some r \<Longrightarrow> \<not> stuck_at used preferred p"
    and run: "(if \<not> used p then Some (Some p) else if next_port preferred p = preferred then Some None
        else loop used preferred (next_port preferred p)) = Some r"
  show "\<not> stuck_at used preferred p"
  proof
    assume "stuck_at used preferred p"
    note n = stuck_at_next [OF this]
    then have "loop used preferred (next_port preferred p) = Some r"
      using run by simp
    with IH n(3) show False
      by blast
  qed
qed

text \<open>A privileged preference with a free unprivileged port: the first one is found.\<close>

lemma find_port_low:
  assumes "preferred \<noteq> 0" and "preferred < 1024"
  shows "find_port_loop used preferred preferred =
    (case find (\<lambda>x. \<not> used x) (candidates preferred) of Some p \<Rightarrow> Some (Some p) | None \<Rightarrow> None)"
proof -
  have c: "candidates preferred = preferred # ports 1024 65536"
    using assms by (simp add: candidates_def)
  have ne: "of_nat m \<noteq> preferred" if "1024 \<le> m" "m < 65536" for m
    using that assms(2) of_nat_u16 [of m] by (auto simp: word_less_nat_alt)
  have n: "next_port preferred preferred = 1024"
  proof (cases "preferred + 1 < 1024")
    case False
    then have "preferred + 1 = 1024"
      using assms(2) by unat_arith
    then show ?thesis
      by (simp add: next_port_def Let_def)
  qed (simp add: next_port_def)
  have "walk preferred (ports 1024 65536)"
    using walk_ports [of 1024 65536 preferred] ne by simp
  then have w: "walk preferred (preferred # ports 1024 65536)"
    using n ne [of 1024] ports_Cons [of 1024 65536] by (simp add: walk_def)
  have "last (preferred # ports 1024 65536) = of_nat 65535"
    using last_ports [of 1024 65536] ports_nonempty [of 1024 65536] by simp
  then have loop: "find_port_loop used preferred preferred =
     (case find (\<lambda>x. \<not> used x) (candidates preferred) of
        Some x \<Rightarrow> Some (Some x)
      | None \<Rightarrow> if 1024 = preferred then Some None else find_port_loop used preferred 1024)"
    using loop_along_walk [OF w, of used] next_port_top [OF assms(1)] by (simp only: Let_def c)
  have "find_port_loop used preferred 1024 = None" if "find (\<lambda>x. \<not> used x) (candidates preferred) = None"
  proof -
    have u: "used preferred" "\<forall>x \<in> set (ports 1024 65536). used x"
      using that unfolding find_None_iff c by auto
    have "used q" if "1024 \<le> q" for q
    proof -
      have "of_nat (unat q) \<in> set (ports 1024 65536)"
        using that unat_u16_less [of q] unfolding set_ports by (intro imageI) (simp add: word_le_nat_alt)
      with u(2) show ?thesis
        by simp
    qed
    then have "stuck_at used preferred 1024"
      using assms u(1) by (simp add: stuck_at_def)
    then show ?thesis
      using find_port_loop_stuck by (cases "find_port_loop used preferred 1024") blast+
  qed
  moreover have "1024 \<noteq> preferred"
    using assms(2) by auto
  ultimately show ?thesis
    unfolding loop by (simp split: option.split)
qed

text \<open>The port search is the first free port in the order preferred, then upward to 65535, then from
  1024. For an unprivileged preference it always returns, and answers None only when every
  unprivileged port is in use. For a privileged one that is in use together with every
  unprivileged port it never returns.\<close>

theorem find_port_first_free:
  "find_port used preferred =
     (if preferred = 0 then Some None
      else (case find (\<lambda>p. \<not> used p) (candidates preferred) of
              Some p \<Rightarrow> Some (Some p)
            | None \<Rightarrow> if preferred < 1024 then None else Some None))"
  by (cases "preferred < 1024")
    (simp_all add: find_port_def find_port_low find_port_high split: option.split)

lemma find_port_find: "find_port used preferred = Some (Some p) \<Longrightarrow> find (\<lambda>p. \<not> used p) (candidates preferred) = Some p"
  by (cases "preferred < 1024")
    (auto simp: find_port_def find_port_low find_port_high split: option.splits if_splits)

lemma find_port_free: "find_port used preferred = Some (Some p) \<Longrightarrow> \<not> used p \<and> p \<noteq> 0"
proof -
  assume "find_port used preferred = Some (Some p)"
  then have pref: "preferred \<noteq> 0" and f: "find (\<lambda>p. \<not> used p) (candidates preferred) = Some p"
    by (auto simp: find_port_first_free split: if_splits option.splits)
  have zero: "n < 65536 \<Longrightarrow> 1024 \<le> n \<Longrightarrow> (of_nat n :: u16) \<noteq> 0" for n
    using of_nat_u16 [of n] by auto
  have p: "p \<in> set (candidates preferred)" and "\<not> used p"
    using f by (auto simp: find_Some_iff)
  moreover have "p \<noteq> 0"
    using p pref zero unat_ge_1024 [of preferred] unat_u16_less [of preferred]
    by (auto simp: candidates_def set_ports split: if_splits)
  ultimately show ?thesis
    by simp
qed

end
