(* ===== verification/SocketScanner.thy ===== *)
theory SocketScanner
  imports RustPath
begin

section \<open>Discovery of host sockets (src/host/socket\_scanner.rs)\<close>

text \<open>
  The scan for Unix sockets and the difference it reports. What the code does not own is an
  argument: the glob expansion of a pattern (\<open>None\<close> for an invalid one, \<open>None\<close> entries for
  unreadable ones), \<open>lstat\<close>, the UUIDs, the lossy conversion of a path to a string and the
  iteration order of the hash map of a scan.
\<close>

definition MAX_UNIX_SOCKET_PATH :: nat where
  "MAX_UNIX_SOCKET_PATH = 108"

record socket_info =
  si_socket_id :: string
  si_host_path :: bytes
  si_container_path :: string
  si_discovered_at :: nat

record socket_scanner =
  ss_watch_paths :: "string list"
  ss_container_path_prefix :: "string option"
  ss_known :: "(bytes, socket_info) hashmap"
  ss_max_socket_forwards :: nat

definition socket_scanner_new :: "string list \<Rightarrow> string option \<Rightarrow> nat \<Rightarrow> socket_scanner" where
  "socket_scanner_new watch_paths prefix max_forwards =
     \<lparr>ss_watch_paths = watch_paths, ss_container_path_prefix = prefix, ss_known = [], ss_max_socket_forwards = max_forwards\<rparr>"

datatype file_type = RegularFile | Directory | Symlink | Socket

record scan_env =
  se_glob :: "string \<Rightarrow> bytes option list option"
  se_lstat :: "bytes \<Rightarrow> file_type option"
  se_lossy :: "bytes \<Rightarrow> string"
  se_iter :: "bytes list \<Rightarrow> bytes list"
  se_uuid :: "nat \<Rightarrow> string"
  se_now :: nat

definition is_unix_socket :: "scan_env \<Rightarrow> bytes \<Rightarrow> bool" where
  "is_unix_socket env path = (se_lstat env path = Some Socket)"

definition compute_container_path :: "scan_env \<Rightarrow> socket_scanner \<Rightarrow> bytes \<Rightarrow> string" where
  "compute_container_path env s host_path =
     (case ss_container_path_prefix s of
        Some prefix \<Rightarrow>
          let filename = (case file_name host_path of Some f \<Rightarrow> se_lossy env f | None \<Rightarrow> [])
          in se_lossy env (path_join prefix filename)
      | None \<Rightarrow> se_lossy env host_path)"

fun scan_entries :: "scan_env \<Rightarrow> bytes option list \<Rightarrow> (bytes, bytes) hashmap \<Rightarrow> (bytes, bytes) hashmap" where
  "scan_entries env [] current_paths = current_paths"
| "scan_entries env (None # entries) current_paths = scan_entries env entries current_paths"
| "scan_entries env (Some path # entries) current_paths =
     (if is_unix_socket env path then
        (if length (se_lossy env path) > MAX_UNIX_SOCKET_PATH then scan_entries env entries current_paths
         else scan_entries env entries (hm_insert path path current_paths))
      else scan_entries env entries current_paths)"

fun scan_patterns :: "scan_env \<Rightarrow> string list \<Rightarrow> (bytes, bytes) hashmap \<Rightarrow> (bytes, bytes) hashmap" where
  "scan_patterns env [] current_paths = current_paths"
| "scan_patterns env (pattern # patterns) current_paths =
     (case se_glob env pattern of
        None \<Rightarrow> scan_patterns env patterns current_paths
      | Some entries \<Rightarrow> scan_patterns env patterns (scan_entries env entries current_paths))"

definition take_removed ::
  "(bytes, bytes) hashmap \<Rightarrow> (bytes, socket_info) hashmap \<Rightarrow> socket_info list \<times> (bytes, socket_info) hashmap" where
  "take_removed current_paths known =
     (let gone = filter (\<lambda>path. \<not> hm_contains current_paths path) (hm_keys known)
      in (List.map_filter (\<lambda>path. hm_get known path) gone, fold hm_remove gone known))"

fun add_new ::
  "scan_env \<Rightarrow> socket_scanner \<Rightarrow> nat \<Rightarrow> bytes list \<Rightarrow> socket_info list \<Rightarrow> (bytes, socket_info) hashmap
   \<Rightarrow> socket_info list \<times> (bytes, socket_info) hashmap" where
  "add_new env s k [] newly_found known = (newly_found, known)"
| "add_new env s k (path # paths) newly_found known =
     (if hm_contains known path then add_new env s k paths newly_found known
      else if length known \<ge> ss_max_socket_forwards s then (newly_found, known)
      else let info = \<lparr>si_socket_id = se_uuid env k, si_host_path = path,
                       si_container_path = compute_container_path env s path, si_discovered_at = se_now env\<rparr>
           in add_new env s (Suc k) paths (newly_found @ [info]) (hm_insert path info known))"

definition socket_scan :: "scan_env \<Rightarrow> socket_scanner \<Rightarrow> (socket_info list \<times> socket_info list) \<times> socket_scanner" where
  "socket_scan env s =
     (let current_paths = scan_patterns env (ss_watch_paths s) [];
          (removed, known1) = take_removed current_paths (ss_known s);
          (newly_found, known2) = add_new env s 0 (se_iter env (hm_keys current_paths)) [] known1
      in ((newly_found, removed), s\<lparr>ss_known := known2\<rparr>))"

definition known_sockets :: "socket_scanner \<Rightarrow> socket_info list" where
  "known_sockets s = hm_values (ss_known s)"

subsection \<open>What a scan sees and reports\<close>

definition visible :: "scan_env \<Rightarrow> socket_scanner \<Rightarrow> bytes set" where
  "visible env s = {path. \<exists>pattern \<in> set (ss_watch_paths s). \<exists>entries. se_glob env pattern = Some entries
     \<and> Some path \<in> set entries \<and> is_unix_socket env path \<and> length (se_lossy env path) \<le> 108}"

lemma fst_insert: "fst ` set (hm_insert k v m) = insert k (fst ` set m)"
  using hm_keys_insert [of k v m] by simp

lemma scan_entries_keys:
  "fst ` set (scan_entries env entries m) = fst ` set m
     \<union> {p. Some p \<in> set entries \<and> is_unix_socket env p \<and> length (se_lossy env p) \<le> 108}"
  by (induction env entries m rule: scan_entries.induct) (auto simp: fst_insert MAX_UNIX_SOCKET_PATH_def)

lemma scan_entries_wf: "hm_wf m \<Longrightarrow> hm_wf (scan_entries env entries m)"
  by (induction env entries m rule: scan_entries.induct) auto

lemma scan_patterns_keys:
  "fst ` set (scan_patterns env patterns m) = fst ` set m
     \<union> {p. \<exists>pattern \<in> set patterns. \<exists>entries. se_glob env pattern = Some entries \<and> Some p \<in> set entries
          \<and> is_unix_socket env p \<and> length (se_lossy env p) \<le> 108}"
  by (induction env patterns m rule: scan_patterns.induct) (auto simp: scan_entries_keys split: option.splits)

lemma scan_patterns_wf: "hm_wf m \<Longrightarrow> hm_wf (scan_patterns env patterns m)"
  by (induction env patterns m rule: scan_patterns.induct) (auto simp: scan_entries_wf split: option.splits)

lemma current_visible: "set (hm_keys (scan_patterns env (ss_watch_paths s) [])) = visible env s"
  by (simp add: scan_patterns_keys visible_def)

lemma fold_remove_get: "hm_get (fold hm_remove ks m) k = (if k \<in> set ks then None else hm_get m k)"
  by (induction ks arbitrary: m) auto

lemma fold_remove_wf: "hm_wf m \<Longrightarrow> hm_wf (fold hm_remove ks m)"
  by (induction ks arbitrary: m) auto

lemma fold_remove_length: "length (fold hm_remove ks m) \<le> length m"
  by (induction ks arbitrary: m) (auto intro: order_trans hm_length_remove_le)

lemma take_removed_ok:
  assumes "take_removed cur known = (removed, known1)"
  shows "set removed = {i. \<exists>p. hm_get known p = Some i \<and> p \<notin> set (hm_keys cur)}"
    and "hm_get known1 p = (if p \<in> set (hm_keys cur) then hm_get known p else None)"
    and "hm_wf known \<Longrightarrow> hm_wf known1" and "length known1 \<le> length known"
proof -
  let ?gone = "filter (\<lambda>path. \<not> hm_contains cur path) (hm_keys known)"
  have r: "removed = List.map_filter (\<lambda>path. hm_get known path) ?gone" and k: "known1 = fold hm_remove ?gone known"
    using assms by (simp_all add: take_removed_def Let_def)
  show "set removed = {i. \<exists>p. hm_get known p = Some i \<and> p \<notin> set (hm_keys cur)}"
    using hm_get_key [of known] by (force simp: r List.map_filter_def hm_contains_keys image_iff)
  show "hm_get known1 p = (if p \<in> set (hm_keys cur) then hm_get known p else None)"
    using hm_get_key [of known p] by (cases "hm_get known p") (auto simp: k fold_remove_get hm_contains_keys)
  show "hm_wf known \<Longrightarrow> hm_wf known1" "length known1 \<le> length known"
    by (simp_all add: k fold_remove_wf fold_remove_length)
qed

lemma add_new_ok:
  "add_new env s k paths new known = (new', known') \<Longrightarrow> hm_wf known \<Longrightarrow> distinct paths \<Longrightarrow>
   \<exists>added. new' = new @ added \<and> hm_wf known'
     \<and> (\<forall>p i. hm_get known' p = Some i \<longleftrightarrow> hm_get known p = Some i \<or> i \<in> set added \<and> si_host_path i = p)
     \<and> (\<forall>i \<in> set added. si_host_path i \<in> set paths \<and> hm_get known (si_host_path i) = None)
     \<and> ((\<forall>p \<in> set paths. hm_get known' p \<noteq> None) \<or> ss_max_socket_forwards s \<le> length known')
     \<and> (length known \<le> ss_max_socket_forwards s \<longrightarrow> length known' \<le> ss_max_socket_forwards s)
     \<and> map si_socket_id added = map (se_uuid env) [k..<k + length added]"
proof (induction env s k paths new known rule: add_new.induct)
  case (1 env s k new known)
  then show ?case
    by (intro exI [of _ "[]"]) simp
next
  case (2 env s k path paths new known)
  consider (old) "hm_contains known path" | (full) "\<not> hm_contains known path" "ss_max_socket_forwards s \<le> length known"
    | (add) "\<not> hm_contains known path" "length known < ss_max_socket_forwards s"
    by linarith
  then show ?case
  proof cases
    case old
    have r: "add_new env s k paths new known = (new', known')"
      using "2.prems"(1) old by simp
    obtain added where a: "new' = new @ added" "hm_wf known'"
      "\<forall>p i. hm_get known' p = Some i \<longleftrightarrow> hm_get known p = Some i \<or> i \<in> set added \<and> si_host_path i = p"
      "\<forall>i \<in> set added. si_host_path i \<in> set paths \<and> hm_get known (si_host_path i) = None"
      "(\<forall>p \<in> set paths. hm_get known' p \<noteq> None) \<or> ss_max_socket_forwards s \<le> length known'"
      "length known \<le> ss_max_socket_forwards s \<longrightarrow> length known' \<le> ss_max_socket_forwards s"
      "map si_socket_id added = map (se_uuid env) [k..<k + length added]"
      using "2.IH"(1) [OF old r "2.prems"(2)] "2.prems"(3) by auto
    obtain i where "hm_get known path = Some i"
      using old by (auto simp: hm_contains_def)
    then have "hm_get known' path = Some i"
      using a(3) by blast
    then have "(\<forall>p \<in> set (path # paths). hm_get known' p \<noteq> None) \<or> ss_max_socket_forwards s \<le> length known'"
      using a(5) by (simp only: list.set ball_simps) blast
    moreover have "\<forall>i \<in> set added. si_host_path i \<in> set (path # paths) \<and> hm_get known (si_host_path i) = None"
      using a(4) by simp
    ultimately show ?thesis
      using a(1-3,6,7) by blast
  next
    case full
    with "2.prems" show ?thesis
      by (intro exI [of _ "[]"]) simp
  next
    case add
    let ?i = "\<lparr>si_socket_id = se_uuid env k, si_host_path = path,
      si_container_path = compute_container_path env s path, si_discovered_at = se_now env\<rparr>"
    have n: "hm_get known path = None" and w: "hm_wf (hm_insert path ?i known)"
      using add "2.prems"(2) by (simp_all add: hm_contains_def)
    have len: "length (hm_insert path ?i known) = Suc (length known)"
      using hm_length_insert [OF "2.prems"(2)] add by simp
    have r: "add_new env s (Suc k) paths (new @ [?i]) (hm_insert path ?i known) = (new', known')"
      using "2.prems"(1) add by (simp add: Let_def)
    obtain added where a: "new' = (new @ [?i]) @ added" "hm_wf known'"
      "\<forall>p i. hm_get known' p = Some i \<longleftrightarrow> hm_get (hm_insert path ?i known) p = Some i \<or> i \<in> set added \<and> si_host_path i = p"
      "\<forall>i \<in> set added. si_host_path i \<in> set paths \<and> hm_get (hm_insert path ?i known) (si_host_path i) = None"
      "(\<forall>p \<in> set paths. hm_get known' p \<noteq> None) \<or> ss_max_socket_forwards s \<le> length known'"
      "length known' \<le> ss_max_socket_forwards s"
      "map si_socket_id added = map (se_uuid env) [Suc k..<Suc k + length added]"
      using "2.IH"(2) [OF add(1) _ refl r w] "2.prems"(3) add(2) len by auto
    have p: "hm_get known' path = Some ?i"
      using a(3) by simp
    have get: "hm_get known' q = Some i \<longleftrightarrow> hm_get known q = Some i \<or> i \<in> set (?i # added) \<and> si_host_path i = q" for q i
      using a(3,4) n by (auto split: if_splits)
    have upt: "[k..<k + length (?i # added)] = k # [Suc k..<Suc k + length added]"
      by (simp add: upt_rec)
    have ids: "map si_socket_id (?i # added) = map (se_uuid env) [k..<k + length (?i # added)]"
      unfolding upt using a(7) by simp
    have all: "(\<forall>p \<in> set (path # paths). hm_get known' p \<noteq> None) \<or> ss_max_socket_forwards s \<le> length known'"
      using a(5) p by (simp only: list.set ball_simps) blast
    have src: "\<forall>i \<in> set (?i # added). si_host_path i \<in> set (path # paths) \<and> hm_get known (si_host_path i) = None"
      using a(4) n by (auto split: if_splits)
    have cat: "new' = new @ (?i # added)"
      using a(1) by simp
    show ?thesis
      using cat a(2,6) get src all ids by blast
  qed
qed

text \<open>The state of the scanner between scans, and what a scan needs from its environment.\<close>

definition scanner_ok :: "socket_scanner \<Rightarrow> bool" where
  "scanner_ok s \<longleftrightarrow> hm_wf (ss_known s) \<and> length (ss_known s) \<le> ss_max_socket_forwards s
     \<and> (\<forall>p i. hm_get (ss_known s) p = Some i \<longrightarrow> si_host_path i = p)
     \<and> (\<forall>p q i j. hm_get (ss_known s) p = Some i \<longrightarrow> hm_get (ss_known s) q = Some j
          \<longrightarrow> si_socket_id i = si_socket_id j \<longrightarrow> p = q)"

definition fresh_uuids :: "scan_env \<Rightarrow> socket_scanner \<Rightarrow> bool" where
  "fresh_uuids env s \<longleftrightarrow> inj (se_uuid env) \<and> (\<forall>k. se_uuid env k \<notin> si_socket_id ` set (known_sockets s))"

definition iterates :: "scan_env \<Rightarrow> bool" where
  "iterates env \<longleftrightarrow> (\<forall>xs. set (se_iter env xs) = set xs \<and> (distinct xs \<longrightarrow> distinct (se_iter env xs)))"

lemma socket_scan_ok:
  assumes "scanner_ok s" and "iterates env" and "socket_scan env s = ((new, removed), s')"
  shows "set removed = {i. \<exists>p. hm_get (ss_known s) p = Some i \<and> p \<notin> visible env s}"
    and "hm_get (ss_known s') p = Some i \<longleftrightarrow> (p \<in> visible env s \<and> hm_get (ss_known s) p = Some i) \<or> (i \<in> set new \<and> si_host_path i = p)"
    and "i \<in> set new \<Longrightarrow> si_host_path i \<in> visible env s \<and> hm_get (ss_known s) (si_host_path i) = None"
    and "(\<forall>p \<in> visible env s. hm_get (ss_known s') p \<noteq> None) \<or> ss_max_socket_forwards s \<le> length (ss_known s')"
    and "hm_wf (ss_known s')" and "length (ss_known s') \<le> ss_max_socket_forwards s"
    and "map si_socket_id new = map (se_uuid env) [0..<length new]"
    and "ss_max_socket_forwards s' = ss_max_socket_forwards s"
proof -
  let ?cur = "scan_patterns env (ss_watch_paths s) []"
  have cur: "set (hm_keys ?cur) = visible env s"
    by (rule current_visible)
  obtain known1 known2 where t: "take_removed ?cur (ss_known s) = (removed, known1)"
    and a: "add_new env s 0 (se_iter env (hm_keys ?cur)) [] known1 = (new, known2)" and s': "s' = s\<lparr>ss_known := known2\<rparr>"
    using assms(3) by (auto simp: socket_scan_def Let_def split: prod.splits)
  note k1 = take_removed_ok [OF t, unfolded cur]
  have wf: "hm_wf known1" and len: "length known1 \<le> ss_max_socket_forwards s"
    using k1(3,4) assms(1) by (auto simp: scanner_ok_def)
  have "distinct (hm_keys ?cur)"
    using scan_patterns_wf [of "[]" env] by (simp add: hm_wf_def)
  then have it: "set (se_iter env (hm_keys ?cur)) = visible env s" "distinct (se_iter env (hm_keys ?cur))"
    using assms(2) cur by (simp_all add: iterates_def)
  obtain added where "new = [] @ added" and n: "hm_wf known2"
      "\<forall>p i. hm_get known2 p = Some i \<longleftrightarrow> hm_get known1 p = Some i \<or> i \<in> set added \<and> si_host_path i = p"
      "\<forall>i \<in> set added. si_host_path i \<in> visible env s \<and> hm_get known1 (si_host_path i) = None"
      "(\<forall>p \<in> visible env s. hm_get known2 p \<noteq> None) \<or> ss_max_socket_forwards s \<le> length known2"
      "length known1 \<le> ss_max_socket_forwards s \<longrightarrow> length known2 \<le> ss_max_socket_forwards s"
      "map si_socket_id added = map (se_uuid env) [0..<0 + length added]"
    using add_new_ok [OF a wf it(2)] unfolding it(1) by blast
  then have new: "added = new"
    by simp
  show "set removed = {i. \<exists>p. hm_get (ss_known s) p = Some i \<and> p \<notin> visible env s}"
    by (rule k1(1))
  show "hm_get (ss_known s') p = Some i \<longleftrightarrow> (p \<in> visible env s \<and> hm_get (ss_known s) p = Some i) \<or> (i \<in> set new \<and> si_host_path i = p)"
    using n(2) k1(2) new by (simp add: s')
  show "i \<in> set new \<Longrightarrow> si_host_path i \<in> visible env s \<and> hm_get (ss_known s) (si_host_path i) = None"
    using n(3) k1(2) new by (metis option.distinct(1))
  show "(\<forall>p \<in> visible env s. hm_get (ss_known s') p \<noteq> None) \<or> ss_max_socket_forwards s \<le> length (ss_known s')"
    "hm_wf (ss_known s')" "length (ss_known s') \<le> ss_max_socket_forwards s"
    "map si_socket_id new = map (se_uuid env) [0..<length new]" "ss_max_socket_forwards s' = ss_max_socket_forwards s"
    using n(1,4-6) len new by (simp_all add: s')
qed

lemma map_index_ids:
  assumes "map f xs = map g [0..<length xs]" and "x \<in> set xs"
  shows "\<exists>k < length xs. xs ! k = x \<and> f x = g k"
proof -
  obtain k where k: "k < length xs" "xs ! k = x"
    using assms(2) by (auto simp: in_set_conv_nth)
  have "map f xs ! k = map g [0..<length xs] ! k"
    by (simp only: assms(1))
  then show ?thesis
    using k by auto
qed

lemma socket_scan_scanner_ok:
  assumes "scanner_ok s" and "iterates env" and "fresh_uuids env s" and "socket_scan env s = ((new, removed), s')"
  shows "scanner_ok s'"
proof -
  note o = socket_scan_ok [OF assms(1,2,4)]
  have path: "hm_get (ss_known s) p = Some i \<Longrightarrow> si_host_path i = p" for p i
    using assms(1) by (simp add: scanner_ok_def)
  have old: "hm_get (ss_known s) p = Some i \<Longrightarrow> si_socket_id i \<noteq> se_uuid env k" for p i k
    using assms(3) by (force simp: fresh_uuids_def known_sockets_def dest: hm_get_value)
  have new: "i \<in> set new \<Longrightarrow> \<exists>k < length new. new ! k = i \<and> si_socket_id i = se_uuid env k" for i
    using map_index_ids [OF o(7)] .
  have "p = q" if i: "hm_get (ss_known s') p = Some i" and j: "hm_get (ss_known s') q = Some j"
    and e: "si_socket_id i = si_socket_id j" for p q i j
  proof (cases "i \<in> set new \<longleftrightarrow> j \<in> set new")
    case True
    show ?thesis
    proof (cases "i \<in> set new")
      case True: True
      obtain k l where "new ! k = i" "si_socket_id i = se_uuid env k" "new ! l = j" "si_socket_id j = se_uuid env l"
        using new [of i] new [of j] True \<open>i \<in> set new \<longleftrightarrow> j \<in> set new\<close> by blast
      moreover have "inj (se_uuid env)"
        using assms(3) by (simp add: fresh_uuids_def)
      ultimately have "i = j"
        using e by (metis injD)
      then show ?thesis
        using i j o(2) path by metis
    next
      case False
      then show ?thesis
        using i j o(2) e True assms(1) unfolding scanner_ok_def by blast
    qed
  next
    case False
    then show ?thesis
      using i j o(2) e old new by metis
  qed
  moreover have "si_host_path i = p" if "hm_get (ss_known s') p = Some i" for p i
    using that o(2) path by blast
  ultimately show ?thesis
    using o(5,6,8) unfolding scanner_ok_def by metis
qed

subsection \<open>Properties\<close>

text \<open>Socket discovery: a scan reports as removed exactly the known sockets that are no longer visible
  (a socket, not a symlink, of at most 108 bytes, that a pattern matches), as new sockets
  that are visible and were not known, keeps the others with their ids, never tracks more
  than the limit, and tracks every visible socket unless the limit is reached.\<close>

theorem socket_scan_diff:
  assumes "scanner_ok s" and "iterates env" and "fresh_uuids env s" and "socket_scan env s = ((new, removed), s')"
  shows "scanner_ok s'
    \<and> set removed = {i. \<exists>p. hm_get (ss_known s) p = Some i \<and> p \<notin> visible env s}
    \<and> (\<forall>i \<in> set new. si_host_path i \<in> visible env s \<and> hm_get (ss_known s) (si_host_path i) = None)
    \<and> (\<forall>p i. hm_get (ss_known s') p = Some i \<longleftrightarrow>
         (p \<in> visible env s \<and> hm_get (ss_known s) p = Some i) \<or> (i \<in> set new \<and> si_host_path i = p))
    \<and> length (ss_known s') \<le> ss_max_socket_forwards s
    \<and> ((\<forall>p \<in> visible env s. hm_get (ss_known s') p \<noteq> None) \<or> length (ss_known s') = ss_max_socket_forwards s)"
proof -
  note o = socket_scan_ok [OF assms(1,2,4)]
  have "(\<forall>p \<in> visible env s. hm_get (ss_known s') p \<noteq> None) \<or> length (ss_known s') = ss_max_socket_forwards s"
    using o(4,6) by linarith
  with o(1-3,6) socket_scan_scanner_ok [OF assms] show ?thesis
    by blast
qed

text \<open>The instance: two matches, one of them a symlink, and a known socket that is gone.\<close>

definition demo_env :: scan_env where
  "demo_env = \<lparr>se_glob = (\<lambda>pattern. Some [Some ''/tmp/a'', None, Some ''/tmp/b'']),
     se_lstat = (\<lambda>p. if p = ''/tmp/a'' then Some Socket else if p = ''/tmp/b'' then Some Symlink else None),
     se_lossy = (\<lambda>p. p), se_iter = (\<lambda>ps. ps), se_uuid = (\<lambda>k. replicate (k + 2) (CHR ''u'')), se_now = 5\<rparr>"

definition demo_scanner :: socket_scanner where
  "demo_scanner = \<lparr>ss_watch_paths = [''/tmp/*''], ss_container_path_prefix = Some ''/run'',
     ss_known = [(''/tmp/c'', \<lparr>si_socket_id = ''u'', si_host_path = ''/tmp/c'', si_container_path = ''/run/c'', si_discovered_at = 1\<rparr>)],
     ss_max_socket_forwards = 1\<rparr>"

theorem socket_scan_diff_witness:
  "case socket_scan demo_env demo_scanner of ((new, removed), s') \<Rightarrow>
     map si_host_path new = [''/tmp/a''] \<and> map si_host_path removed = [''/tmp/c''] \<and> scanner_ok s'"
proof -
  obtain new removed s' where r: "socket_scan demo_env demo_scanner = ((new, removed), s')"
    by (metis prod.collapse)
  have "map si_host_path new = [''/tmp/a''] \<and> map si_host_path removed = [''/tmp/c'']"
    using r by (auto simp: socket_scan_def demo_env_def demo_scanner_def is_unix_socket_def MAX_UNIX_SOCKET_PATH_def
        take_removed_def hm_contains_def List.map_filter_def Let_def)
  moreover have "scanner_ok demo_scanner" "iterates demo_env" "fresh_uuids demo_env demo_scanner"
    by (auto simp: scanner_ok_def demo_scanner_def iterates_def demo_env_def fresh_uuids_def known_sockets_def
        inj_def hm_wf_Cons split: if_splits)
  ultimately show ?thesis
    using socket_scan_diff [OF _ _ _ r] r by simp
qed

end
