(* ===== verification/HostState.thy ===== *)
theory HostState
  imports HostPorts SocketScanner
begin

section \<open>The state of the host daemon (src/host/mod.rs)\<close>

text \<open>
  The containers with their forwards, the table of used host ports and the socket forwards,
  with the queries on them and the parts of the handlers that run under one acquisition of the
  state lock. Each such part is one function here; theory Host composes them into the
  handlers, theory HostSystem interleaves them.
\<close>

definition MAX_CONTAINERS :: nat where "MAX_CONTAINERS = 64"
definition MAX_FORWARDS_PER_CONTAINER :: nat where "MAX_FORWARDS_PER_CONTAINER = 128"
definition MAX_IDENTIFIER_LENGTH :: nat where "MAX_IDENTIFIER_LENGTH = 256"
definition MAX_CONN_ID_LENGTH :: nat where "MAX_CONN_ID_LENGTH = 128"

text \<open>\<open>alnum\<close> is \<open>char::is_alphanumeric\<close> beyond ASCII, the Unicode table of the standard library.\<close>

definition ident_char :: "(bytes \<Rightarrow> bool) \<Rightarrow> bytes \<Rightarrow> bool" where
  "ident_char alnum ch =
     (case ch of
        [c] \<Rightarrow> is_ascii_alphanumeric c \<or> c = CHR ''-'' \<or> c = CHR ''_'' \<or> c = CHR ''.''
      | _ \<Rightarrow> alnum ch)"

definition is_valid_identifier :: "(bytes \<Rightarrow> bool) \<Rightarrow> string \<Rightarrow> bool" where
  "is_valid_identifier alnum s \<longleftrightarrow>
     s \<noteq> [] \<and> length s \<le> MAX_IDENTIFIER_LENGTH \<and> (\<forall>ch \<in> set (str_chars s). ident_char alnum ch)"

datatype forward_error =
    TooManyForwards nat
  | NoAvailablePorts
  | ContainerGone
  | ListenerBind u16

text \<open>
  The shutdown sender and the join handle of a listener task are the number of the task, the
  tracker of a forward is a number too.
\<close>

record forward_state =
  fs_host_port :: u16
  fs_listener :: nat
  fs_process_name :: "string option"
  fs_pid :: "u32 option"
  fs_since :: string
  fs_tracker :: nat

record outbound_connect_request =
  ocr_port :: u16
  ocr_conn_id :: string

record container_state =
  con_registration_id :: u64
  con_hostname :: string
  con_forwards :: "(u16, forward_state) hashmap"
  con_connect_request_tx :: nat
  con_outbound_msg_tx :: nat

record host_state =
  hs_containers :: "(string, container_state) hashmap"
  hs_used_host_ports :: "(u16, string) hashmap"
  hs_socket_forwards :: "(string, socket_info) hashmap"

definition host_state_new :: host_state where
  "host_state_new = \<lparr>hs_containers = [], hs_used_host_ports = [], hs_socket_forwards = []\<rparr>"

subsection \<open>Queries\<close>

definition find_available_port :: "host_state \<Rightarrow> u16 \<Rightarrow> u16 option option" where
  "find_available_port s preferred = find_port (hm_contains (hs_used_host_ports s)) preferred"

fun find_container :: "u16 \<Rightarrow> (string \<times> container_state) list \<Rightarrow> string option" where
  "find_container port [] = None"
| "find_container port ((cid, c) # rest) =
     (if hm_contains (con_forwards c) port then Some cid else find_container port rest)"

definition find_container_for_port :: "host_state \<Rightarrow> u16 \<Rightarrow> string option" where
  "find_container_for_port s container_port = find_container container_port (hs_containers s)"

definition forward_info_of :: "string \<Rightarrow> container_state \<Rightarrow> u16 \<times> forward_state \<Rightarrow> forward_info" where
  "forward_info_of cid c pf =
     \<lparr>fi_container_id = cid, fi_hostname = con_hostname c, fi_port = fst pf, fi_host_port = fs_host_port (snd pf),
      fi_protocol = Tcp, fi_process_name = fs_process_name (snd pf), fi_pid = fs_pid (snd pf), fi_since = fs_since (snd pf)\<rparr>"

definition collect_forward_info :: "host_state \<Rightarrow> forward_info list" where
  "collect_forward_info s =
     concat (map (\<lambda>(cid, c). map (forward_info_of cid c) (con_forwards c)) (hs_containers s))"

definition collect_socket_forward_info :: "(bytes \<Rightarrow> string) \<Rightarrow> host_state \<Rightarrow> socket_forward_info list" where
  "collect_socket_forward_info lossy s =
     map (\<lambda>info. \<lparr>sfi_socket_id = si_socket_id info, sfi_host_path = lossy (si_host_path info),
                  sfi_container_path = si_container_path info\<rparr>) (hm_values (hs_socket_forwards s))"

subsection \<open>Critical sections of forwarding\<close>

definition set_container :: "string \<Rightarrow> container_state \<Rightarrow> host_state \<Rightarrow> host_state" where
  "set_container cid c s = s\<lparr>hs_containers := hm_insert cid c (hs_containers s)\<rparr>"

definition release_port :: "u16 \<Rightarrow> host_state \<Rightarrow> host_state" where
  "release_port p s = s\<lparr>hs_used_host_ports := hm_remove p (hs_used_host_ports s)\<rparr>"

definition reserve_port :: "u16 \<Rightarrow> string \<Rightarrow> host_state \<Rightarrow> host_state" where
  "reserve_port p cid s = s\<lparr>hs_used_host_ports := hm_insert p cid (hs_used_host_ports s)\<rparr>"

text \<open>Taking one forward out of a container and its port out of the used ports.\<close>

definition take_forward :: "string \<Rightarrow> u16 \<Rightarrow> host_state \<Rightarrow> forward_state option \<times> host_state" where
  "take_forward cid port s =
     (case hm_get (hs_containers s) cid of
        None \<Rightarrow> (None, s)
      | Some c \<Rightarrow>
          (case hm_get (con_forwards c) port of
             None \<Rightarrow> (None, s)
           | Some f \<Rightarrow>
               (Some f, release_port (fs_host_port f)
                  (set_container cid (c\<lparr>con_forwards := hm_remove port (con_forwards c)\<rparr>) s))))"

definition forward_take_old :: "string \<Rightarrow> u16 \<Rightarrow> host_state \<Rightarrow> (forward_error + forward_state option) \<times> host_state" where
  "forward_take_old cid port s =
     (case hm_get (hs_containers s) cid of
        None \<Rightarrow> (Inr None, s)
      | Some c \<Rightarrow>
          if length (con_forwards c) \<ge> MAX_FORWARDS_PER_CONTAINER \<and> \<not> hm_contains (con_forwards c) port
          then (Inl (TooManyForwards MAX_FORWARDS_PER_CONTAINER), s)
          else (case take_forward cid port s of (old, s1) \<Rightarrow> (Inr old, s1)))"

text \<open>The outer \<open>None\<close> is a port search that never returns, with the lock held.\<close>

definition forward_reserve :: "string \<Rightarrow> u16 \<Rightarrow> host_state \<Rightarrow> ((forward_error + u16) \<times> host_state) option" where
  "forward_reserve cid port s =
     (case find_available_port s port of
        None \<Rightarrow> None
      | Some None \<Rightarrow> Some (Inl NoAvailablePorts, s)
      | Some (Some tp) \<Rightarrow> Some (Inr tp, reserve_port tp cid s))"

definition forward_commit :: "string \<Rightarrow> u16 \<Rightarrow> u16 \<Rightarrow> forward_state \<Rightarrow> host_state \<Rightarrow> (forward_error + u16) \<times> host_state" where
  "forward_commit cid port target_port f s =
     (case hm_get (hs_containers s) cid of
        Some c \<Rightarrow>
          let s1 = set_container cid (c\<lparr>con_forwards := hm_insert port f (con_forwards c)\<rparr>) s;
              s2 = (if fs_host_port f \<noteq> target_port
                    then reserve_port (fs_host_port f) cid (release_port target_port s1) else s1)
          in (Inr (fs_host_port f), s2)
      | None \<Rightarrow> (Inl ContainerGone, release_port (fs_host_port f) s))"

definition unforward_global_take :: "u16 \<Rightarrow> host_state \<Rightarrow> forward_state option \<times> host_state" where
  "unforward_global_take port s =
     (case find_container_for_port s port of
        None \<Rightarrow> (None, s)
      | Some cid \<Rightarrow> take_forward cid port s)"

text \<open>Whether a registration still owns the state of its container.\<close>

definition owns :: "string \<Rightarrow> u64 \<Rightarrow> host_state \<Rightarrow> bool" where
  "owns cid registration_id s \<longleftrightarrow>
     (case hm_get (hs_containers s) cid of None \<Rightarrow> False | Some c \<Rightarrow> con_registration_id c = registration_id)"

text \<open>Removing a container and freeing the ports of all its forwards.\<close>

definition release_ports :: "(u16, forward_state) hashmap \<Rightarrow> host_state \<Rightarrow> host_state" where
  "release_ports forwards s = fold (\<lambda>(port, f) t. release_port (fs_host_port f) t) forwards s"

definition remove_container :: "string \<Rightarrow> host_state \<Rightarrow> host_state" where
  "remove_container cid s = s\<lparr>hs_containers := hm_remove cid (hs_containers s)\<rparr>"

definition cleanup_take :: "string \<Rightarrow> u64 \<Rightarrow> host_state \<Rightarrow> (u16, forward_state) hashmap option \<times> host_state" where
  "cleanup_take cid expected_reg_id s =
     (case hm_get (hs_containers s) cid of
        None \<Rightarrow> (None, s)
      | Some c \<Rightarrow>
          if con_registration_id c \<noteq> expected_reg_id then (None, s)
          else (Some (con_forwards c), release_ports (con_forwards c) (remove_container cid s)))"

text \<open>\<open>None\<close> in the sum is a new container, \<open>Some\<close> the forwards of the superseded registration.\<close>

definition register_take ::
  "string \<Rightarrow> host_state \<Rightarrow> (unit + (u16, forward_state) hashmap option) \<times> host_state" where
  "register_take cid s =
     (case hm_get (hs_containers s) cid of
        None \<Rightarrow>
          if length (hs_containers s) \<ge> MAX_CONTAINERS then (Inl (), remove_container cid s)
          else (Inr None, remove_container cid s)
      | Some c \<Rightarrow> (Inr (Some (con_forwards c)), release_ports (con_forwards c) (remove_container cid s)))"

definition register_insert :: "string \<Rightarrow> string \<Rightarrow> u64 \<Rightarrow> nat \<Rightarrow> nat \<Rightarrow> host_state \<Rightarrow> host_state" where
  "register_insert cid hostname reg_id req out s =
     set_container cid \<lparr>con_registration_id = reg_id, con_hostname = hostname, con_forwards = [],
       con_connect_request_tx = req, con_outbound_msg_tx = out\<rparr> s"

definition drain_all_take :: "host_state \<Rightarrow> (u16, forward_state) hashmap \<times> host_state" where
  "drain_all_take s =
     (concat (map (\<lambda>(cid, c). con_forwards c) (hs_containers s)), s\<lparr>hs_containers := [], hs_used_host_ports := []\<rparr>)"

definition socket_update :: "socket_info list \<Rightarrow> socket_info list \<Rightarrow> host_state \<Rightarrow> host_state" where
  "socket_update new removed s =
     s\<lparr>hs_socket_forwards :=
         fold (\<lambda>i m. hm_remove (si_socket_id i) m) removed
           (fold (\<lambda>i m. hm_insert (si_socket_id i) i m) new (hs_socket_forwards s))\<rparr>"

subsection \<open>Lookups after the updates\<close>

lemma host_simps_update [host_simps, simp]:
  "hs_containers (set_container cid c s) = hm_insert cid c (hs_containers s)"
  "hs_used_host_ports (set_container cid c s) = hs_used_host_ports s"
  "hs_socket_forwards (set_container cid c s) = hs_socket_forwards s"
  "hs_containers (release_port p s) = hs_containers s"
  "hs_used_host_ports (release_port p s) = hm_remove p (hs_used_host_ports s)"
  "hs_socket_forwards (release_port p s) = hs_socket_forwards s"
  "hs_containers (reserve_port p cid s) = hs_containers s"
  "hs_used_host_ports (reserve_port p cid s) = hm_insert p cid (hs_used_host_ports s)"
  "hs_socket_forwards (reserve_port p cid s) = hs_socket_forwards s"
  "hs_containers (remove_container cid s) = hm_remove cid (hs_containers s)"
  "hs_used_host_ports (remove_container cid s) = hs_used_host_ports s"
  "hs_socket_forwards (remove_container cid s) = hs_socket_forwards s"
  by (simp_all add: set_container_def release_port_def reserve_port_def remove_container_def)

lemma release_ports_simps [host_simps, simp]:
  "hs_containers (release_ports fs s) = hs_containers s"
  "hs_socket_forwards (release_ports fs s) = hs_socket_forwards s"
  by (induction fs arbitrary: s) (auto simp: release_ports_def)

lemma release_ports_used [host_simps]:
  "hm_get (hs_used_host_ports (release_ports fs s)) p =
     (if p \<in> fs_host_port ` set (hm_values fs) then None else hm_get (hs_used_host_ports s) p)"
  by (induction fs arbitrary: s) (auto simp: release_ports_def)

lemma release_ports_wf [host_simps]: "hm_wf (hs_used_host_ports s) \<Longrightarrow> hm_wf (hs_used_host_ports (release_ports fs s))"
  by (induction fs arbitrary: s) (auto simp: release_ports_def)

lemma find_container_Some:
  "find_container port cs = Some cid \<Longrightarrow> \<exists>c. (cid, c) \<in> set cs \<and> hm_contains (con_forwards c) port"
  by (induction port cs rule: find_container.induct) (auto split: if_splits)

lemma find_container_None:
  "find_container port cs = None \<longleftrightarrow> (\<forall>(cid, c) \<in> set cs. \<not> hm_contains (con_forwards c) port)"
  by (induction port cs rule: find_container.induct) auto

end
