(* ===== verification/Clipboard.thy ===== *)
theory Clipboard
  imports Framing
begin

section \<open>Clipboard images (src/clipboard\_capture.rs, src/host/clipboard.rs, src/clipboard\_client.rs)\<close>

text \<open>
  The capture of images by a helper process with bounded output, the service that streams
  them on a data connection once the request is authenticated, and the client that receives
  them. The helper process is a parameter: what it prints before the deadline and how it
  ends.
\<close>

definition MAX_IMAGE_BYTES :: nat where "MAX_IMAGE_BYTES = 20 * 1024 * 1024"
definition MAX_BATCH_IMAGES :: nat where "MAX_BATCH_IMAGES = 16"
definition MAX_BATCH_BYTES :: nat where "MAX_BATCH_BYTES = 64 * 1024 * 1024"
definition MAX_STDERR_BYTES :: nat where "MAX_STDERR_BYTES = 4096"
definition MAX_HEADER_BYTES :: nat where "MAX_HEADER_BYTES = 256"

record clipboard_image =
  ci_format :: clipboard_format
  ci_bytes :: bytes

datatype capture_error =
    Unavailable
  | MixedSelection
  | CaptureTimeout
  | TooLarge
  | CaptureIo io_error
  | UnsupportedPlatform

subsection \<open>Capture\<close>

definition png_signature :: bytes where
  "png_signature = [CHR 0x89, CHR ''P'', CHR ''N'', CHR ''G'', CHR 0x0D, CHR 0x0A, CHR 0x1A, CHR 0x0A]"

definition jpeg_signature :: bytes where
  "jpeg_signature = [CHR 0xFF, CHR 0xD8, CHR 0xFF]"

fun matches_format :: "bytes \<Rightarrow> clipboard_format \<Rightarrow> bool" where
  "matches_format bs Png = starts_with bs png_signature"
| "matches_format bs Jpeg = starts_with bs jpeg_signature"
| "matches_format bs Auto = False"

definition image_format :: "bytes \<Rightarrow> clipboard_format \<Rightarrow> clipboard_format option" where
  "image_format bs requested =
     find (\<lambda>candidate. matches_format bs candidate \<and> (requested = Auto \<or> requested = candidate)) [Png, Jpeg]"

definition read_bounded :: "bytes \<Rightarrow> nat \<Rightarrow> capture_error + bytes" where
  "read_bounded out limit =
     (let bs = take (limit + 1) out in if length bs > limit then Inl TooLarge else Inr bs)"

text \<open>
  A helper cannot be spawned, or it prints so much to each pipe before the deadline and
  then exits in time with a status, or it does not exit in time.
\<close>

datatype helper =
    SpawnError io_error
  | Helper bytes bytes "bool option"

type_synonym helpers = "string \<Rightarrow> string \<Rightarrow> helper"

definition run_helper :: "helper \<Rightarrow> nat \<Rightarrow> capture_error + bytes" where
  "run_helper h output_limit =
     (case h of
        SpawnError e \<Rightarrow> Inl (CaptureIo e)
      | Helper out err status \<Rightarrow>
          res_bind (read_bounded out output_limit) (\<lambda>bs.
          res_bind (read_bounded err MAX_STDERR_BYTES) (\<lambda>_.
          (case status of
             None \<Rightarrow> Inl CaptureTimeout
           | Some success \<Rightarrow> if \<not> success then Inl Unavailable else Inr bs))))"

fun try_programs :: "helpers \<Rightarrow> string \<Rightarrow> clipboard_format \<Rightarrow> string list \<Rightarrow> capture_error + bytes" where
  "try_programs run mime format [] = Inl Unavailable"
| "try_programs run mime format (program # programs) =
     (case run_helper (run program mime) MAX_IMAGE_BYTES of
        Inr bs \<Rightarrow> if matches_format bs format then Inr bs else try_programs run mime format programs
      | Inl Unavailable \<Rightarrow> try_programs run mime format programs
      | Inl (CaptureIo NotFound) \<Rightarrow> try_programs run mime format programs
      | Inl e \<Rightarrow> Inl e)"

definition capture_format :: "helpers \<Rightarrow> clipboard_format \<Rightarrow> capture_error + bytes" where
  "capture_format run format =
     (case format of
        Png \<Rightarrow> try_programs run ''image/png'' Png [''wl-paste'', ''xclip'']
      | Jpeg \<Rightarrow> try_programs run ''image/jpeg'' Jpeg [''wl-paste'', ''xclip'']
      | Auto \<Rightarrow> Inl Unavailable)"

text \<open>On other platforms than Linux and macOS there is no helper to ask.\<close>

definition capture_format_other :: "clipboard_format \<Rightarrow> capture_error + bytes" where
  "capture_format_other format = Inl UnsupportedPlatform"

text \<open>\<open>capture_one\<close> is the platform's \<open>capture_format\<close>.\<close>

fun try_formats ::
  "(clipboard_format \<Rightarrow> capture_error + bytes) \<Rightarrow> clipboard_format list \<Rightarrow> capture_error + clipboard_image list" where
  "try_formats capture_one [] = Inl Unavailable"
| "try_formats capture_one (candidate # formats) =
     (case capture_one candidate of
        Inr bs \<Rightarrow> if matches_format bs candidate then Inr [\<lparr>ci_format = candidate, ci_bytes = bs\<rparr>]
                  else try_formats capture_one formats
      | Inl Unavailable \<Rightarrow> try_formats capture_one formats
      | Inl e \<Rightarrow> Inl e)"

definition capture_candidates ::
  "(clipboard_format \<Rightarrow> capture_error + bytes) \<Rightarrow> clipboard_format \<Rightarrow> capture_error + clipboard_image list" where
  "capture_candidates capture_one format =
     try_formats capture_one (case format of Auto \<Rightarrow> [Png, Jpeg] | Png \<Rightarrow> [Png] | Jpeg \<Rightarrow> [Jpeg])"

text \<open>The macOS helper prints a JSON header with the sizes; its parser is a parameter.\<close>

fun split_images ::
  "nat \<Rightarrow> clipboard_format \<Rightarrow> u64 list \<Rightarrow> bytes \<Rightarrow> clipboard_image list \<Rightarrow> capture_error + clipboard_image list" where
  "split_images count format [] rest images = (if rest \<noteq> [] then Inl Unavailable else Inr images)"
| "split_images count format (sz # sizes) rest images =
     (if sz = 0 \<or> unat sz > MAX_IMAGE_BYTES \<or> unat sz > length rest then Inl Unavailable
      else (case image_format (take (unat sz) rest) format of
              None \<Rightarrow> Inl (if count > 1 then MixedSelection else Unavailable)
            | Some matched \<Rightarrow>
                split_images count format sizes (drop (unat sz) rest)
                  (images @ [\<lparr>ci_format = matched, ci_bytes = take (unat sz) rest\<rparr>])))"

definition split_captured_images ::
  "(bytes \<Rightarrow> u64 list option) \<Rightarrow> bytes \<Rightarrow> clipboard_format \<Rightarrow> capture_error + clipboard_image list" where
  "split_captured_images header out format =
     (case position (\<lambda>b. b = newline) (take MAX_HEADER_BYTES out) of
        None \<Rightarrow> Inl Unavailable
      | Some nl \<Rightarrow>
          (case header (take nl out) of
             None \<Rightarrow> Inl Unavailable
           | Some sizes \<Rightarrow>
               if sizes = [] \<or> length sizes > MAX_BATCH_IMAGES then Inl Unavailable
               else split_images (length sizes) format sizes (drop (nl + 1) out) []))"

subsection \<open>The service\<close>

record clipboard_service =
  cs_enabled :: bool
  cs_token :: "string option"
  cs_transfer :: nat

definition clipboard_service_new :: "bool \<Rightarrow> string option \<Rightarrow> clipboard_service" where
  "clipboard_service_new enabled token = \<lparr>cs_enabled = enabled, cs_token = token, cs_transfer = 1\<rparr>"

definition clip_reject :: "json_printer \<Rightarrow> tcp_writer \<Rightarrow> string \<Rightarrow> (control_error + unit) \<times> tcp_writer" where
  "clip_reject to_string w error = write_message to_string w (ClipboardError error)"

fun write_each :: "json_printer \<Rightarrow> tcp_writer \<Rightarrow> clipboard_image list \<Rightarrow> (control_error + unit) \<times> tcp_writer" where
  "write_each to_string w [] = (Inr (), w)"
| "write_each to_string w (img # images) =
     (case write_message to_string w (ClipboardReady (ci_format img) (of_nat (length (ci_bytes img)))) of
        (Inl e, w1) \<Rightarrow> (Inl e, w1)
      | (Inr _, w1) \<Rightarrow>
          (case write_all (ci_bytes img) w1 of
             (Inl e, w2) \<Rightarrow> (Inl (Io e), w2)
           | (Inr _, w2) \<Rightarrow> write_each to_string w2 images))"

definition write_images :: "json_printer \<Rightarrow> tcp_writer \<Rightarrow> clipboard_image list \<Rightarrow> (control_error + unit) \<times> tcp_writer" where
  "write_images to_string w images =
     (if length images > 1 then
        (case write_message to_string w (ClipboardBatchReady (of_nat (length images))) of
           (Inl e, w1) \<Rightarrow> (Inl e, w1)
         | (Inr _, w1) \<Rightarrow> write_each to_string w1 images)
      else write_each to_string w images)"

definition shutdown_writer :: "tcp_writer \<Rightarrow> tcp_writer" where
  "shutdown_writer w = w\<lparr>tw_up := False\<rparr>"

text \<open>
  \<open>capture\<close> is the platform's capture and \<open>show_error\<close> the \<open>Display\<close> of its errors. The permit
  is taken for the length of the call and given back, so the service itself is unchanged.
\<close>

definition serve ::
  "json_printer \<Rightarrow> (capture_error \<Rightarrow> string) \<Rightarrow> (clipboard_format \<Rightarrow> capture_error + clipboard_image list)
   \<Rightarrow> clipboard_service \<Rightarrow> tcp_writer \<Rightarrow> clipboard_format \<Rightarrow> clipboard_token \<Rightarrow> (control_error + unit) \<times> tcp_writer" where
  "serve to_string show_error capture s w format token =
     (if \<not> cs_enabled s then
        clip_reject to_string w ''clipboard sharing is disabled; start host-daemon with --allow-clipboard''
      else if \<not> (case cs_token s of
                  None \<Rightarrow> False
                | Some expected \<Rightarrow> expected \<noteq> [] \<and> token = ClipboardToken expected) then
        clip_reject to_string w ''clipboard authentication failed''
      else if cs_transfer s = 0 then
        clip_reject to_string w ''another clipboard transfer is in progress; try again''
      else (case capture format of
              Inl error \<Rightarrow> clip_reject to_string w (show_error error)
            | Inr images \<Rightarrow>
                (case write_images to_string w images of
                   (Inl e, w1) \<Rightarrow> (Inl e, w1)
                 | (Inr _, w1) \<Rightarrow> (Inr (), shutdown_writer w1))))"

subsection \<open>The client\<close>

datatype paste_error =
    PasteIo io_error
  | PasteProtocol control_error
  | PasteHost string
  | InvalidResponse string
  | PasteTimeout
  | InvalidPath string
  | Tmux string
  | TmuxPaste string string

function read_exact :: "nat \<Rightarrow> bytes \<Rightarrow> buf_reader \<Rightarrow> (io_error + bytes) \<times> buf_reader" where
  "read_exact n acc r =
     (if n = 0 then (Inr acc, r)
      else (case fill_buf r of
              (Inl e, r1) \<Rightarrow> (Inl e, r1)
            | (Inr available, r1) \<Rightarrow>
                if available = [] then (Inl OtherIo, r1)
                else if n \<le> length available then (Inr (acc @ take n available), consume n r1)
                else read_exact (n - length available) (acc @ available) (consume (length available) r1)))"
  by pat_completeness auto
termination
  by (relation "measure (\<lambda>(n, acc, r). reads_left r)") (auto simp: reads_left_consume)

declare read_exact.simps [simp del]

definition saturating_add :: "u64 \<Rightarrow> u64 \<Rightarrow> u64" where
  "saturating_add a b = (if unat a + unat b < 2 ^ 64 then a + b else - 1)"

fun receive_loop ::
  "json_parser \<Rightarrow> clipboard_format \<Rightarrow> nat \<Rightarrow> message option \<Rightarrow> u64 \<Rightarrow> (clipboard_format \<times> bytes) list
   \<Rightarrow> buf_reader \<Rightarrow> (paste_error + (clipboard_format \<times> bytes) list) \<times> buf_reader" where
  "receive_loop from_str requested 0 buffered tot images r = (Inr images, r)"
| "receive_loop from_str requested (Suc n) buffered tot images r =
     (case (case buffered of Some m \<Rightarrow> (Inr m, r) | None \<Rightarrow> read_message from_str r) of
        (Inl e, r1) \<Rightarrow> (Inl (PasteProtocol e), r1)
      | (Inr (ClipboardReady format sz), r1) \<Rightarrow>
          if format = Auto \<or> (requested \<noteq> Auto \<and> requested \<noteq> format)
          then (Inl (InvalidResponse ''unexpected image format''), r1)
          else (let tot = saturating_add tot sz in
            if sz = 0 \<or> unat sz > MAX_IMAGE_BYTES \<or> unat tot > MAX_BATCH_BYTES
            then (Inl (InvalidResponse ''image size is outside the allowed range''), r1)
            else (case read_exact (unat sz) [] r1 of
                    (Inl e, r2) \<Rightarrow> (Inl (PasteIo e), r2)
                  | (Inr bs, r2) \<Rightarrow>
                      if \<not> matches_format bs format
                      then (Inl (InvalidResponse ''image signature does not match its format''), r2)
                      else receive_loop from_str requested n None tot (images @ [(format, bs)]) r2))
      | (Inr (ClipboardError error), r1) \<Rightarrow> (Inl (PasteHost error), r1)
      | (Inr _, r1) \<Rightarrow> (Inl (InvalidResponse ''expected ClipboardReady''), r1))"

definition receive_images ::
  "json_parser \<Rightarrow> buf_reader \<Rightarrow> clipboard_format \<Rightarrow> (paste_error + (clipboard_format \<times> bytes) list) \<times> buf_reader" where
  "receive_images from_str r requested =
     (case read_message from_str r of
        (Inl e, r1) \<Rightarrow> (Inl (PasteProtocol e), r1)
      | (Inr m, r1) \<Rightarrow>
          (let (count, buffered) = (case m of ClipboardBatchReady count \<Rightarrow> (count, None) | message \<Rightarrow> (1, Some message))
           in if count = 0 \<or> unat count > MAX_BATCH_IMAGES
              then (Inl (InvalidResponse ''image count is outside the allowed range''), r1)
              else receive_loop from_str requested (unat count) buffered 0 [] r1))"

subsection \<open>Reading and writing\<close>

lemma read_exact_stream:
  "clean r \<Longrightarrow> stream r = b @ t \<Longrightarrow> n = length b \<Longrightarrow>
   \<exists>r'. read_exact n acc r = (Inr (acc @ b), r') \<and> clean r' \<and> stream r' = t"
proof (induction n acc r arbitrary: b rule: read_exact.induct)
  case (1 n acc r)
  show ?case
  proof (cases "n = 0")
    case True
    with "1.prems" show ?thesis
      by (simp add: read_exact.simps)
  next
    case False
    obtain a r1 u where f: "fill_buf r = (Inr a, r1)" and c: "clean r1" and s: "stream r = a @ u" and ne: "a \<noteq> []"
      using tcp.fill_ok [OF "1.prems"(1)] "1.prems"(2,3) False by (metis append_is_Nil_conv length_0_conv)
    note eat = tcp.eat_ok [OF "1.prems"(1) f]
    show ?thesis
    proof (cases "n \<le> length a")
      case True
      then have "take n a = b"
        using s "1.prems"(2,3) by (metis append_eq_append_conv_if)
      moreover have "clean (consume n r1)" "stream (consume n r1) = t"
        using eat [OF True] "1.prems"(2,3) by simp_all
      ultimately show ?thesis
        using True False f ne by (simp add: read_exact.simps [of n acc r])
    next
      case F: False
      then have b: "b = a @ drop (length a) b"
        using s "1.prems"(2,3) by (metis append_eq_append_conv_if append_take_drop_id nat_le_linear)
      have "clean (consume (length a) r1)" and "stream (consume (length a) r1) = drop (length a) b @ t"
        using eat [of "length a"] "1.prems"(2,3) F by simp_all
      from "1.IH" [OF False f [symmetric] refl ne F this] b "1.prems"(3) False F f ne show ?thesis
        by (simp add: read_exact.simps [of "length b" acc r])
    qed
  qed
qed

lemma write_message_fits:
  "fits to_string from_str m \<Longrightarrow> tw_up w \<Longrightarrow>
   write_message to_string w m = (Inr (), w\<lparr>tw_out := tw_out w @ the (to_string m) @ [newline]\<rparr>)"
  using fits_json [of to_string from_str m] by (auto simp: write_message_def write_all_def)

definition ready :: "clipboard_image \<Rightarrow> message" where
  "ready img = ClipboardReady (ci_format img) (of_nat (length (ci_bytes img)))"

definition image_frames :: "json_printer \<Rightarrow> clipboard_image list \<Rightarrow> bytes" where
  "image_frames to_string images = concat (map (\<lambda>i. the (to_string (ready i)) @ newline # ci_bytes i) images)"

lemma write_each_frames:
  "tw_up w \<Longrightarrow> \<forall>i \<in> set images. fits to_string from_str (ready i) \<Longrightarrow>
   write_each to_string w images = (Inr (), w\<lparr>tw_out := tw_out w @ image_frames to_string images\<rparr>)"
proof (induction images arbitrary: w)
  case (Cons i images)
  then have "fits to_string from_str (ClipboardReady (ci_format i) (of_nat (length (ci_bytes i))))"
    by (simp add: ready_def)
  from write_message_fits [OF this Cons.prems(1)] Cons.prems Cons.IH show ?case
    by (simp add: image_frames_def ready_def write_all_def)
qed (simp add: image_frames_def)

text \<open>The images a client accepts for a request.\<close>

definition acceptable :: "clipboard_format \<Rightarrow> clipboard_image list \<Rightarrow> bool" where
  "acceptable requested images \<longleftrightarrow>
     images \<noteq> [] \<and> length images \<le> 16 \<and> sum_list (map (length \<circ> ci_bytes) images) \<le> 67108864
     \<and> (\<forall>i \<in> set images. matches_format (ci_bytes i) (ci_format i) \<and> length (ci_bytes i) \<le> 20971520
          \<and> (requested = Auto \<or> requested = ci_format i))"

lemma matches_nonempty: "matches_format bs f \<Longrightarrow> bs \<noteq> [] \<and> f \<noteq> Auto"
  by (cases f) (auto simp: png_signature_def jpeg_signature_def)

lemma receive_loop_images:
  "clean r \<Longrightarrow> stream r = drop k (image_frames to_string images) @ t \<Longrightarrow>
   (case buffered of None \<Rightarrow> k = 0
      | Some m \<Rightarrow> images \<noteq> [] \<and> m = ready (hd images) \<and> k = Suc (length (the (to_string (ready (hd images)))))) \<Longrightarrow>
   \<forall>i \<in> set images. ascii_codec to_string from_str (ready i) \<and> matches_format (ci_bytes i) (ci_format i)
      \<and> length (ci_bytes i) \<le> 20971520 \<and> (requested = Auto \<or> requested = ci_format i) \<Longrightarrow>
   unat tot + sum_list (map (length \<circ> ci_bytes) images) \<le> 67108864 \<Longrightarrow>
   \<exists>r'. receive_loop from_str requested (length images) buffered tot acc r
      = (Inr (acc @ map (\<lambda>i. (ci_format i, ci_bytes i)) images), r') \<and> clean r' \<and> stream r' = t"
proof (induction images arbitrary: r k buffered tot acc)
  case Nil
  then show ?case
    by (simp add: image_frames_def)
next
  case (Cons i images)
  let ?b = "ci_bytes i"
  let ?h = "the (to_string (ready i))"
  obtain r1 where m: "(case buffered of Some m \<Rightarrow> (Inr m, r) | None \<Rightarrow> read_message from_str r) = (Inr (ready i), r1)"
    and r1: "clean r1" "stream r1 = ?b @ image_frames to_string images @ t"
  proof (cases buffered)
    case None
    then have "stream r = ?h @ newline # ?b @ image_frames to_string images @ t"
      using Cons.prems(2,3) by (simp add: image_frames_def)
    with read_message_ascii [OF _ Cons.prems(1), of to_string from_str "ready i"] Cons.prems(4) None that show ?thesis
      by auto
  next
    case (Some m)
    then show ?thesis
      using Cons.prems(1-3) that by (simp add: image_frames_def)
  qed
  have i: "matches_format ?b (ci_format i)" "length ?b \<le> 20971520" "requested = Auto \<or> requested = ci_format i"
    using Cons.prems(4) by auto
  have ne: "?b \<noteq> []" "ci_format i \<noteq> Auto"
    using matches_nonempty [OF i(1)] by auto
  have sz: "unat (of_nat (length ?b) :: u64) = length ?b"
    using i(2) by (simp add: unat_of_nat)
  then have nz: "(of_nat (length ?b) :: u64) \<noteq> 0"
    using ne(1) by auto
  have tot_add: "unat (saturating_add tot (of_nat (length ?b))) = unat tot + length ?b"
    using Cons.prems(5) sz by (simp add: saturating_add_def unat_word_ariths)
  obtain r2 where e: "read_exact (length ?b) [] r1 = (Inr ?b, r2)" and r2: "clean r2" "stream r2 = image_frames to_string images @ t"
    using read_exact_stream [OF r1 refl, of "[]"] by auto
  have "\<exists>r'. receive_loop from_str requested (length images) None (saturating_add tot (of_nat (length ?b)))
        (acc @ [(ci_format i, ?b)]) r2
      = (Inr ((acc @ [(ci_format i, ?b)]) @ map (\<lambda>i. (ci_format i, ci_bytes i)) images), r') \<and> clean r' \<and> stream r' = t"
    using Cons.IH [OF r2(1), of 0 None "saturating_add tot (of_nat (length ?b))" "acc @ [(ci_format i, ?b)]"]
      r2(2) Cons.prems(4,5) tot_add by simp
  moreover have "\<not> 20971520 < length ?b" "\<not> 67108864 < unat tot + length ?b" "\<not> (requested \<noteq> Auto \<and> requested \<noteq> ci_format i)"
    using i Cons.prems(5) by auto
  ultimately show ?case
    using m e ne i(1) nz
    by (simp add: ready_def sz tot_add MAX_IMAGE_BYTES_def MAX_BATCH_BYTES_def Let_def)
qed

lemma receive_images_frames:
  assumes "acceptable requested images" and "\<forall>i \<in> set images. ascii_codec to_string from_str (ready i)"
    and "length images > 1 \<longrightarrow> ascii_codec to_string from_str (ClipboardBatchReady (of_nat (length images)))"
    and "clean r"
    and "stream r = (if length images > 1 then the (to_string (ClipboardBatchReady (of_nat (length images)))) @ [newline] else [])
      @ image_frames to_string images"
  shows "fst (receive_images from_str r requested) = Inr (map (\<lambda>i. (ci_format i, ci_bytes i)) images)"
proof -
  have ok: "\<forall>i \<in> set images. ascii_codec to_string from_str (ready i) \<and> matches_format (ci_bytes i) (ci_format i)
      \<and> length (ci_bytes i) \<le> 20971520 \<and> (requested = Auto \<or> requested = ci_format i)"
    and tot: "unat (0 :: u64) + sum_list (map (length \<circ> ci_bytes) images) \<le> 67108864"
    and len: "images \<noteq> []" "length images \<le> 16"
    using assms(1,2) by (auto simp: acceptable_def)
  show ?thesis
  proof (cases "length images > 1")
    case True
    let ?m = "ClipboardBatchReady (of_nat (length images))"
    have "unat (of_nat (length images) :: u32) = length images"
      using len(2) by (simp add: unat_of_nat)
    moreover have "(of_nat (length images) :: u32) \<noteq> 0"
      using calculation len(1) by auto
    moreover obtain r1 where "read_message from_str r = (Inr ?m, r1)" and r1: "clean r1" "stream r1 = image_frames to_string images"
      using read_message_ascii [OF _ assms(4), of to_string from_str ?m "image_frames to_string images"] assms(3,5) True
      by auto
    moreover obtain r2 where "receive_loop from_str requested (length images) None 0 [] r1
        = (Inr (map (\<lambda>i. (ci_format i, ci_bytes i)) images), r2)"
      using receive_loop_images [OF r1(1) _ _ ok tot, of 0 "[]" None "[]"] r1(2) by auto
    ultimately show ?thesis
      using len(2) by (simp add: receive_images_def MAX_BATCH_IMAGES_def)
  next
    case False
    then obtain i where i: "images = [i]"
      using len(1) by (cases images) auto
    have "stream r = the (to_string (ready i)) @ newline # ci_bytes i"
      using assms(5) i by (simp add: image_frames_def)
    then obtain r1 where m: "read_message from_str r = (Inr (ready i), r1)" and r1: "clean r1" "stream r1 = ci_bytes i"
      using read_message_ascii [OF _ assms(4), of to_string from_str "ready i" "ci_bytes i"] assms(2) i by auto
    obtain r2 where "receive_loop from_str requested (length images) (Some (ready i)) 0 [] r1
        = (Inr (map (\<lambda>i. (ci_format i, ci_bytes i)) images), r2)"
      using receive_loop_images [OF r1(1) _ _ ok tot, of "Suc (length (the (to_string (ready i))))" "[]" "Some (ready i)" "[]"]
        r1(2) i by (auto simp: image_frames_def)
    with m i show ?thesis
      by (simp add: receive_images_def MAX_BATCH_IMAGES_def ready_def del: receive_loop.simps)
  qed
qed

lemma write_images_frames:
  assumes "tw_up w" and "\<forall>i \<in> set images. fits to_string from_str (ready i)"
    and "length images > 1 \<longrightarrow> fits to_string from_str (ClipboardBatchReady (of_nat (length images)))"
  shows "write_images to_string w images = (Inr (), w\<lparr>tw_out := tw_out w
    @ (if length images > 1 then the (to_string (ClipboardBatchReady (of_nat (length images)))) @ [newline] else [])
    @ image_frames to_string images\<rparr>)"
  using assms write_each_frames [of _ images to_string from_str] write_message_fits [of to_string from_str _ w]
  by (simp add: write_images_def)

subsection \<open>What the captures return\<close>

lemma run_helper_bound: "run_helper h limit = Inr bs \<Longrightarrow> length bs \<le> limit"
  by (auto simp: run_helper_def read_bounded_def res_bind_eq_Inr Let_def split: helper.splits if_splits option.splits)

lemma try_programs_ok:
  "try_programs run mime format ps = Inr bs \<Longrightarrow> matches_format bs format \<and> length bs \<le> MAX_IMAGE_BYTES"
  by (induction run mime format ps rule: try_programs.induct)
    (auto split: sum.splits capture_error.splits io_error.splits if_splits dest: run_helper_bound)

lemma capture_format_ok:
  "capture_format run format = Inr bs \<Longrightarrow> matches_format bs format \<and> length bs \<le> MAX_IMAGE_BYTES"
  by (auto simp: capture_format_def simp del: try_programs.simps matches_format.simps
      dest: try_programs_ok split: clipboard_format.splits)

lemma try_formats_ok:
  "try_formats capture_one fs = Inr images \<Longrightarrow>
   \<exists>f bs. f \<in> set fs \<and> images = [\<lparr>ci_format = f, ci_bytes = bs\<rparr>] \<and> matches_format bs f \<and> capture_one f = Inr bs"
  by (induction capture_one fs rule: try_formats.induct)
    (auto split: sum.splits capture_error.splits if_splits)

lemma capture_acceptable:
  "capture_candidates (capture_format run) format = Inr images \<Longrightarrow> acceptable format images \<and> length images = 1"
  unfolding capture_candidates_def
  by (drule try_formats_ok) (cases format; auto simp: acceptable_def MAX_IMAGE_BYTES_def dest!: capture_format_ok)

lemma image_format_ok: "image_format bs requested = Some f \<Longrightarrow> matches_format bs f \<and> (requested = Auto \<or> requested = f)"
  by (auto simp: image_format_def split: if_splits)

lemma split_images_ok:
  "split_images count format sizes rest images = Inr res \<Longrightarrow>
   \<exists>new. res = images @ new \<and> concat (map ci_bytes new) = rest \<and> map (length \<circ> ci_bytes) new = map unat sizes
     \<and> (\<forall>i \<in> set new. matches_format (ci_bytes i) (ci_format i) \<and> length (ci_bytes i) \<le> MAX_IMAGE_BYTES
          \<and> (format = Auto \<or> format = ci_format i))"
proof (induction count format sizes rest images rule: split_images.induct)
  case (2 count format sz sizes rest images)
  then obtain m where m: "image_format (take (unat sz) rest) format = Some m"
    and b: "unat sz \<le> MAX_IMAGE_BYTES" "unat sz \<le> length rest" "sz \<noteq> 0"
    and s: "split_images count format sizes (drop (unat sz) rest)
      (images @ [\<lparr>ci_format = m, ci_bytes = take (unat sz) rest\<rparr>]) = Inr res"
    by (auto split: if_splits option.splits)
  let ?i = "\<lparr>ci_format = m, ci_bytes = take (unat sz) rest\<rparr>"
  have "\<not> (sz = 0 \<or> unat sz > MAX_IMAGE_BYTES \<or> unat sz > length rest)"
    using b by simp
  from "2.IH" [OF this m s] obtain new where new: "res = (images @ [?i]) @ new"
    "concat (map ci_bytes new) = drop (unat sz) rest" "map (length \<circ> ci_bytes) new = map unat sizes"
    "\<forall>i \<in> set new. matches_format (ci_bytes i) (ci_format i) \<and> length (ci_bytes i) \<le> MAX_IMAGE_BYTES
      \<and> (format = Auto \<or> format = ci_format i)"
    by blast
  show ?case
    using new image_format_ok [OF m] b
    by (intro exI [of _ "\<lparr>ci_format = m, ci_bytes = take (unat sz) rest\<rparr> # new"]) (auto simp: comp_def)
qed (simp split: if_splits)

lemma split_captured_ok:
  assumes "split_captured_images header out format = Inr images"
  shows "images \<noteq> [] \<and> length images \<le> 16
    \<and> (\<exists>nl < 256. out ! nl = newline \<and> concat (map ci_bytes images) = drop (Suc nl) out)
    \<and> (\<forall>i \<in> set images. matches_format (ci_bytes i) (ci_format i) \<and> length (ci_bytes i) \<le> 20971520
         \<and> (format = Auto \<or> format = ci_format i))"
proof -
  obtain nl sizes where p: "position (\<lambda>b. b = newline) (take MAX_HEADER_BYTES out) = Some nl"
    and sz: "sizes \<noteq> []" "length sizes \<le> MAX_BATCH_IMAGES"
    and s: "split_images (length sizes) format sizes (drop (nl + 1) out) [] = Inr images"
    using assms by (auto simp: split_captured_images_def split: option.splits if_splits)
  from split_images_ok [OF s] have i: "concat (map ci_bytes images) = drop (nl + 1) out"
    "map (length \<circ> ci_bytes) images = map unat sizes"
    "\<forall>i \<in> set images. matches_format (ci_bytes i) (ci_format i) \<and> length (ci_bytes i) \<le> MAX_IMAGE_BYTES
       \<and> (format = Auto \<or> format = ci_format i)"
    by auto
  have l: "length images = length sizes"
    using arg_cong [OF i(2), of length] by simp
  then have "images \<noteq> []" "length images \<le> 16"
    using sz by (auto simp: MAX_BATCH_IMAGES_def)
  moreover have "nl < length (take 256 out)" "take 256 out ! nl = newline"
    using position_Some [OF p] unfolding MAX_HEADER_BYTES_def by blast+
  then have "nl < 256" "out ! nl = newline"
    by simp_all
  ultimately show ?thesis
    using i(1,3) unfolding MAX_IMAGE_BYTES_def by (intro conjI exI [of _ nl]) simp_all
qed

subsection \<open>What the client accepts\<close>

definition plausible :: "clipboard_format \<Rightarrow> clipboard_format \<times> bytes \<Rightarrow> bool" where
  "plausible requested i \<longleftrightarrow> matches_format (snd i) (fst i) \<and> length (snd i) \<le> 20971520
     \<and> (requested = Auto \<or> requested = fst i)"

lemma read_exact_length: "read_exact n acc r = (Inr bs, r') \<Longrightarrow> length bs = length acc + n"
proof (induction n acc r rule: read_exact.induct)
  case (1 n acc r)
  then show ?case
    by (subst (asm) (2) read_exact.simps) (auto split: if_splits prod.splits sum.splits)
qed

lemma saturating_add_ge: "unat (saturating_add a b) \<le> m \<Longrightarrow> m < 2 ^ 64 - 1 \<Longrightarrow> unat (saturating_add a b) = unat a + unat b"
  by (cases "unat a + unat b < 2 ^ 64") (simp_all add: saturating_add_def unat_word_ariths unsigned_minus_1_eq_mask mask_eq_exp_minus_1)

lemma receive_loop_plausible:
  "receive_loop from_str requested n buffered tot images r = (Inr res, r') \<Longrightarrow>
   list_all (plausible requested) images \<Longrightarrow> unat tot = sum_list (map (length \<circ> snd) images) \<Longrightarrow>
   unat tot \<le> 67108864 \<Longrightarrow>
   length res = length images + n \<and> list_all (plausible requested) res \<and> sum_list (map (length \<circ> snd) res) \<le> 67108864"
proof (induction n arbitrary: buffered tot images r)
  case (Suc n)
  obtain f sz r1 r2 bs where f: "\<not> (f = Auto \<or> (requested \<noteq> Auto \<and> requested \<noteq> f))"
    and b: "unat sz \<le> MAX_IMAGE_BYTES" "unat (saturating_add tot sz) \<le> MAX_BATCH_BYTES"
    and e: "read_exact (unat sz) [] r1 = (Inr bs, r2)" and m: "matches_format bs f"
    and l: "receive_loop from_str requested n None (saturating_add tot sz) (images @ [(f, bs)]) r2 = (Inr res, r')"
    using Suc.prems(1) by (auto simp: Let_def not_less split: prod.splits sum.splits message.splits if_splits)
  have len: "length bs = unat sz"
    using read_exact_length [OF e] by simp
  have "unat (saturating_add tot sz) = unat tot + unat sz"
    using saturating_add_ge [OF b(2)] by (simp add: MAX_BATCH_BYTES_def)
  then show ?case
    using Suc.IH [OF l] Suc.prems(2,3) f b m len
    by (auto simp: plausible_def MAX_IMAGE_BYTES_def MAX_BATCH_BYTES_def)
qed simp

lemma receive_images_plausible:
  assumes "receive_images from_str r requested = (Inr res, r')"
  shows "0 < length res \<and> length res \<le> 16 \<and> list_all (plausible requested) res
    \<and> sum_list (map (length \<circ> snd) res) \<le> 67108864"
proof -
  obtain n :: u32 and b r1 where n: "n \<noteq> 0" "unat n \<le> 16"
    and l: "receive_loop from_str requested (unat n) b 0 [] r1 = (Inr res, r')"
    using assms
    by (auto simp: receive_images_def MAX_BATCH_IMAGES_def Let_def not_less simp del: receive_loop.simps
        split: prod.splits sum.splits if_splits)
  then show ?thesis
    using receive_loop_plausible [OF l] by (simp add: unat_gt_0)
qed

subsection \<open>Properties\<close>

text \<open>C20. Clipboard transfer: when the service is enabled, the token matches and no transfer runs, the
  images that the host captures arrive at the client unchanged and in order, for one image
  or several and under every segmentation of the stream.\<close>

theorem clipboard_transfer:
  assumes "cs_enabled s" and "cs_token s = Some tok" and "tok \<noteq> []" and "cs_transfer s \<noteq> 0"
    and "capture format = Inr images" and "acceptable format images"
    and "\<forall>i \<in> set images. ascii_codec to_string from_str (ready i)"
    and "length images > 1 \<longrightarrow> ascii_codec to_string from_str (ClipboardBatchReady (of_nat (length images)))"
    and "tw_up w" and "tw_out w = []"
  shows "\<exists>w'. serve to_string show_error capture s w format (ClipboardToken tok) = (Inr (), w')
    \<and> (\<forall>r. clean r \<and> stream r = tw_out w' \<longrightarrow>
         fst (receive_images from_str r format) = Inr (map (\<lambda>i. (ci_format i, ci_bytes i)) images))"
proof -
  let ?out = "(if length images > 1 then the (to_string (ClipboardBatchReady (of_nat (length images)))) @ [newline] else [])
    @ image_frames to_string images"
  have "write_images to_string w images = (Inr (), w\<lparr>tw_out := ?out\<rparr>)"
    using write_images_frames [of w images to_string from_str] assms(7-10) by (simp add: ascii_codec_def)
  then have "serve to_string show_error capture s w format (ClipboardToken tok) = (Inr (), w\<lparr>tw_out := ?out, tw_up := False\<rparr>)"
    using assms(1-5) by (simp add: serve_def shutdown_writer_def)
  moreover have "fst (receive_images from_str r format) = Inr (map (\<lambda>i. (ci_format i, ci_bytes i)) images)"
    if "clean r" "stream r = ?out" for r
    using receive_images_frames [OF assms(6-8) that] .
  ultimately show ?thesis
    by (intro exI [of _ "w\<lparr>tw_out := ?out, tw_up := False\<rparr>"]) simp
qed

text \<open>The instance: a one-byte printer, a Linux helper with a PNG image, and an automatic request.\<close>

definition tiny_png :: bytes where
  "tiny_png = png_signature @ [CHR 0xE9]"

definition tiny_json :: json_printer where
  "tiny_json m = (if m = ClipboardReady Png 9 then Some ''R'' else None)"

definition tiny_parse :: json_parser where
  "tiny_parse s = (if s = ''R'' then Some (ClipboardReady Png 9) else None)"

definition tiny_helpers :: helpers where
  "tiny_helpers program mime = (if program = ''xclip'' \<and> mime = ''image/png'' then Helper tiny_png [] (Some True)
     else SpawnError NotFound)"

lemma tiny_capture: "capture_candidates (capture_format tiny_helpers) Auto = Inr [\<lparr>ci_format = Png, ci_bytes = tiny_png\<rparr>]"
  by (simp add: capture_candidates_def capture_format_def tiny_helpers_def run_helper_def read_bounded_def tiny_png_def
      png_signature_def MAX_IMAGE_BYTES_def MAX_STDERR_BYTES_def)

lemma tiny_codec: "ascii_codec tiny_json tiny_parse (ready \<lparr>ci_format = Png, ci_bytes = tiny_png\<rparr>)"
proof -
  have "utf8_ok ''R''" and "chars ''R'' = Some [''R'']"
    using utf8_ok_ascii [of "''R''"] chars_ascii [of "''R''"] by (simp_all add: is_ascii_def)
  then show ?thesis
    by (simp add: ascii_codec_def fits_def codec_ok_def ready_def tiny_json_def tiny_parse_def tiny_png_def png_signature_def
        MAX_MESSAGE_SIZE_def str_chars_def is_white_ascii is_ascii_def)
qed

theorem clipboard_transfer_witness:
  "\<exists>w'. serve tiny_json (\<lambda>_. ''error'') (capture_candidates (capture_format tiny_helpers)) \<lparr>cs_enabled = True, cs_token = Some ''t'', cs_transfer = 1\<rparr>
        \<lparr>tw_out = [], tw_up = True\<rparr> Auto (ClipboardToken ''t'') = (Inr (), w')
    \<and> (\<forall>r. clean r \<and> stream r = tw_out w' \<longrightarrow> fst (receive_images tiny_parse r Auto) = Inr [(Png, tiny_png)])"
proof -
  have "acceptable Auto [\<lparr>ci_format = Png, ci_bytes = tiny_png\<rparr>]"
    using capture_acceptable [OF tiny_capture] by simp
  with clipboard_transfer [of "\<lparr>cs_enabled = True, cs_token = Some ''t'', cs_transfer = 1\<rparr>" "''t''"
      "capture_candidates (capture_format tiny_helpers)" Auto "[\<lparr>ci_format = Png, ci_bytes = tiny_png\<rparr>]" tiny_json tiny_parse
      "\<lparr>tw_out = [], tw_up = True\<rparr>" "\<lambda>_. ''error''"] tiny_capture tiny_codec
  show ?thesis
    by simp
qed

text \<open>C24. Authentication before capture: a request that is not enabled, not authenticated by the nonempty
  token, or concurrent with another transfer gets one \<open>ClipboardError\<close> that does not depend
  on the clipboard.\<close>

theorem clipboard_never_without_auth:
  assumes "\<not> (cs_enabled s \<and> cs_transfer s \<noteq> 0 \<and> (\<exists>tok. tok \<noteq> [] \<and> cs_token s = Some tok \<and> token = ClipboardToken tok))"
  shows "\<exists>error. \<forall>capture. serve to_string show_error capture s w format token = write_message to_string w (ClipboardError error)"
proof (cases "cs_enabled s")
  case False
  then show ?thesis
    by (simp add: serve_def clip_reject_def) blast
next
  case True
  show ?thesis
  proof (cases "case cs_token s of None \<Rightarrow> False | Some expected \<Rightarrow> expected \<noteq> [] \<and> token = ClipboardToken expected")
    case a: True
    then have "cs_transfer s = 0"
      using assms True by (auto split: option.splits)
    then show ?thesis
      using True a by (intro exI [of _ "''another clipboard transfer is in progress; try again''"])
        (simp add: serve_def clip_reject_def)
  next
    case a: False
    then show ?thesis
      using True by (intro exI [of _ "''clipboard authentication failed''"]) (simp add: serve_def clip_reject_def)
  qed
qed

theorem clipboard_never_without_auth_witness:
  "\<exists>error. \<forall>capture. serve tiny_json (\<lambda>_. []) capture (clipboard_service_new True (Some [])) \<lparr>tw_out = [], tw_up = True\<rparr> Auto (ClipboardToken [])
     = write_message tiny_json \<lparr>tw_out = [], tw_up = True\<rparr> (ClipboardError error)"
  by (rule clipboard_never_without_auth) (simp add: clipboard_service_new_def)

text \<open>What a capture returns: on Linux exactly one image, on macOS one to sixteen images that are
  the bytes after the header cut in order; each has the signature of its format, the
  requested format and at most 20 MiB.\<close>

theorem capture_sound:
  "(capture_candidates (capture_format run) format = Inr images \<longrightarrow> acceptable format images \<and> length images = 1)
   \<and> (split_captured_images header out format = Inr images \<longrightarrow>
        images \<noteq> [] \<and> length images \<le> 16
        \<and> (\<exists>nl < 256. out ! nl = newline \<and> concat (map ci_bytes images) = drop (Suc nl) out)
        \<and> (\<forall>i \<in> set images. matches_format (ci_bytes i) (ci_format i) \<and> length (ci_bytes i) \<le> 20971520
             \<and> (format = Auto \<or> format = ci_format i)))"
  using capture_acceptable split_captured_ok by blast

theorem capture_sound_witness:
  "acceptable Auto [\<lparr>ci_format = Png, ci_bytes = tiny_png\<rparr>]"
  using capture_sound [of tiny_helpers Auto "[\<lparr>ci_format = Png, ci_bytes = tiny_png\<rparr>]" "\<lambda>_. None" "[]"] tiny_capture
  by blast

text \<open>The client trusts nothing: whatever bytes a host sends, a transfer that succeeds has one to
  sixteen images, each of the requested format, with its signature and at most 20 MiB, and
  at most 64 MiB together.\<close>

theorem receive_bounded:
  assumes "receive_images from_str r requested = (Inr res, r')"
  shows "0 < length res \<and> length res \<le> 16 \<and> sum_list (map (length \<circ> snd) res) \<le> 67108864
    \<and> (\<forall>(f, bs) \<in> set res. matches_format bs f \<and> length bs \<le> 20971520 \<and> (requested = Auto \<or> requested = f))"
  using receive_images_plausible [OF assms] by (auto simp: list_all_iff plausible_def)

theorem receive_bounded_witness:
  "case fst (receive_images tiny_parse \<lparr>br_buf = ''R'' @ newline # tiny_png, br_net = []\<rparr> Auto) of
     Inr res \<Rightarrow> 0 < length res \<and> length res \<le> 16 \<and> sum_list (map (length \<circ> snd) res) \<le> 67108864
   | Inl e \<Rightarrow> False"
proof -
  let ?r = "\<lparr>br_buf = ''R'' @ newline # tiny_png, br_net = []\<rparr>"
  have "fst (receive_images tiny_parse ?r Auto) = Inr [(Png, tiny_png)]"
    using receive_images_frames [of Auto "[\<lparr>ci_format = Png, ci_bytes = tiny_png\<rparr>]" tiny_json tiny_parse ?r]
      capture_acceptable [OF tiny_capture] tiny_codec
    by (simp add: clean_def stream_def image_frames_def ready_def tiny_json_def tiny_png_def png_signature_def)
  then obtain r' where "receive_images tiny_parse ?r Auto = (Inr [(Png, tiny_png)], r')"
    by (metis prod.collapse)
  from receive_bounded [OF this] this show ?thesis
    by simp
qed

end
