(* ===== verification/Tracker.thy ===== *)
theory Tracker
  imports HostPorts
begin

section \<open>Draining connections (ConnectionTracker and drain\_forward\_connections in src/host/mod.rs)\<close>

text \<open>
  The counter of active proxy connections of a forward, the tasks that raise and lower it and
  the tasks that wait for it to reach zero, interleaved at every atomic operation. \<open>Notify\<close> of
  tokio is known by its contract only, a locale: a ticket taken by \<open>notified()\<close> is woken by
  every later \<open>notify_waiters()\<close>.
\<close>

locale notify_contract =
  fixes notified :: "'n \<Rightarrow> 't" and notify_waiters :: "'n \<Rightarrow> 'n"
    and issued :: "'n \<Rightarrow> 't \<Rightarrow> bool" and woken :: "'n \<Rightarrow> 't \<Rightarrow> bool"
  assumes issued_notified: "issued n (notified n)"
    and issued_later: "issued n t \<Longrightarrow> issued (notify_waiters n) t"
    and woken_later: "issued n t \<Longrightarrow> woken (notify_waiters n) t"
begin

lemma wakes_all: "(\<And>t. t \<in> T \<Longrightarrow> issued n t) \<Longrightarrow> t \<in> T \<Longrightarrow> woken (notify_waiters n) t"
  by (rule woken_later) simp

lemma issued_notify: "(\<And>t. t \<in> T \<Longrightarrow> issued n t) \<Longrightarrow> t \<in> T \<Longrightarrow> issued (notify_waiters n) t"
  by (rule issued_later) simp

end

text \<open>The instance used here: the number of \<open>notify_waiters\<close> calls so far.\<close>

definition notified :: "nat \<Rightarrow> nat" where "notified calls = calls"
definition notify_waiters :: "nat \<Rightarrow> nat" where "notify_waiters calls = Suc calls"
definition issued :: "nat \<Rightarrow> nat \<Rightarrow> bool" where "issued calls ticket \<longleftrightarrow> ticket \<le> calls"
definition woken :: "nat \<Rightarrow> nat \<Rightarrow> bool" where "woken calls ticket \<longleftrightarrow> ticket < calls"

interpretation drained: notify_contract notified notify_waiters issued woken
  by unfold_locales (simp_all add: notified_def notify_waiters_def issued_def woken_def)

subsection \<open>The tracker\<close>

text \<open>
  \<open>ct_version\<close> counts the values sent on the cancel channel; \<open>watch::Sender::send\<close> sends
  nothing when there is no receiver. A receiver has seen the version at its subscription.
\<close>

record connection_tracker =
  ct_count :: u64
  ct_drained :: nat
  ct_version :: nat

definition tracker_new :: connection_tracker where
  "tracker_new = \<lparr>ct_count = 0, ct_drained = 0, ct_version = 0\<rparr>"

definition increment :: "connection_tracker \<Rightarrow> connection_tracker" where
  "increment t = t\<lparr>ct_count := ct_count t + 1\<rparr>"

text \<open>\<open>decrement\<close> in its two atomic parts: \<open>fetch_sub\<close> and the notification when it was one.\<close>

definition fetch_sub :: "connection_tracker \<Rightarrow> u64 \<times> connection_tracker" where
  "fetch_sub t = (ct_count t, t\<lparr>ct_count := ct_count t - 1\<rparr>)"

definition notify_drained :: "connection_tracker \<Rightarrow> connection_tracker" where
  "notify_drained t = t\<lparr>ct_drained := notify_waiters (ct_drained t)\<rparr>"

definition active :: "connection_tracker \<Rightarrow> u64" where
  "active t = ct_count t"

definition cancel :: "bool \<Rightarrow> connection_tracker \<Rightarrow> connection_tracker" where
  "cancel receivers t = (if receivers then t\<lparr>ct_version := Suc (ct_version t)\<rparr> else t)"

definition cancel_rx :: "connection_tracker \<Rightarrow> nat" where
  "cancel_rx t = ct_version t"

definition cancel_changed :: "connection_tracker \<Rightarrow> nat \<Rightarrow> bool" where
  "cancel_changed t seen \<longleftrightarrow> seen < ct_version t"

subsection \<open>The tasks\<close>

text \<open>A proxy task of \<open>handle_client_connection\<close>, and a task in \<open>drain_forward_connections\<close>.\<close>

datatype proxy = Idle | Counted | Bridging nat | Notifying | Finished

datatype drainer = Entering | Looping | Registered_Waiter nat | Parked nat | Drained | ForceClosed

record tracker_system =
  ts_tracker :: connection_tracker
  ts_proxies :: "proxy list"
  ts_drainers :: "drainer list"

definition counted :: "proxy \<Rightarrow> bool" where
  "counted p \<longleftrightarrow> (case p of Counted \<Rightarrow> True | Bridging _ \<Rightarrow> True | _ \<Rightarrow> False)"

definition subscribed :: "proxy \<Rightarrow> bool" where
  "subscribed p \<longleftrightarrow> (case p of Bridging _ \<Rightarrow> True | _ \<Rightarrow> False)"

definition after_sub :: "u64 \<Rightarrow> proxy" where
  "after_sub prev = (if prev = 1 then Notifying else Finished)"

inductive tracker_step :: "tracker_system \<Rightarrow> tracker_system \<Rightarrow> bool" where
  ts_increment:
    "\<lbrakk> i < length (ts_proxies s); ts_proxies s ! i = Idle \<rbrakk> \<Longrightarrow>
     tracker_step s (s\<lparr>ts_tracker := increment (ts_tracker s), ts_proxies := (ts_proxies s)[i := Counted]\<rparr>)"
| ts_subscribe:
    "\<lbrakk> i < length (ts_proxies s); ts_proxies s ! i = Counted \<rbrakk> \<Longrightarrow>
     tracker_step s (s\<lparr>ts_proxies := (ts_proxies s)[i := Bridging (cancel_rx (ts_tracker s))]\<rparr>)"
| ts_decrement:
    "\<lbrakk> i < length (ts_proxies s); counted (ts_proxies s ! i); fetch_sub (ts_tracker s) = (prev, t) \<rbrakk> \<Longrightarrow>
     tracker_step s (s\<lparr>ts_tracker := t, ts_proxies := (ts_proxies s)[i := after_sub prev]\<rparr>)"
| ts_notify:
    "\<lbrakk> i < length (ts_proxies s); ts_proxies s ! i = Notifying \<rbrakk> \<Longrightarrow>
     tracker_step s (s\<lparr>ts_tracker := notify_drained (ts_tracker s), ts_proxies := (ts_proxies s)[i := Finished]\<rparr>)"
| ts_enter:
    "\<lbrakk> d < length (ts_drainers s); ts_drainers s ! d = Entering \<rbrakk> \<Longrightarrow>
     tracker_step s (s\<lparr>ts_drainers := (ts_drainers s)[d := if active (ts_tracker s) = 0 then Drained else Looping]\<rparr>)"
| ts_register:
    "\<lbrakk> d < length (ts_drainers s); ts_drainers s ! d = Looping \<rbrakk> \<Longrightarrow>
     tracker_step s (s\<lparr>ts_drainers := (ts_drainers s)[d := Registered_Waiter (notified (ct_drained (ts_tracker s)))]\<rparr>)"
| ts_check:
    "\<lbrakk> d < length (ts_drainers s); ts_drainers s ! d = Registered_Waiter ticket \<rbrakk> \<Longrightarrow>
     tracker_step s (s\<lparr>ts_drainers := (ts_drainers s)[d := if active (ts_tracker s) = 0 then Drained else Parked ticket]\<rparr>)"
| ts_wake:
    "\<lbrakk> d < length (ts_drainers s); ts_drainers s ! d = Parked ticket; woken (ct_drained (ts_tracker s)) ticket \<rbrakk> \<Longrightarrow>
     tracker_step s (s\<lparr>ts_drainers := (ts_drainers s)[d := Looping]\<rparr>)"
| ts_timeout:
    "\<lbrakk> d < length (ts_drainers s); ts_drainers s ! d = Parked ticket \<rbrakk> \<Longrightarrow>
     tracker_step s (s\<lparr>ts_tracker := cancel (\<exists>p \<in> set (ts_proxies s). subscribed p) (ts_tracker s),
       ts_drainers := (ts_drainers s)[d := ForceClosed]\<rparr>)"

inductive_cases tracker_stepE: "tracker_step s t"

definition tracker_init :: "tracker_system \<Rightarrow> bool" where
  "tracker_init s \<longleftrightarrow> ts_tracker s = tracker_new \<and> (\<forall>p \<in> set (ts_proxies s). p = Idle)
     \<and> (\<forall>d \<in> set (ts_drainers s). d = Entering) \<and> length (ts_proxies s) < 2 ^ 64"

definition tickets :: "tracker_system \<Rightarrow> nat set" where
  "tickets s = {t. Registered_Waiter t \<in> set (ts_drainers s) \<or> Parked t \<in> set (ts_drainers s)}"

definition tracker_inv :: "tracker_system \<Rightarrow> bool" where
  "tracker_inv s \<longleftrightarrow>
     length (ts_proxies s) < 2 ^ 64
     \<and> unat (ct_count (ts_tracker s)) = length (filter counted (ts_proxies s))
     \<and> (\<forall>t \<in> tickets s. issued (ct_drained (ts_tracker s)) t)
     \<and> (\<forall>t. Parked t \<in> set (ts_drainers s) \<longrightarrow> woken (ct_drained (ts_tracker s)) t
          \<or> ct_count (ts_tracker s) \<noteq> 0 \<or> Notifying \<in> set (ts_proxies s))
     \<and> (\<forall>v. Bridging v \<in> set (ts_proxies s) \<longrightarrow> v \<le> ct_version (ts_tracker s))"

lemma filter_update:
  "i < length xs \<Longrightarrow> length (filter P (xs[i := y])) + (if P (xs ! i) then 1 else 0)
     = length (filter P xs) + (if P y then 1 else 0)"
proof (induction xs arbitrary: i)
  case (Cons x xs)
  then show ?case
    using Cons.IH [of "i - 1"] by (cases i) auto
qed simp

lemma set_update: "i < length xs \<Longrightarrow> set (xs[i := y]) \<subseteq> insert y (set xs)"
  by (rule set_update_subset_insert)

lemma member_update: "i < length xs \<Longrightarrow> x \<in> set xs \<Longrightarrow> xs ! i \<noteq> x \<Longrightarrow> x \<in> set (xs[i := y])"
  by (auto simp: in_set_conv_nth) (metis nth_list_update_neq)

lemma counted_simps [simp]:
  "counted Counted" "counted (Bridging v)" "\<not> counted Idle" "\<not> counted Notifying" "\<not> counted Finished"
  by (simp_all add: counted_def)

lemma after_sub_simps [simp]: "\<not> counted (after_sub p)" "after_sub p \<noteq> Bridging v"
  by (simp_all add: after_sub_def)

lemma count_pos:
  "i < length xs \<Longrightarrow> P (xs ! i) \<Longrightarrow> 0 < length (filter P xs)"
  by (metis filter_empty_conv length_greater_0_conv nth_mem)

lemma count_room: "i < length xs \<Longrightarrow> \<not> P (xs ! i) \<Longrightarrow> length (filter P xs) < length xs"
  by (rule length_filter_less [OF nth_mem])

text \<open>A step of a proxy leaves the drainers alone; a step of a drainer leaves the proxies alone.\<close>

lemma tracker_inv_proxy:
  assumes "tracker_inv s" and i: "i < length (ts_proxies s)"
    and s': "s' = s\<lparr>ts_tracker := t, ts_proxies := (ts_proxies s)[i := p]\<rparr>"
    and cnt: "unat (ct_count t) + (if counted (ts_proxies s ! i) then 1 else 0)
      = unat (ct_count (ts_tracker s)) + (if counted p then 1 else 0)"
    and iss: "\<forall>tk \<in> tickets s. issued (ct_drained t) tk"
    and parked: "\<And>tk. Parked tk \<in> set (ts_drainers s) \<Longrightarrow> woken (ct_drained t) tk \<or> ct_count t \<noteq> 0
      \<or> Notifying \<in> set ((ts_proxies s)[i := p])"
    and ver: "ct_version t = ct_version (ts_tracker s)" "\<And>v. p = Bridging v \<Longrightarrow> v \<le> ct_version t"
  shows "tracker_inv s'"
proof -
  have "tickets s' = tickets s"
    by (simp add: s' tickets_def)
  moreover have "unat (ct_count t) = length (filter counted ((ts_proxies s)[i := p]))"
    using cnt filter_update [OF i, of counted p] assms(1) by (auto simp: tracker_inv_def split: if_splits)
  moreover have "Bridging v \<in> set ((ts_proxies s)[i := p]) \<Longrightarrow> v \<le> ct_version t" for v
    using set_update [OF i, of p] assms(1) ver by (auto simp: tracker_inv_def)
  ultimately show ?thesis
    using assms(1) iss parked by (simp add: tracker_inv_def s')
qed

lemma tracker_inv_drainer:
  assumes "tracker_inv s" and d: "d < length (ts_drainers s)"
    and s': "s' = s\<lparr>ts_tracker := t, ts_drainers := (ts_drainers s)[d := x]\<rparr>"
    and t: "ct_count t = ct_count (ts_tracker s)" "ct_drained t = ct_drained (ts_tracker s)"
      "ct_version (ts_tracker s) \<le> ct_version t"
    and new: "\<And>tk. x = Registered_Waiter tk \<or> x = Parked tk \<Longrightarrow> issued (ct_drained t) tk"
    and parked: "\<And>tk. x = Parked tk \<Longrightarrow> ct_count t \<noteq> 0"
  shows "tracker_inv s'"
proof -
  have set: "set ((ts_drainers s)[d := x]) \<subseteq> insert x (set (ts_drainers s))"
    by (rule set_update [OF d])
  have "issued (ct_drained t) tk" if "tk \<in> tickets s'" for tk
    using that set new assms(1) t(2) by (auto simp: tracker_inv_def tickets_def s')
  moreover have "woken (ct_drained t) tk \<or> ct_count t \<noteq> 0 \<or> Notifying \<in> set (ts_proxies s)"
    if "Parked tk \<in> set ((ts_drainers s)[d := x])" for tk
    using that set parked assms(1) t by (auto simp: tracker_inv_def)
  ultimately show ?thesis
    using assms(1) t by (auto simp: tracker_inv_def s' intro: order_trans)
qed

lemma tracker_inv_step: "tracker_inv s \<Longrightarrow> tracker_step s s' \<Longrightarrow> tracker_inv s'"
proof (erule tracker_step.cases)
  fix i u assume inv: "tracker_inv s" and s: "s = u" "s' = u\<lparr>ts_tracker := increment (ts_tracker u), ts_proxies := (ts_proxies u)[i := Counted]\<rparr>"
    and i: "i < length (ts_proxies u)" "ts_proxies u ! i = Idle"
  have "length (filter counted (ts_proxies s)) < 2 ^ 64 - 1"
    using count_room [of i "ts_proxies s" counted] i s inv by (simp add: tracker_inv_def)
  then have c: "unat (ct_count (increment (ts_tracker s))) = unat (ct_count (ts_tracker s)) + 1"
    using inv by (simp add: tracker_inv_def increment_def unat_word_ariths)
  then have "ct_count (increment (ts_tracker s)) \<noteq> 0"
    by auto
  with c inv i s show "tracker_inv s'"
    by (intro tracker_inv_proxy [OF inv _ s(2) [folded s(1)]]) (simp_all add: tracker_inv_def increment_def)
next
  fix i u assume inv: "tracker_inv s" and s: "s = u" "s' = u\<lparr>ts_proxies := (ts_proxies u)[i := Bridging (cancel_rx (ts_tracker u))]\<rparr>"
    and i: "i < length (ts_proxies u)" "ts_proxies u ! i = Counted"
  have s': "s' = s\<lparr>ts_tracker := ts_tracker s, ts_proxies := (ts_proxies s)[i := Bridging (cancel_rx (ts_tracker s))]\<rparr>"
    using s by simp
  have "Notifying \<in> set (ts_proxies s) \<Longrightarrow> Notifying \<in> set ((ts_proxies s)[i := Bridging (cancel_rx (ts_tracker s))])"
    using member_update [of i "ts_proxies s" Notifying] i s by simp
  with inv i s show "tracker_inv s'"
    by (intro tracker_inv_proxy [OF inv _ s']) (auto simp: tracker_inv_def cancel_rx_def)
next
  fix i u prev t assume inv: "tracker_inv s" and s: "s = u" "s' = u\<lparr>ts_tracker := t, ts_proxies := (ts_proxies u)[i := after_sub prev]\<rparr>"
    and i: "i < length (ts_proxies u)" "counted (ts_proxies u ! i)" and f: "fetch_sub (ts_tracker u) = (prev, t)"
  have t: "prev = ct_count (ts_tracker s)" "t = (ts_tracker s)\<lparr>ct_count := ct_count (ts_tracker s) - 1\<rparr>"
    using f s by (auto simp: fetch_sub_def)
  have pos: "0 < unat (ct_count (ts_tracker s))"
    using count_pos [of i "ts_proxies s" counted] i s inv by (simp add: tracker_inv_def)
  then have c: "unat (ct_count t) = unat (ct_count (ts_tracker s)) - 1"
    by (simp add: t unat_minus_one unat_gt_0)
  have "ct_count t \<noteq> 0 \<or> Notifying \<in> set ((ts_proxies s)[i := after_sub prev])"
  proof (cases "prev = 1")
    case True
    then show ?thesis
      using i s by (simp add: after_sub_def set_update_memI)
  qed (simp add: t)
  with c pos inv i s show "tracker_inv s'"
    by (intro tracker_inv_proxy [OF inv _ s(2) [folded s(1)]]) (auto simp: tracker_inv_def t)
next
  fix i u assume inv: "tracker_inv s" and s: "s = u" "s' = u\<lparr>ts_tracker := notify_drained (ts_tracker u), ts_proxies := (ts_proxies u)[i := Finished]\<rparr>"
    and i: "i < length (ts_proxies u)" "ts_proxies u ! i = Notifying"
  have "issued (ct_drained (ts_tracker s)) tk" if "tk \<in> tickets s" for tk
    using inv that by (simp add: tracker_inv_def)
  note n = drained.wakes_all [OF this] drained.issued_notify [OF this]
  have "Parked tk \<in> set (ts_drainers s) \<Longrightarrow> tk \<in> tickets s" for tk
    by (simp add: tickets_def)
  with n i s show "tracker_inv s'"
    by (intro tracker_inv_proxy [OF inv _ s(2) [folded s(1)]]) (auto simp: notify_drained_def)
next
  fix d u assume inv: "tracker_inv s" and s: "s = u"
    "s' = u\<lparr>ts_drainers := (ts_drainers u)[d := if active (ts_tracker u) = 0 then Drained else Looping]\<rparr>"
    and d: "d < length (ts_drainers u)"
  then show "tracker_inv s'"
    by (intro tracker_inv_drainer [OF inv, where t = "ts_tracker s"]) (auto split: if_splits)
next
  fix d u assume inv: "tracker_inv s" and s: "s = u"
    "s' = u\<lparr>ts_drainers := (ts_drainers u)[d := Registered_Waiter (notified (ct_drained (ts_tracker u)))]\<rparr>"
    and d: "d < length (ts_drainers u)"
  then show "tracker_inv s'"
    by (intro tracker_inv_drainer [OF inv, where t = "ts_tracker s"]) (auto intro: drained.issued_notified)
next
  fix d u tk assume inv: "tracker_inv s" and s: "s = u"
    "s' = u\<lparr>ts_drainers := (ts_drainers u)[d := if active (ts_tracker u) = 0 then Drained else Parked tk]\<rparr>"
    and d: "d < length (ts_drainers u)" "ts_drainers u ! d = Registered_Waiter tk"
  have "Registered_Waiter tk \<in> set (ts_drainers s)"
    using d s by (metis nth_mem)
  then have "issued (ct_drained (ts_tracker s)) tk"
    using inv by (auto simp: tracker_inv_def tickets_def)
  with inv s d show "tracker_inv s'"
    by (intro tracker_inv_drainer [OF inv, where t = "ts_tracker s"]) (auto simp: active_def split: if_splits)
next
  fix d u tk assume inv: "tracker_inv s" and s: "s = u" "s' = u\<lparr>ts_drainers := (ts_drainers u)[d := Looping]\<rparr>"
    and d: "d < length (ts_drainers u)"
  then show "tracker_inv s'"
    by (intro tracker_inv_drainer [OF inv, where t = "ts_tracker s"]) auto
next
  fix d u tk assume inv: "tracker_inv s" and s: "s = u" "s' = u\<lparr>ts_tracker := cancel (\<exists>p \<in> set (ts_proxies u). subscribed p) (ts_tracker u),
       ts_drainers := (ts_drainers u)[d := ForceClosed]\<rparr>"
    and d: "d < length (ts_drainers u)"
  then show "tracker_inv s'"
    by (intro tracker_inv_drainer [OF inv, where t = "cancel (\<exists>p \<in> set (ts_proxies s). subscribed p) (ts_tracker s)"])
      (auto simp: cancel_def)
qed

lemma tracker_inv_init: "tracker_init s \<Longrightarrow> tracker_inv s"
proof -
  assume i: "tracker_init s"
  then have "filter counted (ts_proxies s) = []"
    by (auto simp: tracker_init_def filter_empty_conv)
  with i show ?thesis
    by (auto simp: tracker_inv_def tracker_init_def tracker_new_def tickets_def)
qed

interpretation tracker: inductive_invariant tracker_init tracker_step tracker_inv
  by unfold_locales (erule tracker_inv_init, erule (1) tracker_inv_step)

subsection \<open>Properties\<close>

text \<open>The run that the instances use: a proxy connects, a drainer parks, the proxy ends and notifies.\<close>

definition sys :: "connection_tracker \<Rightarrow> proxy \<Rightarrow> drainer \<Rightarrow> tracker_system" where
  "sys t p d = \<lparr>ts_tracker = t, ts_proxies = [p], ts_drainers = [d]\<rparr>"

lemma sys_steps:
  "tracker_step (sys t Idle d) (sys (increment t) Counted d)"
  "tracker_step (sys t Counted d) (sys t (Bridging (ct_version t)) d)"
  "counted p \<Longrightarrow> tracker_step (sys t p d) (sys (t\<lparr>ct_count := ct_count t - 1\<rparr>) (after_sub (ct_count t)) d)"
  "tracker_step (sys t Notifying d) (sys (notify_drained t) Finished d)"
  "ct_count t \<noteq> 0 \<Longrightarrow> tracker_step (sys t p Entering) (sys t p Looping)"
  "tracker_step (sys t p Looping) (sys t p (Registered_Waiter (ct_drained t)))"
  "ct_count t \<noteq> 0 \<Longrightarrow> tracker_step (sys t p (Registered_Waiter k)) (sys t p (Parked k))"
  "tracker_step (sys t p (Parked k)) (sys (cancel (subscribed p) t) p ForceClosed)"
  using ts_increment [of 0 "sys t Idle d"] ts_subscribe [of 0 "sys t Counted d"]
    ts_decrement [of 0 "sys t p d" "ct_count t" "t\<lparr>ct_count := ct_count t - 1\<rparr>"] ts_notify [of 0 "sys t Notifying d"]
    ts_enter [of 0 "sys t p Entering"] ts_register [of 0 "sys t p Looping"]
    ts_check [of 0 "sys t p (Registered_Waiter k)" k] ts_timeout [of 0 "sys t p (Parked k)" k]
  by (simp_all add: sys_def cancel_rx_def fetch_sub_def active_def notified_def)

lemma sys_parked: "reach tracker_init tracker_step (sys (increment tracker_new) Counted (Parked 0))"
proof -
  let ?t = "increment tracker_new"
  have n: "ct_count ?t \<noteq> 0" "ct_drained ?t = 0"
    by (simp_all add: increment_def tracker_new_def)
  have "reach tracker_init tracker_step (sys tracker_new Idle Entering)"
    by (rule reach_start) (simp add: tracker_init_def sys_def)
  from reach_more [OF reach_more [OF reach_more [OF reach_more [OF this sys_steps(1)] sys_steps(5) [OF n(1)]] sys_steps(6)]]
    sys_steps(7) [OF n(1)] n(2) show ?thesis
    by simp
qed

lemma sys_finished:
  "reach tracker_init tracker_step (sys (notify_drained ((increment tracker_new)\<lparr>ct_count := 0\<rparr>)) Finished (Parked 0))"
proof -
  let ?t = "(increment tracker_new)\<lparr>ct_count := 0\<rparr>"
  have "after_sub (ct_count (increment tracker_new)) = Notifying"
    and "(increment tracker_new)\<lparr>ct_count := ct_count (increment tracker_new) - 1\<rparr> = ?t"
    by (simp_all add: increment_def tracker_new_def after_sub_def)
  then have "reach tracker_init tracker_step (sys ?t Notifying (Parked 0))"
    using reach_more [OF sys_parked sys_steps(3)] by simp
  then show ?thesis
    by (rule reach_more) (rule sys_steps(4))
qed

text \<open>C18. Draining never misses the end: in every interleaving the counter is the number of open proxy
  connections (so it never underflows), and a drainer that sleeps has been woken as soon as
  the counter is zero and the task that made it zero has notified.\<close>

theorem drain_no_lost_wakeup:
  assumes "reach tracker_init tracker_step s"
  shows "unat (ct_count (ts_tracker s)) = length (filter counted (ts_proxies s))
    \<and> (\<forall>ticket. Parked ticket \<in> set (ts_drainers s) \<longrightarrow> ct_count (ts_tracker s) = 0 \<longrightarrow> Notifying \<notin> set (ts_proxies s)
        \<longrightarrow> woken (ct_drained (ts_tracker s)) ticket)"
  using tracker.reach_inv [OF assms] unfolding tracker_inv_def by blast

theorem drain_no_lost_wakeup_witness:
  "woken (ct_drained (notify_drained ((increment tracker_new)\<lparr>ct_count := 0\<rparr>))) 0"
  using drain_no_lost_wakeup [OF sys_finished] by (simp add: sys_def notify_drained_def)

text \<open>Draining completes: once every proxy connection has ended and notified, each waiting drainer
  gets to the end of \<open>wait_drained\<close> by its own steps.\<close>

theorem drain_completes:
  assumes "reach tracker_init tracker_step s" and "d < length (ts_drainers s)"
    and "\<forall>p \<in> set (ts_proxies s). p = Finished" and "ts_drainers s ! d \<noteq> ForceClosed"
  shows "\<exists>s'. tracker_step\<^sup>*\<^sup>* s s' \<and> ts_drainers s' ! d = Drained"
proof -
  have inv: "tracker_inv s"
    using tracker.reach_inv [OF assms(1)] .
  have "filter counted (ts_proxies s) = []"
    using assms(3) by (auto simp: filter_empty_conv)
  then have zero: "active (ts_tracker s) = 0"
    using inv by (simp add: tracker_inv_def active_def unat_eq_zero)
  let ?at = "\<lambda>x. s\<lparr>ts_drainers := (ts_drainers s)[d := x]\<rparr>"
  have reg: "tracker_step\<^sup>*\<^sup>* (?at (Registered_Waiter k)) (?at Drained)" for k
    using ts_check [of d "?at (Registered_Waiter k)" k] assms(2) zero by (intro r_into_rtranclp) simp
  have loop: "tracker_step\<^sup>*\<^sup>* (?at Looping) (?at Drained)"
    using ts_register [of d "?at Looping"] assms(2) reg by (intro converse_rtranclp_into_rtranclp [OF _ reg]) simp
  have "tracker_step\<^sup>*\<^sup>* s (?at Drained)"
  proof (cases "ts_drainers s ! d")
    case Entering
    then show ?thesis
      using ts_enter [OF assms(2)] zero by (intro r_into_rtranclp) simp
  next
    case Looping
    then have e: "?at Looping = s"
      by (simp flip: Looping)
    show ?thesis
      using loop unfolding e .
  next
    case (Registered_Waiter k)
    then have e: "?at (Registered_Waiter k) = s"
      by (simp flip: Registered_Waiter)
    show ?thesis
      using reg [of k] unfolding e .
  next
    case (Parked k)
    then have "Parked k \<in> set (ts_drainers s)"
      using assms(2) by (metis nth_mem)
    moreover have "Notifying \<notin> set (ts_proxies s)"
      using assms(3) by auto
    ultimately have "woken (ct_drained (ts_tracker s)) k"
      using inv zero by (auto simp: tracker_inv_def active_def)
    then show ?thesis
      by (rule converse_rtranclp_into_rtranclp [OF ts_wake [OF assms(2) Parked] loop])
  next
    case Drained
    then have "?at Drained = s"
      by (simp flip: Drained)
    then show ?thesis
      by simp
  qed (use assms(4) in simp)
  then show ?thesis
    using assms(2) by (intro exI [of _ "?at Drained"]) simp
qed

theorem drain_completes_witness:
  "\<exists>s'. tracker_step\<^sup>*\<^sup>* (sys (notify_drained ((increment tracker_new)\<lparr>ct_count := 0\<rparr>)) Finished (Parked 0)) s'
     \<and> ts_drainers s' ! 0 = Drained"
  by (rule drain_completes [OF sys_finished]) (simp_all add: sys_def)

text \<open>Force-close on drain timeout reaches exactly the proxies that have subscribed: it signals each
  of them, but a proxy that is counted and subscribes only afterwards is never told, so its
  connection outlives the forward it belongs to.\<close>

theorem cancel_reaches_subscribers:
  "(\<forall>t v. v \<le> ct_version t \<longrightarrow> cancel_changed (cancel True t) v)
   \<and> (\<exists>s. reach tracker_init tracker_step s \<and> ts_drainers s = [ForceClosed]
        \<and> (\<exists>v. ts_proxies s = [Bridging v] \<and> \<not> cancel_changed (ts_tracker s) v))"
proof
  show "\<forall>t v. v \<le> ct_version t \<longrightarrow> cancel_changed (cancel True t) v"
    by (simp add: cancel_changed_def cancel_def)
  have "reach tracker_init tracker_step (sys (increment tracker_new) (Bridging 0) ForceClosed)"
    using reach_more [OF reach_more [OF sys_parked sys_steps(8)] sys_steps(2)]
    by (simp add: cancel_def subscribed_def increment_def tracker_new_def)
  moreover have "\<not> cancel_changed (increment tracker_new) 0"
    by (simp add: cancel_changed_def increment_def tracker_new_def)
  ultimately show "\<exists>s. reach tracker_init tracker_step s \<and> ts_drainers s = [ForceClosed]
        \<and> (\<exists>v. ts_proxies s = [Bridging v] \<and> \<not> cancel_changed (ts_tracker s) v)"
    by (intro exI [of _ "sys (increment tracker_new) (Bridging 0) ForceClosed"]) (simp add: sys_def)
qed

theorem cancel_reaches_subscribers_witness:
  "cancel_changed (cancel True tracker_new) 0"
  using cancel_reaches_subscribers by (simp add: tracker_new_def)

end
