(* ===== verification/Host.thy ===== *)
theory Host
  imports HostState HostBrowser Pending Clipboard Tracker Config
begin

section \<open>The handlers of the host daemon (src/host/mod.rs, src/host/listener.rs)\<close>

text \<open>
  One function per handler, from the critical sections of theory HostState and the effects
  between them. The effects on tasks that run elsewhere (listeners, drains) are recorded in
  order in a log. What the operating system and the clock answer during a call is the record
  \<open>host_env\<close>. The result \<open>None\<close> of a handler is a port search that never returns.
\<close>

definition HEARTBEAT_INTERVAL :: nat where "HEARTBEAT_INTERVAL = 30"
definition MAX_MISSED_PONGS :: u32 where "MAX_MISSED_PONGS = 3"
definition DEFAULT_DRAIN_TIMEOUT :: nat where "DEFAULT_DRAIN_TIMEOUT = 5"

datatype effect =
    ListenerStarted nat u16 u16
  | ShutdownSent nat
  | ListenerJoined nat
  | ForwardDrained nat u16 nat

record 'a mpsc =
  mq_items :: "'a list"
  mq_open :: bool

record daemon_context =
  dc_state :: host_state
  dc_pending :: pending_connections
  dc_browser :: browser_opener
  dc_auth_token :: "string option"
  dc_clipboard :: clipboard_service
  dc_next_registration_id :: u64
  dc_requests :: "nat \<Rightarrow> outbound_connect_request mpsc"
  dc_outbound :: "nat \<Rightarrow> message mpsc"
  dc_trackers :: "nat \<Rightarrow> connection_tracker"
  dc_next :: nat
  dc_effects :: "effect list"
  dc_shutdown :: bool

record host_env =
  he_bind4 :: "u16 \<Rightarrow> u16 option"
  he_bind6 :: "u16 \<Rightarrow> u16 option"
  he_timestamp :: string
  he_instant :: nat
  he_run :: os_run
  he_macos :: bool
  he_alnum :: "bytes \<Rightarrow> bool"
  he_lossy :: "bytes \<Rightarrow> string"
  he_unix_connect :: "bytes \<Rightarrow> string + nat"
  he_to_string :: json_printer
  he_from_str :: json_parser

definition update_state :: "(host_state \<Rightarrow> host_state) \<Rightarrow> daemon_context \<Rightarrow> daemon_context" where
  "update_state g d = d\<lparr>dc_state := g (dc_state d)\<rparr>"

definition log_effects :: "effect list \<Rightarrow> daemon_context \<Rightarrow> daemon_context" where
  "log_effects es d = d\<lparr>dc_effects := dc_effects d @ es\<rparr>"

subsection \<open>Listeners\<close>

definition bind_loopback :: "host_env \<Rightarrow> u16 \<Rightarrow> forward_error + u16" where
  "bind_loopback env port =
     (case he_bind4 env port of
        Some p \<Rightarrow> Inr p
      | None \<Rightarrow> (case he_bind6 env port of Some p \<Rightarrow> Inr p | None \<Rightarrow> Inl (ListenerBind port)))"

definition start_listener :: "host_env \<Rightarrow> u16 \<Rightarrow> u16 \<Rightarrow> daemon_context \<Rightarrow> (forward_error + u16 \<times> nat) \<times> daemon_context" where
  "start_listener env port container_port d =
     (case bind_loopback env port of
        Inl e \<Rightarrow> (Inl e, d)
      | Inr bound_port \<Rightarrow>
          let handle = dc_next d
          in (Inr (bound_port, handle),
              log_effects [ListenerStarted handle bound_port container_port] (d\<lparr>dc_next := Suc handle\<rparr>)))"

text \<open>
  The accept loop of a listener task; \<open>select!\<close> is biased, so a shutdown that is ready is
  seen before a connection that is ready.
\<close>

datatype listener_event = ShutdownChanged bool | ShutdownDropped | Accepted nat | AcceptFailed

record client_connection =
  clc_stream :: nat
  clc_container_port :: u16

fun listener_loop :: "u16 \<Rightarrow> nat option \<Rightarrow> listener_event list \<Rightarrow> client_connection list" where
  "listener_loop container_port room [] = []"
| "listener_loop container_port room (ev # evs) =
     (case ev of
        ShutdownChanged True \<Rightarrow> []
      | ShutdownChanged False \<Rightarrow> listener_loop container_port room evs
      | ShutdownDropped \<Rightarrow> []
      | AcceptFailed \<Rightarrow> listener_loop container_port room evs
      | Accepted sock \<Rightarrow>
          (case room of
             Some 0 \<Rightarrow> []
           | Some (Suc n) \<Rightarrow> \<lparr>clc_stream = sock, clc_container_port = container_port\<rparr> # listener_loop container_port (Some n) evs
           | None \<Rightarrow> \<lparr>clc_stream = sock, clc_container_port = container_port\<rparr> # listener_loop container_port None evs))"

subsection \<open>Tearing forwards down\<close>

definition teardown_one :: "u16 \<Rightarrow> forward_state \<Rightarrow> daemon_context \<Rightarrow> daemon_context" where
  "teardown_one port f d =
     log_effects [ShutdownSent (fs_listener f), ListenerJoined (fs_listener f),
       ForwardDrained (fs_tracker f) port DEFAULT_DRAIN_TIMEOUT] d"

text \<open>Several forwards: all shutdowns are sent under the lock, then the browser mappings go, then each listener is joined and its drain started.\<close>

definition teardown_many :: "nat \<Rightarrow> (u16, forward_state) hashmap \<Rightarrow> daemon_context \<Rightarrow> daemon_context" where
  "teardown_many timeout forwards d =
     (let d1 = log_effects (map (\<lambda>(port, f). ShutdownSent (fs_listener f)) forwards) d;
          d2 = d1\<lparr>dc_browser := fold (\<lambda>(port, f). remove_port_mapping port) forwards (dc_browser d1)\<rparr>
      in log_effects (concat (map (\<lambda>(port, f). [ListenerJoined (fs_listener f), ForwardDrained (fs_tracker f) port timeout]) forwards)) d2)"

subsection \<open>Forward and unforward\<close>

definition handle_forward ::
  "host_env \<Rightarrow> string \<Rightarrow> u16 \<Rightarrow> string option \<Rightarrow> u32 option \<Rightarrow> daemon_context \<Rightarrow> ((forward_error + u16) \<times> daemon_context) option" where
  "handle_forward env cid port process_name pid d =
     (case forward_take_old cid port (dc_state d) of
        (Inl e, s1) \<Rightarrow> Some (Inl e, d\<lparr>dc_state := s1\<rparr>)
      | (Inr old, s1) \<Rightarrow>
          let d1 = d\<lparr>dc_state := s1\<rparr>;
              d2 = (case old of Some f \<Rightarrow> teardown_one port f d1 | None \<Rightarrow> d1)
          in (case forward_reserve cid port (dc_state d2) of
                None \<Rightarrow> None
              | Some (Inl e, s3) \<Rightarrow> Some (Inl e, d2\<lparr>dc_state := s3\<rparr>)
              | Some (Inr target_port, s3) \<Rightarrow>
                  (case start_listener env target_port port (d2\<lparr>dc_state := s3\<rparr>) of
                     (Inl e, d4) \<Rightarrow> Some (Inl e, update_state (release_port target_port) d4)
                   | (Inr (host_port, handle), d4) \<Rightarrow>
                       let f = \<lparr>fs_host_port = host_port, fs_listener = handle, fs_process_name = process_name, fs_pid = pid,
                                fs_since = he_timestamp env, fs_tracker = dc_next d4\<rparr>;
                           d5 = d4\<lparr>dc_trackers := (dc_trackers d4)(dc_next d4 := tracker_new), dc_next := Suc (dc_next d4)\<rparr>
                       in (case forward_commit cid port target_port f (dc_state d5) of
                             (Inl e, s6) \<Rightarrow> Some (Inl e, log_effects [ShutdownSent handle, ListenerJoined handle] (d5\<lparr>dc_state := s6\<rparr>))
                           | (Inr hp, s6) \<Rightarrow> Some (Inr hp, d5\<lparr>dc_state := s6\<rparr>)))))"

definition handle_unforward :: "string \<Rightarrow> u16 \<Rightarrow> daemon_context \<Rightarrow> daemon_context" where
  "handle_unforward cid port d =
     (case take_forward cid port (dc_state d) of
        (None, s1) \<Rightarrow> d\<lparr>dc_state := s1\<rparr>
      | (Some f, s1) \<Rightarrow> teardown_one port f (d\<lparr>dc_state := s1\<rparr>))"

definition handle_unforward_global :: "u16 \<Rightarrow> daemon_context \<Rightarrow> daemon_context" where
  "handle_unforward_global port d =
     (case unforward_global_take port (dc_state d) of
        (None, s1) \<Rightarrow> d\<lparr>dc_state := s1\<rparr>
      | (Some f, s1) \<Rightarrow>
          teardown_one port f (d\<lparr>dc_state := s1, dc_browser := remove_port_mapping port (dc_browser d)\<rparr>))"

definition cleanup_container :: "string \<Rightarrow> u64 \<Rightarrow> daemon_context \<Rightarrow> bool \<times> daemon_context" where
  "cleanup_container cid expected_reg_id d =
     (case cleanup_take cid expected_reg_id (dc_state d) of
        (None, s1) \<Rightarrow> (False, d\<lparr>dc_state := s1\<rparr>)
      | (Some forwards, s1) \<Rightarrow> (True, teardown_many DEFAULT_DRAIN_TIMEOUT forwards (d\<lparr>dc_state := s1\<rparr>)))"

definition drain_all_forwards :: "nat \<Rightarrow> daemon_context \<Rightarrow> daemon_context" where
  "drain_all_forwards drain_timeout d =
     (case drain_all_take (dc_state d) of
        (forwards, s1) \<Rightarrow> teardown_many drain_timeout forwards (d\<lparr>dc_state := s1\<rparr>))"

subsection \<open>Messages of a registered container\<close>

definition send :: "host_env \<Rightarrow> message \<Rightarrow> control_connection \<Rightarrow> (control_error + unit) \<times> control_connection" where
  "send env m conn = conn_send (he_to_string env) m conn"

definition open_url :: "host_env \<Rightarrow> string \<Rightarrow> daemon_context \<Rightarrow> bool \<times> daemon_context" where
  "open_url env url d =
     (case prepare (he_instant env) (dc_browser d) url of
        (Inl e, b) \<Rightarrow> (False, d\<lparr>dc_browser := b\<rparr>)
      | (Inr (target, cmd), b) \<Rightarrow>
          (\<not> isl (launch (he_run env) (he_macos env) target cmd), d\<lparr>dc_browser := b\<rparr>))"

text \<open>
  A socket connect request; when it is accepted, the number of the host socket, the
  connection id and the receiver go to a bridge task of their own.
\<close>

definition socket_connect ::
  "host_env \<Rightarrow> string \<Rightarrow> string \<Rightarrow> control_connection \<Rightarrow> daemon_context
   \<Rightarrow> (nat \<times> string \<times> nat) option \<times> control_connection \<times> daemon_context" where
  "socket_connect env socket_id conn_id conn d =
     (if \<not> is_valid_identifier (he_alnum env) socket_id then (None, conn, d)
      else if \<not> is_valid_identifier (he_alnum env) conn_id then (None, conn, d)
      else (case hm_get (hs_socket_forwards (dc_state d)) socket_id of
              None \<Rightarrow> (None, snd (send env (ConnectFailed conn_id (''unknown socket_id: '' @ socket_id)) conn), d)
            | Some info \<Rightarrow>
                (case register_pending conn_id (dc_pending d) of
                   (None, p1) \<Rightarrow> (None, conn, d\<lparr>dc_pending := p1\<rparr>)
                 | (Some rx, p1) \<Rightarrow>
                     (case he_unix_connect env (si_host_path info) of
                        Inl e \<Rightarrow> (None, snd (send env (ConnectFailed conn_id (''host socket connect failed: '' @ e)) conn),
                                  d\<lparr>dc_pending := cancel_pending conn_id (drop_receiver rx p1)\<rparr>)
                      | Inr sock \<Rightarrow> (Some (sock, conn_id, rx), conn, d\<lparr>dc_pending := p1\<rparr>)))))"

definition send_ack ::
  "host_env \<Rightarrow> message \<Rightarrow> bool \<Rightarrow> control_connection \<Rightarrow> daemon_context \<Rightarrow> (control_error + bool) \<times> control_connection \<times> daemon_context" where
  "send_ack env m r conn d =
     (case send env m conn of (Inl e, conn1) \<Rightarrow> (Inl e, conn1, d) | (Inr _, conn1) \<Rightarrow> (Inr r, conn1, d))"

definition dispatch_container_message ::
  "host_env \<Rightarrow> message \<Rightarrow> string \<Rightarrow> u64 \<Rightarrow> control_connection \<Rightarrow> daemon_context
   \<Rightarrow> ((control_error + bool) \<times> control_connection \<times> daemon_context) option" where
  "dispatch_container_message env msg cid registration_id conn d =
     (case msg of
        Forward port protocol process_name pid \<Rightarrow>
          if \<not> owns cid registration_id (dc_state d) then Some (Inl ConnectionClosed, conn, d)
          else (case handle_forward env cid port process_name pid d of
                  None \<Rightarrow> None
                | Some (Inr host_port, d1) \<Rightarrow>
                    Some (send_ack env (ForwardAck port True host_port) False conn
                            (d1\<lparr>dc_browser := add_port_mapping port host_port (dc_browser d1)\<rparr>))
                | Some (Inl e, d1) \<Rightarrow> Some (send_ack env (ForwardAck port False 0) False conn d1))
      | Unforward port \<Rightarrow>
          if \<not> owns cid registration_id (dc_state d) then Some (Inl ConnectionClosed, conn, d)
          else let d1 = handle_unforward cid port d
               in Some (Inr False, conn, d1\<lparr>dc_browser := remove_port_mapping port (dc_browser d1)\<rparr>)
      | ConnectFailed conn_id error \<Rightarrow>
          if length conn_id > MAX_CONN_ID_LENGTH then Some (Inr False, conn, d)
          else Some (Inr False, conn, d\<lparr>dc_pending := cancel_pending conn_id (dc_pending d)\<rparr>)
      | OpenUrl url \<Rightarrow> (case open_url env url d of (success, d1) \<Rightarrow> Some (send_ack env (OpenUrlAck success) False conn d1))
      | Ping \<Rightarrow> Some (send_ack env Pong False conn d)
      | Pong \<Rightarrow> Some (Inr True, conn, d)
      | SocketConnectRequest socket_id conn_id \<Rightarrow>
          (case socket_connect env socket_id conn_id conn d of (_, conn1, d1) \<Rightarrow> Some (Inr False, conn1, d1))
      | _ \<Rightarrow> Some (Inr False, conn, d))"

text \<open>
  The message loop. An event is the branch of \<open>select!\<close> that wins a turn; for the branches
  other than the read it carries the turns that the dropped read had made. The loop that has
  not returned yet yields its counter of missed pongs.
\<close>

datatype loop_event =
    LoopRecv host_env
  | LoopRequest nat host_env
  | LoopOutbound nat host_env
  | LoopTick nat host_env

datatype loop_result = Running u32 | Returned "control_error + unit"

fun handle_container_messages ::
  "string \<Rightarrow> u64 \<Rightarrow> nat \<Rightarrow> nat \<Rightarrow> loop_event list \<Rightarrow> u32 \<Rightarrow> control_connection \<Rightarrow> daemon_context
   \<Rightarrow> (loop_result \<times> control_connection \<times> daemon_context) option" where
  "handle_container_messages cid reg req out [] missed conn d = Some (Running missed, conn, d)"
| "handle_container_messages cid reg req out (LoopRecv env # evs) missed conn d =
     (case conn_recv (he_from_str env) conn of
        (Inl e, conn1) \<Rightarrow> Some (Returned (Inl e), conn1, d)
      | (Inr msg, conn1) \<Rightarrow>
          (case dispatch_container_message env msg cid reg conn1 d of
             None \<Rightarrow> None
           | Some (Inl e, conn2, d1) \<Rightarrow> Some (Returned (Inl e), conn2, d1)
           | Some (Inr was_pong, conn2, d1) \<Rightarrow>
               handle_container_messages cid reg req out evs (if was_pong then 0 else missed) conn2 d1))"
| "handle_container_messages cid reg req out (LoopRequest turns env # evs) missed conn d =
     (case mq_items (dc_requests d req) of
        [] \<Rightarrow> handle_container_messages cid reg req out evs missed conn d
      | r # rs \<Rightarrow>
          let d1 = d\<lparr>dc_requests := (dc_requests d)(req := (dc_requests d req)\<lparr>mq_items := rs\<rparr>)\<rparr> in
          (case send env (ConnectRequest (ocr_port r) (ocr_conn_id r)) (conn_recv_dropped turns conn) of
             (Inl e, conn1) \<Rightarrow>
               handle_container_messages cid reg req out evs missed conn1
                 (d1\<lparr>dc_pending := cancel_pending (ocr_conn_id r) (dc_pending d1)\<rparr>)
           | (Inr _, conn1) \<Rightarrow> handle_container_messages cid reg req out evs missed conn1 d1))"
| "handle_container_messages cid reg req out (LoopOutbound turns env # evs) missed conn d =
     (case mq_items (dc_outbound d out) of
        [] \<Rightarrow> handle_container_messages cid reg req out evs missed conn d
      | m # ms \<Rightarrow>
          handle_container_messages cid reg req out evs missed (snd (send env m (conn_recv_dropped turns conn)))
            (d\<lparr>dc_outbound := (dc_outbound d)(out := (dc_outbound d out)\<lparr>mq_items := ms\<rparr>)\<rparr>))"
| "handle_container_messages cid reg req out (LoopTick turns env # evs) missed conn d =
     (let missed = missed + 1 in
      if missed > MAX_MISSED_PONGS then Some (Returned (Inl ConnectionClosed), conn_recv_dropped turns conn, d)
      else (case send env Ping (conn_recv_dropped turns conn) of
              (Inl e, conn1) \<Rightarrow> Some (Returned (Inl e), conn1, d)
            | (Inr _, conn1) \<Rightarrow> handle_container_messages cid reg req out evs missed conn1 d))"

subsection \<open>Control connections\<close>

definition send_socket_forward :: "host_env \<Rightarrow> socket_info \<Rightarrow> control_connection \<Rightarrow> control_connection" where
  "send_socket_forward env info conn =
     snd (send env (SocketForward (si_socket_id info) (he_lossy env (si_host_path info)) (si_container_path info)) conn)"

datatype connection_outcome = Connected u64 nat nat u32 | Closed "control_error + unit"

definition reply_and_close ::
  "host_env \<Rightarrow> message \<Rightarrow> control_connection \<Rightarrow> daemon_context \<Rightarrow> connection_outcome \<times> control_connection \<times> daemon_context" where
  "reply_and_close env m conn d = (case send env m conn of (r, conn1) \<Rightarrow> (Closed r, conn1, d))"

definition auth_ok :: "string option \<Rightarrow> string \<Rightarrow> bool" where
  "auth_ok expected provided \<longleftrightarrow> (case expected of None \<Rightarrow> True | Some e \<Rightarrow> provided = e)"

text \<open>
  A registration: the checks, the removal of a superseded registration, the acknowledgement,
  the new entry with its epoch and its two channels, the socket forwards that exist, the
  message loop on the given events, and the cleanup when it returns.
\<close>

definition end_connection ::
  "bool \<Rightarrow> string \<Rightarrow> u64 \<Rightarrow> nat \<Rightarrow> nat \<Rightarrow> control_error + unit \<Rightarrow> daemon_context \<Rightarrow> (control_error + unit) \<times> daemon_context" where
  "end_connection exit_on_idle cid reg_id req out result d =
     (let d1 = d\<lparr>dc_requests := (dc_requests d)(req := (dc_requests d req)\<lparr>mq_open := False\<rparr>),
                 dc_outbound := (dc_outbound d)(out := (dc_outbound d out)\<lparr>mq_open := False\<rparr>)\<rparr>;
          d2 = snd (cleanup_container cid reg_id d1);
          d3 = (if exit_on_idle \<and> hs_containers (dc_state d2) = [] then d2\<lparr>dc_shutdown := True\<rparr> else d2)
      in (case result of Inl ConnectionClosed \<Rightarrow> Inr () | _ \<Rightarrow> result, d3))"

text \<open>After the acknowledgement: the new entry, the socket forwards, the messages, the end.\<close>

definition enter_container :: "string \<Rightarrow> string \<Rightarrow> daemon_context \<Rightarrow> u64 \<times> nat \<times> nat \<times> daemon_context" where
  "enter_container cid hostname d =
     (let req = dc_next d; out = Suc req; reg_id = dc_next_registration_id d
      in (reg_id, req, out,
          d\<lparr>dc_next := Suc out, dc_next_registration_id := reg_id + 1,
            dc_requests := (dc_requests d)(req := \<lparr>mq_items = [], mq_open = True\<rparr>),
            dc_outbound := (dc_outbound d)(out := \<lparr>mq_items = [], mq_open = True\<rparr>),
            dc_state := register_insert cid hostname reg_id req out (dc_state d)\<rparr>))"

definition serve_container ::
  "host_env \<Rightarrow> bool \<Rightarrow> string \<Rightarrow> string \<Rightarrow> loop_event list \<Rightarrow> control_connection \<Rightarrow> daemon_context
   \<Rightarrow> (connection_outcome \<times> control_connection \<times> daemon_context) option" where
  "serve_container env exit_on_idle cid hostname events conn d =
     (case enter_container cid hostname d of
        (reg_id, req, out, d1) \<Rightarrow>
          (case handle_container_messages cid reg_id req out events 0
                  (fold (send_socket_forward env) (hm_values (hs_socket_forwards (dc_state d1))) conn) d1 of
             None \<Rightarrow> None
           | Some (Running missed, conn1, d2) \<Rightarrow> Some (Connected reg_id req out missed, conn1, d2)
           | Some (Returned result, conn1, d2) \<Rightarrow>
               (case end_connection exit_on_idle cid reg_id req out result d2 of (r, d3) \<Rightarrow> Some (Closed r, conn1, d3))))"

definition register_container ::
  "host_env \<Rightarrow> bool \<Rightarrow> string \<Rightarrow> string \<Rightarrow> string \<Rightarrow> loop_event list \<Rightarrow> control_connection \<Rightarrow> daemon_context
   \<Rightarrow> (connection_outcome \<times> control_connection \<times> daemon_context) option" where
  "register_container env exit_on_idle cid hostname auth_token events conn d =
     (if \<not> is_valid_identifier (he_alnum env) cid \<or> \<not> is_valid_identifier (he_alnum env) hostname
      then Some (reply_and_close env (RegisterAck False) conn d)
      else if \<not> auth_ok (dc_auth_token d) auth_token
      then Some (reply_and_close env (RegisterAck False) conn d)
      else (case register_take cid (dc_state d) of
              (Inl _, s1) \<Rightarrow> Some (reply_and_close env (RegisterAck False) conn (d\<lparr>dc_state := s1\<rparr>))
            | (Inr old, s1) \<Rightarrow>
                let d1 = d\<lparr>dc_state := s1\<rparr>;
                    d2 = (case old of Some forwards \<Rightarrow> teardown_many DEFAULT_DRAIN_TIMEOUT forwards d1 | None \<Rightarrow> d1)
                in (case send env (RegisterAck True) conn of
                      (Inl e, conn1) \<Rightarrow> Some (Closed (Inl e), conn1, d2)
                    | (Inr _, conn1) \<Rightarrow> serve_container env exit_on_idle cid hostname events conn1 d2)))"

text \<open>The first message decides; \<open>timed_out\<close> says that none came within 30 seconds.\<close>

definition handle_control_connection ::
  "host_env \<Rightarrow> bool \<Rightarrow> bool \<Rightarrow> loop_event list \<Rightarrow> control_connection \<Rightarrow> daemon_context
   \<Rightarrow> (connection_outcome \<times> control_connection \<times> daemon_context) option" where
  "handle_control_connection env timed_out exit_on_idle events conn d =
     (if timed_out then Some (Closed (Inl (Io TimedOut)), conn, d)
      else (case conn_recv (he_from_str env) conn of
              (Inl e, conn1) \<Rightarrow> Some (Closed (Inl e), conn1, d)
            | (Inr first_msg, conn1) \<Rightarrow>
                (case first_msg of
                   Register cid hostname auth_token \<Rightarrow>
                     register_container env exit_on_idle cid hostname auth_token events conn1 d
                 | ListRequest \<Rightarrow>
                     Some (reply_and_close env (ListResponse (collect_forward_info (dc_state d))
                             (collect_socket_forward_info (he_lossy env) (dc_state d))) conn1 d)
                 | Ping \<Rightarrow> Some (reply_and_close env Pong conn1 d)
                 | Unforward port \<Rightarrow> Some (Closed (Inr ()), conn1, handle_unforward_global port d)
                 | OpenUrl url \<Rightarrow>
                     (case open_url env url d of (success, d1) \<Rightarrow> Some (reply_and_close env (OpenUrlAck success) conn1 d1))
                 | Shutdown auth_token \<Rightarrow>
                     if auth_ok (dc_auth_token d) auth_token then Some (Closed (Inr ()), conn1, d\<lparr>dc_shutdown := True\<rparr>)
                     else Some (Closed (Inr ()), conn1, d)
                 | _ \<Rightarrow> Some (Closed (Inr ()), conn1, d))))"

subsection \<open>Data connections and clients\<close>

text \<open>
  A data connection. \<open>timed_out\<close> says that no message came within 10 seconds, \<open>stopped\<close> after how
  many bytes of its answer the clipboard service was stopped by its limit of 30 seconds, if
  it was.
\<close>

definition serve_clipboard ::
  "host_env \<Rightarrow> (capture_error \<Rightarrow> string) \<Rightarrow> (clipboard_format \<Rightarrow> capture_error + clipboard_image list)
   \<Rightarrow> nat option \<Rightarrow> tcp_writer \<Rightarrow> clipboard_format \<Rightarrow> clipboard_token \<Rightarrow> clipboard_service \<Rightarrow> (control_error + unit) \<times> tcp_writer" where
  "serve_clipboard env show_error capture stopped w format auth_token service =
     (case serve (he_to_string env) show_error capture service w format auth_token of
        (res, w1) \<Rightarrow>
          (case stopped of
             None \<Rightarrow> (res, w1)
           | Some n \<Rightarrow> (Inl (Io TimedOut), w\<lparr>tw_out := tw_out w @ take n (drop (length (tw_out w)) (tw_out w1))\<rparr>)))"

definition handle_data_connection ::
  "host_env \<Rightarrow> (capture_error \<Rightarrow> string) \<Rightarrow> (clipboard_format \<Rightarrow> capture_error + clipboard_image list)
   \<Rightarrow> (nat \<Rightarrow> pending_connections \<Rightarrow> pending_connections) \<Rightarrow> (nat \<Rightarrow> nat) \<Rightarrow> bool \<Rightarrow> nat option \<Rightarrow> nat
   \<Rightarrow> buf_reader \<Rightarrow> tcp_writer \<Rightarrow> daemon_context \<Rightarrow> (control_error + unit) \<times> tcp_writer \<times> daemon_context" where
  "handle_data_connection env show_error capture others late timed_out stopped sock r w d =
     (if timed_out then (Inl (Io TimedOut), w, d)
      else (case read_message (he_from_str env) r of
              (Inl e, r1) \<Rightarrow> (Inl e, w, d)
            | (Inr msg, r1) \<Rightarrow>
                (case msg of
                   ClipboardRead format auth_token \<Rightarrow>
                     (case serve_clipboard env show_error capture stopped w format auth_token (dc_clipboard d) of
                        (res, w1) \<Rightarrow> (res, w1, d))
                 | ConnectReady conn_id \<Rightarrow>
                     if length conn_id > MAX_CONN_ID_LENGTH then (Inr (), w, d)
                     else (case resolve_pending_with_grace others late (he_instant env) conn_id
                                  \<lparr>ds_stream = sock, ds_buffered = br_buf r1\<rparr> (dc_pending d) of
                             (_, _, p1) \<Rightarrow> (Inr (), w, d\<lparr>dc_pending := p1\<rparr>))
                 | _ \<Rightarrow> (Inr (), w, d))))"

definition tracker_decrement :: "connection_tracker \<Rightarrow> connection_tracker" where
  "tracker_decrement t = (case fetch_sub t of (prev, t1) \<Rightarrow> if prev = 1 then notify_drained t1 else t1)"

definition update_tracker :: "(connection_tracker \<Rightarrow> connection_tracker) \<Rightarrow> nat \<Rightarrow> daemon_context \<Rightarrow> daemon_context" where
  "update_tracker g trk d = d\<lparr>dc_trackers := (dc_trackers d)(trk := g (dc_trackers d trk))\<rparr>"

text \<open>
  A client of a forwarded port up to the wait for its data connection: the container and the
  tracker found for the port, the receiver and the queued request. \<open>None\<close> is a client that
  is dropped.
\<close>

definition client_begin :: "string \<Rightarrow> client_connection \<Rightarrow> daemon_context \<Rightarrow> (string \<times> nat \<times> nat) option \<times> daemon_context" where
  "client_begin conn_id client d =
     (let port = clc_container_port client; s = dc_state d in
      case find_container_for_port s port of
        None \<Rightarrow> (None, d)
      | Some cid \<Rightarrow>
          (case hm_get (hs_containers s) cid of
             None \<Rightarrow> (None, d)
           | Some c \<Rightarrow>
               (case hm_get (con_forwards c) port of
                  None \<Rightarrow> (None, d)
                | Some f \<Rightarrow>
                    let trk = fs_tracker f; tx = con_connect_request_tx c; d1 = update_tracker increment trk d
                    in (case register_pending conn_id (dc_pending d1) of
                          (None, p1) \<Rightarrow> (None, update_tracker tracker_decrement trk (d1\<lparr>dc_pending := p1\<rparr>))
                        | (Some rx, p1) \<Rightarrow>
                            if mq_open (dc_requests d1 tx) then
                              (Some (cid, trk, rx),
                               d1\<lparr>dc_pending := p1,
                                  dc_requests := (dc_requests d1)(tx := (dc_requests d1 tx)
                                    \<lparr>mq_items := mq_items (dc_requests d1 tx) @ [\<lparr>ocr_port = port, ocr_conn_id = conn_id\<rparr>]\<rparr>)\<rparr>)
                            else (None, update_tracker tracker_decrement trk
                                          (d1\<lparr>dc_pending := cancel_pending conn_id (drop_receiver rx p1)\<rparr>))))))"

text \<open>The end of the client: the bridge ran to its end, or the cancel signal dropped it.\<close>

definition client_end ::
  "copy \<Rightarrow> string \<Rightarrow> nat \<Rightarrow> nat \<Rightarrow> tcp_writer \<Rightarrow> waited option \<Rightarrow> daemon_context \<Rightarrow> tcp_writer \<times> daemon_context" where
  "client_end copy_bidirectional conn_id trk rx client ended d =
     (case ended of
        Some w \<Rightarrow>
          (case bridge_connection copy_bidirectional conn_id client w (drop_receiver rx (dc_pending d)) of
             (_, client1, p1) \<Rightarrow> (client1, update_tracker tracker_decrement trk (d\<lparr>dc_pending := p1\<rparr>)))
      | None \<Rightarrow> (client, update_tracker tracker_decrement trk (d\<lparr>dc_pending := drop_receiver rx (dc_pending d)\<rparr>)))"

subsection \<open>The socket scanner task and the daemon\<close>

definition try_send :: "message \<Rightarrow> nat \<Rightarrow> daemon_context \<Rightarrow> daemon_context" where
  "try_send m out d =
     (let q = dc_outbound d out in
      if mq_open q \<and> length (mq_items q) < 64
      then d\<lparr>dc_outbound := (dc_outbound d)(out := q\<lparr>mq_items := mq_items q @ [m]\<rparr>)\<rparr> else d)"

definition broadcast :: "message \<Rightarrow> nat list \<Rightarrow> daemon_context \<Rightarrow> daemon_context" where
  "broadcast m senders d = fold (try_send m) senders d"

definition scanner_turn :: "(bytes \<Rightarrow> string) \<Rightarrow> scan_env \<Rightarrow> socket_scanner \<Rightarrow> daemon_context \<Rightarrow> socket_scanner \<times> daemon_context" where
  "scanner_turn lossy senv scanner d =
     (case socket_scan senv scanner of
        ((new_sockets, removed_sockets), scanner1) \<Rightarrow>
          if new_sockets = [] \<and> removed_sockets = [] then (scanner1, d)
          else let senders = map con_outbound_msg_tx (hm_values (hs_containers (dc_state d)));
                   d1 = update_state (socket_update new_sockets removed_sockets) d;
                   d2 = fold (\<lambda>i. broadcast (SocketForward (si_socket_id i) (lossy (si_host_path i)) (si_container_path i)) senders)
                          new_sockets d1;
                   d3 = fold (\<lambda>i. broadcast (SocketUnforward (si_socket_id i)) senders) removed_sockets d2
               in (scanner1, d3))"

datatype host_error =
    ClipboardRequiresAuth
  | HostBind string u16
  | SignalSetup
  | HostControl control_error
  | HostListener forward_error

datatype ip = Localhost | Unspecified | OtherIp string

record host_config =
  hc_control_port :: u16
  hc_data_port :: u16
  hc_bind_addr :: "ip option"
  hc_no_docker_detect :: bool
  hc_exit_on_idle :: bool
  hc_drain_timeout :: nat
  hc_browser_cmd :: "string option"
  hc_auth_token :: "string option"
  hc_allow_clipboard :: bool
  hc_socket_forwarding :: socket_forwarding_config

definition host_config_default :: host_config where
  "host_config_default =
     \<lparr>hc_control_port = 19285, hc_data_port = 19286, hc_bind_addr = None, hc_no_docker_detect = False,
      hc_exit_on_idle = False, hc_drain_timeout = DEFAULT_DRAIN_TIMEOUT, hc_browser_cmd = None,
      hc_auth_token = None, hc_allow_clipboard = False, hc_socket_forwarding = socket_forwarding_default\<rparr>"

definition detect_docker :: "bool option \<Rightarrow> bool" where
  "detect_docker status = (case status of Some success \<Rightarrow> success | None \<Rightarrow> False)"

definition resolve_bind_addr :: "bool option \<Rightarrow> host_config \<Rightarrow> ip" where
  "resolve_bind_addr docker_info config =
     (case hc_bind_addr config of
        Some addr \<Rightarrow> addr
      | None \<Rightarrow> if hc_no_docker_detect config then Localhost
                else if detect_docker docker_info then Unspecified else Localhost)"

text \<open>The start of \<open>run\<close>: the context the daemon serves with, or why it does not start.\<close>

definition host_start :: "bool option \<Rightarrow> (ip \<Rightarrow> u16 \<Rightarrow> bool) \<Rightarrow> bool \<Rightarrow> host_config \<Rightarrow> host_error + ip \<times> daemon_context" where
  "host_start docker_info can_bind signals config =
     (if hc_allow_clipboard config \<and> (case hc_auth_token config of None \<Rightarrow> True | Some token \<Rightarrow> token = [])
      then Inl ClipboardRequiresAuth
      else let bind_addr = resolve_bind_addr docker_info config in
        if \<not> can_bind bind_addr (hc_control_port config) then Inl (HostBind ''control'' (hc_control_port config))
        else if \<not> can_bind bind_addr (hc_data_port config) then Inl (HostBind ''data'' (hc_data_port config))
        else if \<not> signals then Inl SignalSetup
        else Inr (bind_addr,
          \<lparr>dc_state = host_state_new, dc_pending = new_pending_connections,
           dc_browser = browser_with_cmd (hc_browser_cmd config), dc_auth_token = hc_auth_token config,
           dc_clipboard = clipboard_service_new (hc_allow_clipboard config) (hc_auth_token config),
           dc_next_registration_id = 1, dc_requests = (\<lambda>_. \<lparr>mq_items = [], mq_open = False\<rparr>),
           dc_outbound = (\<lambda>_. \<lparr>mq_items = [], mq_open = False\<rparr>), dc_trackers = (\<lambda>_. tracker_new),
           dc_next = 0, dc_effects = [], dc_shutdown = False\<rparr>))"

text \<open>Whether \<open>run\<close> then starts the scanner task, and the scanner that the task starts with.\<close>

definition spawn_socket_scanner :: "host_config \<Rightarrow> socket_scanner option" where
  "spawn_socket_scanner config =
     (let sf = hc_socket_forwarding config in
      if sf_enabled sf \<and> sf_watch_paths sf \<noteq> []
      then Some (socket_scanner_new (sf_watch_paths sf) (sf_container_path_prefix sf) (sf_max_socket_forwards sf))
      else None)"

definition host_stop :: "host_config \<Rightarrow> daemon_context \<Rightarrow> daemon_context" where
  "host_stop config d = drain_all_forwards (hc_drain_timeout config) d"

end
