(* ===== verification/HostInv.thy ===== *)
theory HostInv
  imports Host
begin

section \<open>The invariant of the port table\<close>

text \<open>
  The host state seen through two lookups: the forward of a container and port, and the
  container recorded for a used host port. The invariant comes in two parts. Safety says that
  host ports are given out once; it holds in every interleaving. Exactness says that a port is
  recorded as used only while something owns it; it holds between handlers that run alone.
  Both are relative to the reservations of forwards that are being set up.
\<close>

definition fwd :: "host_state \<Rightarrow> string \<Rightarrow> u16 \<Rightarrow> forward_state option" where
  "fwd s cid p = (case hm_get (hs_containers s) cid of None \<Rightarrow> None | Some c \<Rightarrow> hm_get (con_forwards c) p)"

abbreviation used :: "host_state \<Rightarrow> u16 \<Rightarrow> string option" where
  "used s p \<equiv> hm_get (hs_used_host_ports s) p"

definition host_wf :: "host_state \<Rightarrow> bool" where
  "host_wf s \<longleftrightarrow> hm_wf (hs_containers s) \<and> hm_wf (hs_used_host_ports s)
     \<and> (\<forall>cid c. hm_get (hs_containers s) cid = Some c \<longrightarrow> hm_wf (con_forwards c))"

definition ports_safe :: "host_state \<Rightarrow> (string \<times> u16) list \<Rightarrow> bool" where
  "ports_safe s R \<longleftrightarrow>
     (\<forall>cid p f cid' p' f'. fwd s cid p = Some f \<longrightarrow> fwd s cid' p' = Some f' \<longrightarrow> fs_host_port f = fs_host_port f'
        \<longrightarrow> cid = cid' \<and> p = p')
     \<and> (\<forall>cid p f. fwd s cid p = Some f \<longrightarrow> used s (fs_host_port f) = Some cid)
     \<and> (\<forall>cid t. (cid, t) \<in> set R \<longrightarrow> used s t = Some cid)
     \<and> (\<forall>cid t cid' p f. (cid, t) \<in> set R \<longrightarrow> fwd s cid' p = Some f \<longrightarrow> fs_host_port f \<noteq> t)
     \<and> distinct (map snd R)"

definition ports_exact :: "host_state \<Rightarrow> (string \<times> u16) list \<Rightarrow> bool" where
  "ports_exact s R \<longleftrightarrow>
     (\<forall>t cid. used s t = Some cid \<longrightarrow> (\<exists>p f. fwd s cid p = Some f \<and> fs_host_port f = t) \<or> (cid, t) \<in> set R)"

lemma ports_safeD:
  assumes "ports_safe s R"
  shows "fwd s cid p = Some f \<Longrightarrow> fwd s cid' p' = Some f' \<Longrightarrow> fs_host_port f = fs_host_port f' \<Longrightarrow> cid = cid' \<and> p = p'"
    and "fwd s cid p = Some f \<Longrightarrow> used s (fs_host_port f) = Some cid"
    and "(c, t) \<in> set R \<Longrightarrow> used s t = Some c"
    and "(c, t) \<in> set R \<Longrightarrow> fwd s cid' p' = Some f' \<Longrightarrow> fs_host_port f' \<noteq> t"
    and "distinct (map snd R)"
  using assms unfolding ports_safe_def by blast+

lemma ports_safeI:
  assumes "\<And>cid p f cid' p' f'. fwd s cid p = Some f \<Longrightarrow> fwd s cid' p' = Some f' \<Longrightarrow> fs_host_port f = fs_host_port f'
      \<Longrightarrow> cid = cid' \<and> p = p'"
    and "\<And>cid p f. fwd s cid p = Some f \<Longrightarrow> used s (fs_host_port f) = Some cid"
    and "\<And>cid t. (cid, t) \<in> set R \<Longrightarrow> used s t = Some cid"
    and "\<And>cid t cid' p f. (cid, t) \<in> set R \<Longrightarrow> fwd s cid' p = Some f \<Longrightarrow> fs_host_port f \<noteq> t"
    and "distinct (map snd R)"
  shows "ports_safe s R"
  using assms unfolding ports_safe_def by blast

text \<open>Reservations have different ports, so removing one removes its port.\<close>

lemma remove1_reservation:
  assumes "distinct (map snd R)" and "(cid, tp) \<in> set R"
  shows "(c, t) \<in> set (remove1 (cid, tp) R) \<longleftrightarrow> (c, t) \<in> set R \<and> t \<noteq> tp"
    and "distinct (map snd (remove1 x R))"
proof -
  have "distinct R" and "(c, tp) \<in> set R \<Longrightarrow> c = cid"
    using assms inj_onD [of snd "set R" "(c, tp)" "(cid, tp)"] by (auto simp: distinct_map)
  then show "(c, t) \<in> set (remove1 (cid, tp) R) \<longleftrightarrow> (c, t) \<in> set R \<and> t \<noteq> tp"
    by (auto simp: set_remove1_eq)
  show "distinct (map snd (remove1 x R))"
    using assms(1) by (induction R) (auto dest: notin_set_remove1 simp: image_iff)
qed

subsection \<open>The two lookups after each critical section\<close>

lemma fwd_simps [host_simps, simp]:
  "fwd (release_port p s) = fwd s" "fwd (reserve_port p cid s) = fwd s"
  "fwd (release_ports fs s) = fwd s"
  "fwd (remove_container cid s) = (fwd s)(cid := Map.empty)"
  "fwd (set_container cid c s) = (fwd s)(cid := hm_get (con_forwards c))"
  by (auto simp: fwd_def fun_eq_iff split: option.splits)

lemma fwd_socket_update [host_simps, simp]:
  "fwd (socket_update new removed s) = fwd s" "hs_used_host_ports (socket_update new removed s) = hs_used_host_ports s"
  "hs_containers (socket_update new removed s) = hs_containers s"
  by (simp_all add: fwd_def socket_update_def fun_eq_iff)

lemma take_forward_spec:
  assumes "take_forward cid port s = (old, s')"
  shows "old = fwd s cid port"
    and "fwd s' = (fwd s)(cid := (fwd s cid)(port := None))"
    and "used s' t = (case old of None \<Rightarrow> used s t | Some f \<Rightarrow> if t = fs_host_port f then None else used s t)"
    and "hs_socket_forwards s' = hs_socket_forwards s"
    and "hm_get (hs_containers s') c = None \<longleftrightarrow> hm_get (hs_containers s) c = None"
    and "owns c r s' = owns c r s"
proof -
  show "old = fwd s cid port" and "fwd s' = (fwd s)(cid := (fwd s cid)(port := None))"
    and "used s' t = (case old of None \<Rightarrow> used s t | Some f \<Rightarrow> if t = fs_host_port f then None else used s t)"
    and "hs_socket_forwards s' = hs_socket_forwards s"
    and "hm_get (hs_containers s') c = None \<longleftrightarrow> hm_get (hs_containers s) c = None" and "owns c r s' = owns c r s"
    using assms
    by (auto simp: take_forward_def fwd_def fun_eq_iff owns_def split: option.splits if_splits)
qed

lemma take_forward_wf:
  assumes "take_forward cid port s = (old, s')" and "host_wf s"
  shows "host_wf s'"
  using assms unfolding host_wf_def take_forward_def by (auto split: option.splits if_splits)

lemma take_forward_ports:
  assumes "take_forward cid port s = (old, s')"
  shows "ports_safe s R \<Longrightarrow> ports_safe s' R" and "ports_safe s R \<Longrightarrow> ports_exact s R \<Longrightarrow> ports_exact s' R"
proof -
  note t = take_forward_spec [OF assms]
  assume safe: "ports_safe s R"
  note d = ports_safeD [OF safe]
  have get: "fwd s' c p = Some f \<longleftrightarrow> fwd s c p = Some f \<and> (c, p) \<noteq> (cid, port)" for c p f
    by (auto simp: t(2))
  have keep: "used s' x = used s x" if "\<And>f. fwd s cid port = Some f \<Longrightarrow> fs_host_port f \<noteq> x" for x
    using that by (auto simp: t(1,3) split: option.splits)
  have usd: "used s' (fs_host_port f) = Some c" if "fwd s' c p = Some f" for c p f
  proof -
    have "used s' (fs_host_port f) = used s (fs_host_port f)"
    proof (rule keep)
      fix f0 assume "fwd s cid port = Some f0"
      with that d(1) [of cid port f0 c p f] show "fs_host_port f0 \<noteq> fs_host_port f"
        unfolding get by auto
    qed
    then show ?thesis
      using that get d(2) by auto
  qed
  have res: "used s' x = Some c" if "(c, x) \<in> set R" for c x
  proof -
    have "used s' x = used s x"
      by (rule keep) (rule d(4) [OF that])
    with d(3) [OF that] show ?thesis
      by simp
  qed
  show "ports_safe s' R"
    by (rule ports_safeI) (use d(1,4,5) usd res get in blast)+
  assume exact: "ports_exact s R"
  show "ports_exact s' R"
    unfolding ports_exact_def
  proof (intro allI impI)
    fix x c assume u: "used s' x = Some c"
    then have "used s x = Some c" and ne: "\<And>f. fwd s cid port = Some f \<Longrightarrow> fs_host_port f \<noteq> x"
      by (auto simp: t(1,3) split: option.splits if_splits)
    then show "(\<exists>p f. fwd s' c p = Some f \<and> fs_host_port f = x) \<or> (c, x) \<in> set R"
      using exact get unfolding ports_exact_def by blast
  qed
qed

text \<open>Removing a whole container, as cleanup and re-registration do.\<close>

definition drop_container :: "string \<Rightarrow> container_state \<Rightarrow> host_state \<Rightarrow> host_state" where
  "drop_container cid c s = release_ports (con_forwards c) (remove_container cid s)"

lemma drop_container_used:
  assumes "host_wf s" and "hm_get (hs_containers s) cid = Some c"
  shows "used (drop_container cid c s) t
    = (if \<exists>p f. fwd s cid p = Some f \<and> fs_host_port f = t then None else used s t)"
proof -
  have w: "hm_wf (con_forwards c)"
    using assms by (simp add: host_wf_def)
  have iff: "t \<in> fs_host_port ` set (hm_values (con_forwards c)) \<longleftrightarrow> (\<exists>p f. fwd s cid p = Some f \<and> fs_host_port f = t)"
    using assms(2) hm_get_iff [OF w] by (force simp: fwd_def image_iff)
  show ?thesis
    unfolding drop_container_def release_ports_used iff by (simp only: host_simps_update)
qed

lemma drop_container_ports:
  assumes "host_wf s" and "hm_get (hs_containers s) cid = Some c"
  shows "ports_safe s R \<Longrightarrow> ports_safe (drop_container cid c s) R"
    and "ports_exact s R \<Longrightarrow> ports_exact (drop_container cid c s) R"
    and "host_wf (drop_container cid c s)"
    and "fwd (drop_container cid c s) = (fwd s)(cid := Map.empty)"
proof -
  let ?s = "drop_container cid c s"
  note u = drop_container_used [OF assms]
  show f: "fwd ?s = (fwd s)(cid := Map.empty)"
    by (simp add: drop_container_def)
  have get: "fwd ?s c' p = Some f' \<longleftrightarrow> fwd s c' p = Some f' \<and> c' \<noteq> cid" for c' p f'
    by (simp add: f)
  show "ports_safe ?s R" if safe: "ports_safe s R"
  proof -
    note d = ports_safeD [OF safe]
    have "used ?s (fs_host_port f') = Some c'" if "fwd ?s c' p = Some f'" for c' p f'
      using that d(1,2) unfolding get u by metis
    moreover have "used ?s t = Some c'" if "(c', t) \<in> set R" for c' t
      using d(3,4) [OF that] unfolding u by metis
    ultimately show ?thesis
      using d(1,4,5) unfolding ports_safe_def get by blast
  qed
  show "ports_exact ?s R" if "ports_exact s R"
    unfolding ports_exact_def
  proof (intro allI impI)
    fix t c' assume "used ?s t = Some c'"
    then have "used s t = Some c'" and "\<not> (\<exists>p f. fwd s cid p = Some f \<and> fs_host_port f = t)"
      unfolding u by (auto split: if_splits)
    then show "(\<exists>p f. fwd ?s c' p = Some f \<and> fs_host_port f = t) \<or> (c', t) \<in> set R"
      using that unfolding ports_exact_def get by blast
  qed
  show "host_wf ?s"
    using assms(1) by (auto simp: host_wf_def drop_container_def release_ports_wf split: if_splits)
qed

lemma forward_reserve_ports:
  assumes "forward_reserve cid port s = Some (Inr tp, s')"
  shows "ports_safe s R \<Longrightarrow> ports_safe s' ((cid, tp) # R)" and "ports_exact s R \<Longrightarrow> ports_exact s' ((cid, tp) # R)"
    and "host_wf s \<Longrightarrow> host_wf s'" and "fwd s' = fwd s" and "used s tp = None"
    and "s' = reserve_port tp cid s"
proof -
  have s': "s' = reserve_port tp cid s" and free: "used s tp = None"
    using assms find_port_free [of "hm_contains (hs_used_host_ports s)" port tp]
    by (auto simp: forward_reserve_def find_available_port_def hm_contains_def split: option.splits)
  then show "s' = reserve_port tp cid s" "used s tp = None" "fwd s' = fwd s" "host_wf s \<Longrightarrow> host_wf s'"
    by (auto simp: host_wf_def)
  show "ports_safe s' ((cid, tp) # R)" if "ports_safe s R"
    using that free unfolding ports_safe_def s' by (auto split: if_splits)
  show "ports_exact s' ((cid, tp) # R)" if "ports_exact s R"
    using that by (auto simp: ports_exact_def s' split: if_splits)
qed

text \<open>Giving a reservation back, and turning it into a forward.\<close>

lemma release_reservation:
  assumes "(cid, tp) \<in> set R"
  shows "ports_safe s R \<Longrightarrow> ports_safe (release_port tp s) (remove1 (cid, tp) R)"
    and "ports_safe s R \<Longrightarrow> ports_exact s R \<Longrightarrow> ports_exact (release_port tp s) (remove1 (cid, tp) R)"
    and "host_wf s \<Longrightarrow> host_wf (release_port tp s)"
proof -
  have mem: "(c, t) \<in> set (remove1 (cid, tp) R) \<longleftrightarrow> (c, t) \<in> set R \<and> t \<noteq> tp"
    and dist: "distinct (map snd (remove1 (cid, tp) R))" if "ports_safe s R" for c t
    using remove1_reservation [OF ports_safeD(5) [OF that] assms] by simp_all
  show "ports_safe (release_port tp s) (remove1 (cid, tp) R)" if safe: "ports_safe s R"
  proof -
    note d = ports_safeD [OF safe]
    have ne: "fwd s c p = Some f \<Longrightarrow> fs_host_port f \<noteq> tp" for c p f
      using d(4) [OF assms] by blast
    show ?thesis
    proof (rule ports_safeI, unfold mem [OF safe] fwd_simps)
      fix c p f assume "fwd s c p = Some f"
      then show "used (release_port tp s) (fs_host_port f) = Some c"
        using d(2) ne by simp
    next
      fix c t assume "(c, t) \<in> set R \<and> t \<noteq> tp"
      then show "used (release_port tp s) t = Some c"
        using d(3) by simp
    qed (use d(1,4) dist [OF safe] in blast)+
  qed
  show "ports_exact (release_port tp s) (remove1 (cid, tp) R)" if "ports_safe s R" "ports_exact s R"
    using that(2) unfolding ports_exact_def mem [OF that(1)] by (auto split: if_splits)
  show "host_wf s \<Longrightarrow> host_wf (release_port tp s)"
    by (simp add: host_wf_def)
qed

lemma forward_commit_ports:
  assumes "(cid, tp) \<in> set R" and "fs_host_port f = tp" and "forward_commit cid port tp f s = (r, s')"
    and safe: "ports_safe s R"
  shows "ports_safe s' (remove1 (cid, tp) R)"
    and "fwd s cid port = None \<Longrightarrow> ports_exact s R \<Longrightarrow> ports_exact s' (remove1 (cid, tp) R)"
    and "host_wf s \<Longrightarrow> host_wf s'"
    and "hm_get (hs_containers s) cid \<noteq> None \<Longrightarrow> r = Inr tp \<and> fwd s' = (fwd s)(cid := (fwd s cid)(port \<mapsto> f))
      \<and> hs_used_host_ports s' = hs_used_host_ports s"
    and "hm_get (hs_containers s) cid = None \<Longrightarrow> r = Inl ContainerGone \<and> s' = release_port tp s"
proof -
  note d = ports_safeD [OF safe]
  show gone: "hm_get (hs_containers s) cid = None \<Longrightarrow> r = Inl ContainerGone \<and> s' = release_port tp s"
    using assms(2,3) by (auto simp: forward_commit_def)
  have some: "r = Inr tp \<and> s' = set_container cid (c\<lparr>con_forwards := hm_insert port f (con_forwards c)\<rparr>) s"
    if "hm_get (hs_containers s) cid = Some c" for c
    using that assms(2,3) by (auto simp: forward_commit_def Let_def)
  have fw: "fwd s cid = hm_get (con_forwards c)" if "hm_get (hs_containers s) cid = Some c" for c
    using that by (simp add: fwd_def fun_eq_iff)
  show eq: "hm_get (hs_containers s) cid \<noteq> None \<Longrightarrow> r = Inr tp \<and> fwd s' = (fwd s)(cid := (fwd s cid)(port \<mapsto> f))
      \<and> hs_used_host_ports s' = hs_used_host_ports s"
    using some fw by (auto simp: fun_eq_iff)
  show "host_wf s \<Longrightarrow> host_wf s'"
    using some gone by (cases "hm_get (hs_containers s) cid") (auto simp: host_wf_def split: if_splits)
  note mem = remove1_reservation(1) [OF d(5) assms(1)]
  show "ports_safe s' (remove1 (cid, tp) R)"
  proof (cases "hm_get (hs_containers s) cid")
    case None
    then show ?thesis
      using gone release_reservation(1) [OF assms(1) safe] by simp
  next
    case (Some c)
    then have e: "fwd s' = (fwd s)(cid := (fwd s cid)(port \<mapsto> f))" "hs_used_host_ports s' = hs_used_host_ports s"
      using eq by simp_all
    have get: "fwd s' c p = Some g \<longleftrightarrow> (if (c, p) = (cid, port) then g = f else fwd s c p = Some g)" for c p g
      by (auto simp: e(1))
    have old: "fwd s c p = Some g \<Longrightarrow> fs_host_port g \<noteq> tp" for c p g
      using d(4) [OF assms(1)] by blast
    show ?thesis
    proof (rule ports_safeI, unfold get mem e(2))
      fix c1 p1 f1 c2 p2 f2
      assume "if (c1, p1) = (cid, port) then f1 = f else fwd s c1 p1 = Some f1"
        and "if (c2, p2) = (cid, port) then f2 = f else fwd s c2 p2 = Some f2" and "fs_host_port f1 = fs_host_port f2"
      then show "c1 = c2 \<and> p1 = p2"
        using d(1) [of c1 p1 f1 c2 p2 f2] old [of c1 p1 f1] old [of c2 p2 f2] assms(2)
        by (metis prod.inject)
    next
      fix c1 p1 f1 assume "if (c1, p1) = (cid, port) then f1 = f else fwd s c1 p1 = Some f1"
      then show "used s (fs_host_port f1) = Some c1"
        using d(2) [of c1 p1 f1] d(3) [OF assms(1)] assms(2) by (auto split: if_splits)
    next
      fix c1 t c2 p2 f2 assume "(c1, t) \<in> set R \<and> t \<noteq> tp"
        and "if (c2, p2) = (cid, port) then f2 = f else fwd s c2 p2 = Some f2"
      then show "fs_host_port f2 \<noteq> t"
        using d(4) [of c1 t c2 p2 f2] assms(2) by (auto split: if_splits)
    qed (use d(3) remove1_reservation(2) [OF d(5) assms(1)] in blast)+
  qed
  show "ports_exact s' (remove1 (cid, tp) R)" if "fwd s cid port = None" "ports_exact s R"
  proof (cases "hm_get (hs_containers s) cid")
    case None
    then show ?thesis
      using gone release_reservation(2) [OF assms(1) safe that(2)] by simp
  next
    case (Some c)
    then have e: "fwd s' = (fwd s)(cid := (fwd s cid)(port \<mapsto> f))" "hs_used_host_ports s' = hs_used_host_ports s"
      using eq by simp_all
    show ?thesis
      unfolding ports_exact_def mem e(2)
    proof (intro allI impI)
      fix t c' assume u: "used s t = Some c'"
      show "(\<exists>p g. fwd s' c' p = Some g \<and> fs_host_port g = t) \<or> (c', t) \<in> set R \<and> t \<noteq> tp"
      proof (cases "t = tp")
        case True
        then have "c' = cid"
          using u d(3) [OF assms(1)] by simp
        then show ?thesis
          using True assms(2) by (auto simp: e(1))
      next
        case False
        then have "(\<exists>p g. fwd s c' p = Some g \<and> fs_host_port g = t) \<or> (c', t) \<in> set R"
          using u that(2) by (auto simp: ports_exact_def)
        then show ?thesis
          using False that(1) by (auto simp: e(1)) (metis option.distinct(1))
      qed
    qed
  qed
qed

lemma register_insert_ports:
  "ports_safe s R \<Longrightarrow> ports_safe (register_insert cid h r q m s) R"
  "fwd s cid = Map.empty \<Longrightarrow> ports_exact s R \<Longrightarrow> ports_exact (register_insert cid h r q m s) R"
  "host_wf s \<Longrightarrow> host_wf (register_insert cid h r q m s)"
  "fwd (register_insert cid h r q m s) = (fwd s)(cid := Map.empty)"
proof -
  show f: "fwd (register_insert cid h r q m s) = (fwd s)(cid := Map.empty)"
    by (auto simp: register_insert_def fun_eq_iff)
  have u: "hs_used_host_ports (register_insert cid h r q m s) = hs_used_host_ports s"
    by (simp add: register_insert_def)
  have get: "fwd (register_insert cid h r q m s) c p = Some g \<longleftrightarrow> c \<noteq> cid \<and> fwd s c p = Some g" for c p g
    by (auto simp: f)
  show "ports_safe s R \<Longrightarrow> ports_safe (register_insert cid h r q m s) R"
    unfolding ports_safe_def get u by blast
  show "fwd s cid = Map.empty \<Longrightarrow> ports_exact s R \<Longrightarrow> ports_exact (register_insert cid h r q m s) R"
    unfolding ports_exact_def get u by (metis option.distinct(1))
  show "host_wf s \<Longrightarrow> host_wf (register_insert cid h r q m s)"
    by (auto simp: host_wf_def register_insert_def split: if_splits)
qed

end
