(* ===== verification/HostSystem.thy ===== *)
theory HostSystem
  imports HostInv
begin

section \<open>Interleaved handlers\<close>

text \<open>
  Every task of the daemon takes the state lock several times, and other tasks run in between.
  A step is one critical section of theory HostState; the list of tasks holds what a task
  carries from one section to the next: a forward after its old one is torn down, a forward
  with a reserved port, a registration after the superseded one is removed. A listener binds
  the port it is given, as the operating system does for a port other than zero.
\<close>

datatype task =
    Torn string u16
  | Reserved string u16 u16
  | Registering string string

record host_system =
  sy_state :: host_state
  sy_tasks :: "task list"
  sy_next :: u64

definition sy_init :: "host_system \<Rightarrow> bool" where
  "sy_init y \<longleftrightarrow> y = \<lparr>sy_state = host_state_new, sy_tasks = [], sy_next = 1\<rparr>"

inductive sy_step :: "host_system \<Rightarrow> host_system \<Rightarrow> bool" where
  sy_take_old:
    "forward_take_old cid port (sy_state y) = (Inr old, s) \<Longrightarrow>
     sy_step y (y\<lparr>sy_state := s, sy_tasks := Torn cid port # sy_tasks y\<rparr>)"
| sy_rejected:
    "forward_take_old cid port (sy_state y) = (Inl e, s) \<Longrightarrow> sy_step y (y\<lparr>sy_state := s\<rparr>)"
| sy_reserve:
    "\<lbrakk> Torn cid port \<in> set (sy_tasks y); forward_reserve cid port (sy_state y) = Some (Inr tp, s) \<rbrakk> \<Longrightarrow>
     sy_step y (y\<lparr>sy_state := s, sy_tasks := Reserved cid port tp # remove1 (Torn cid port) (sy_tasks y)\<rparr>)"
| sy_no_port:
    "\<lbrakk> Torn cid port \<in> set (sy_tasks y); forward_reserve cid port (sy_state y) = Some (Inl e, s) \<rbrakk> \<Longrightarrow>
     sy_step y (y\<lparr>sy_state := s, sy_tasks := remove1 (Torn cid port) (sy_tasks y)\<rparr>)"
| sy_bind_fails:
    "Reserved cid port tp \<in> set (sy_tasks y) \<Longrightarrow>
     sy_step y (y\<lparr>sy_state := release_port tp (sy_state y), sy_tasks := remove1 (Reserved cid port tp) (sy_tasks y)\<rparr>)"
| sy_commit:
    "\<lbrakk> Reserved cid port tp \<in> set (sy_tasks y); fs_host_port f = tp; forward_commit cid port tp f (sy_state y) = (r, s) \<rbrakk> \<Longrightarrow>
     sy_step y (y\<lparr>sy_state := s, sy_tasks := remove1 (Reserved cid port tp) (sy_tasks y)\<rparr>)"
| sy_unforward:
    "take_forward cid port (sy_state y) = (old, s) \<Longrightarrow> sy_step y (y\<lparr>sy_state := s\<rparr>)"
| sy_unforward_global:
    "unforward_global_take port (sy_state y) = (old, s) \<Longrightarrow> sy_step y (y\<lparr>sy_state := s\<rparr>)"
| sy_cleanup:
    "cleanup_take cid reg (sy_state y) = (old, s) \<Longrightarrow> sy_step y (y\<lparr>sy_state := s\<rparr>)"
| sy_register_take:
    "register_take cid (sy_state y) = (Inr old, s) \<Longrightarrow>
     sy_step y (y\<lparr>sy_state := s, sy_tasks := Registering cid hostname # sy_tasks y\<rparr>)"
| sy_register_full:
    "register_take cid (sy_state y) = (Inl u, s) \<Longrightarrow> sy_step y (y\<lparr>sy_state := s\<rparr>)"
| sy_register_insert:
    "Registering cid hostname \<in> set (sy_tasks y) \<Longrightarrow>
     sy_step y (y\<lparr>sy_state := register_insert cid hostname (sy_next y) req out (sy_state y),
       sy_tasks := remove1 (Registering cid hostname) (sy_tasks y), sy_next := sy_next y + 1\<rparr>)"
| sy_register_send_fails:
    "Registering cid hostname \<in> set (sy_tasks y) \<Longrightarrow>
     sy_step y (y\<lparr>sy_tasks := remove1 (Registering cid hostname) (sy_tasks y)\<rparr>)"
| sy_sockets:
    "sy_step y (y\<lparr>sy_state := socket_update new removed (sy_state y)\<rparr>)"

text \<open>The reservations of the tasks.\<close>

fun reservations :: "task list \<Rightarrow> (string \<times> u16) list" where
  "reservations [] = []"
| "reservations (Reserved cid port tp # ts) = (cid, tp) # reservations ts"
| "reservations (t # ts) = reservations ts"

lemma reservations_remove_other:
  "(\<And>cid port tp. t \<noteq> Reserved cid port tp) \<Longrightarrow> reservations (remove1 t ts) = reservations ts"
  by (induction ts rule: reservations.induct) auto

lemma reservations_remove:
  "Reserved cid port tp \<in> set ts \<Longrightarrow> \<exists>a b. reservations ts = a @ (cid, tp) # b
     \<and> reservations (remove1 (Reserved cid port tp) ts) = a @ b"
proof (induction ts rule: reservations.induct)
  case (2 c p t ts)
  show ?case
  proof (cases "Reserved c p t = Reserved cid port tp")
    case True
    then show ?thesis
      by (intro exI [of _ "[]"] exI [of _ "reservations ts"]) simp
  next
    case False
    with 2 obtain a b where "reservations ts = a @ (cid, tp) # b"
      "reservations (remove1 (Reserved cid port tp) ts) = a @ b"
      by auto
    with False show ?thesis
      by (intro exI [of _ "(c, t) # a"] exI [of _ b]) auto
  qed
qed auto

definition sy_inv :: "host_system \<Rightarrow> bool" where
  "sy_inv y \<longleftrightarrow> host_wf (sy_state y) \<and> ports_safe (sy_state y) (reservations (sy_tasks y))"

text \<open>A critical section that keeps safety for every list of reservations.\<close>

definition keeps :: "host_state \<Rightarrow> host_state \<Rightarrow> bool" where
  "keeps s s' \<longleftrightarrow> (host_wf s \<longrightarrow> host_wf s') \<and> (\<forall>R. host_wf s \<longrightarrow> ports_safe s R \<longrightarrow> ports_safe s' R)"

lemma keeps_refl: "keeps s s"
  by (simp add: keeps_def)

lemma keeps_take: "take_forward cid port s = (old, s') \<Longrightarrow> keeps s s'"
  using take_forward_wf take_forward_ports(1) unfolding keeps_def by blast

lemma keeps_take_old: "forward_take_old cid port s = (r, s') \<Longrightarrow> keeps s s'"
  by (auto simp: forward_take_old_def keeps_refl split: option.splits if_splits prod.splits intro: keeps_take)

lemma keeps_unforward_global: "unforward_global_take port s = (old, s') \<Longrightarrow> keeps s s'"
  by (auto simp: unforward_global_take_def keeps_refl split: option.splits intro: keeps_take)

lemma keeps_drop: "hm_get (hs_containers s) cid = Some c \<Longrightarrow> keeps s (drop_container cid c s)"
  using drop_container_ports(1,3) unfolding keeps_def by blast

lemma remove_absent: "hm_get (hs_containers s) cid = None \<Longrightarrow> remove_container cid s = s"
  by (simp add: remove_container_def delete_id hm_get_keys)

lemma keeps_cleanup: "cleanup_take cid reg s = (old, s') \<Longrightarrow> keeps s s'"
  by (auto simp: cleanup_take_def keeps_refl drop_container_def [symmetric] split: option.splits if_splits
      intro: keeps_drop)

lemma keeps_register_take: "register_take cid s = (r, s') \<Longrightarrow> keeps s s'"
  by (auto simp: register_take_def remove_absent keeps_refl drop_container_def [symmetric]
      split: option.splits if_splits intro: keeps_drop)

lemma keeps_register_insert: "keeps s (register_insert cid h r q m s)"
  using register_insert_ports(1,3) unfolding keeps_def by blast

lemma keeps_sockets: "keeps s (socket_update new removed s)"
  by (simp add: keeps_def host_wf_def ports_safe_def)

lemma sy_inv_keeps:
  "sy_inv y \<Longrightarrow> keeps (sy_state y) s \<Longrightarrow> reservations ts = reservations (sy_tasks y) \<Longrightarrow>
   sy_inv (y\<lparr>sy_state := s, sy_tasks := ts\<rparr>)"
  by (simp add: sy_inv_def keeps_def)

lemma ports_safe_move: "ports_safe s (a @ x # b) \<longleftrightarrow> ports_safe s (x # a @ b)"
proof -
  have "(c, t) \<in> set (a @ x # b) \<longleftrightarrow> (c, t) \<in> set (x # a @ b)" for c t
    by auto
  moreover have "distinct (map snd (a @ x # b)) \<longleftrightarrow> distinct (map snd (x # a @ b))"
    by auto
  ultimately show ?thesis
    unfolding ports_safe_def by presburger
qed

text \<open>The end of a reservation.\<close>

lemma sy_inv_unreserve:
  assumes "sy_inv y" and "Reserved cid port tp \<in> set (sy_tasks y)"
    and step: "\<And>R. (cid, tp) \<in> set R \<Longrightarrow> host_wf (sy_state y) \<Longrightarrow> ports_safe (sy_state y) R \<Longrightarrow>
      host_wf s \<and> ports_safe s (remove1 (cid, tp) R)"
  shows "sy_inv (y\<lparr>sy_state := s, sy_tasks := remove1 (Reserved cid port tp) (sy_tasks y)\<rparr>)"
proof -
  obtain a b where r: "reservations (sy_tasks y) = a @ (cid, tp) # b"
    "reservations (remove1 (Reserved cid port tp) (sy_tasks y)) = a @ b"
    using reservations_remove [OF assms(2)] by blast
  have "ports_safe (sy_state y) ((cid, tp) # a @ b)"
    using assms(1) r by (simp add: sy_inv_def ports_safe_move)
  with step [of "(cid, tp) # a @ b"] assms(1) r show ?thesis
    by (simp add: sy_inv_def)
qed

lemma sy_inv_step: "sy_step y y' \<Longrightarrow> sy_inv y \<Longrightarrow> sy_inv y'"
proof (induction rule: sy_step.induct)
  case (sy_take_old cid port y old s)
  then show ?case
    using keeps_take_old by (intro sy_inv_keeps) auto
next
  case (sy_rejected cid port y e s)
  then show ?case
    using sy_inv_keeps [of y s "sy_tasks y"] keeps_take_old by simp
next
  case (sy_reserve cid port y tp s)
  then have "reservations (Reserved cid port tp # remove1 (Torn cid port) (sy_tasks y)) = (cid, tp) # reservations (sy_tasks y)"
    by (simp add: reservations_remove_other)
  then show ?case
    using forward_reserve_ports(1,3) [OF sy_reserve.hyps(2)] sy_reserve.prems
    unfolding sy_inv_def by simp
next
  case (sy_no_port cid port y e s)
  then have "s = sy_state y"
    by (auto simp: forward_reserve_def split: option.splits)
  then show ?case
    using sy_no_port.prems by (intro sy_inv_keeps) (simp_all add: keeps_refl reservations_remove_other)
next
  case (sy_bind_fails cid port tp y)
  show ?case
    using release_reservation(1,3) by (intro sy_inv_unreserve [OF sy_bind_fails.prems sy_bind_fails.hyps]) blast
next
  case (sy_commit cid port tp y f r s)
  show ?case
    using forward_commit_ports(1,3) [OF _ sy_commit.hyps(2,3)]
    by (intro sy_inv_unreserve [OF sy_commit.prems sy_commit.hyps(1)]) blast
next
  case (sy_unforward cid port y old s)
  then show ?case
    using sy_inv_keeps [of y s "sy_tasks y"] keeps_take by simp
next
  case (sy_unforward_global port y old s)
  then show ?case
    using sy_inv_keeps [of y s "sy_tasks y"] keeps_unforward_global by simp
next
  case (sy_cleanup cid reg y old s)
  then show ?case
    using sy_inv_keeps [of y s "sy_tasks y"] keeps_cleanup by simp
next
  case (sy_register_take cid y old s hostname)
  then show ?case
    using keeps_register_take by (intro sy_inv_keeps) auto
next
  case (sy_register_full cid y u s)
  then show ?case
    using sy_inv_keeps [of y s "sy_tasks y"] keeps_register_take by simp
next
  case (sy_register_insert cid hostname y req out)
  then show ?case
    using sy_inv_keeps [of y _ "remove1 (Registering cid hostname) (sy_tasks y)"] keeps_register_insert
    by (simp add: sy_inv_def keeps_def reservations_remove_other)
next
  case (sy_register_send_fails cid hostname y)
  then show ?case
    by (simp add: sy_inv_def reservations_remove_other)
next
  case (sy_sockets y new removed)
  then show ?case
    using sy_inv_keeps [of y _ "sy_tasks y"] keeps_sockets by simp
qed

lemma sy_inv_init: "sy_init y \<Longrightarrow> sy_inv y"
  by (simp add: sy_init_def sy_inv_def host_wf_def host_state_new_def ports_safe_def fwd_def)

interpretation hosts: inductive_invariant sy_init sy_step sy_inv
  by unfold_locales (erule sy_inv_init, erule (1) sy_inv_step [rotated])

subsection \<open>A run of one registration and one forward\<close>

lemma find_port_preferred: "preferred \<noteq> 0 \<Longrightarrow> \<not> taken preferred \<Longrightarrow> find_port taken preferred = Some (Some preferred)"
  by (simp add: find_port_def find_port_loop.simps)

definition one_forward :: forward_state where
  "one_forward = \<lparr>fs_host_port = 3000, fs_listener = 0, fs_process_name = None, fs_pid = None, fs_since = ''0'', fs_tracker = 1\<rparr>"

definition one_container :: "u64 \<Rightarrow> (u16, forward_state) hashmap \<Rightarrow> container_state" where
  "one_container reg fs = \<lparr>con_registration_id = reg, con_hostname = ''h'', con_forwards = fs,
     con_connect_request_tx = 0, con_outbound_msg_tx = 0\<rparr>"

definition one_state :: "u64 \<Rightarrow> (u16, forward_state) hashmap \<Rightarrow> (u16, string) hashmap \<Rightarrow> host_state" where
  "one_state reg fs u = \<lparr>hs_containers = [(''a'', one_container reg fs)], hs_used_host_ports = u, hs_socket_forwards = []\<rparr>"

abbreviation reachable :: "host_system \<Rightarrow> bool" where
  "reachable \<equiv> reach sy_init sy_step"

text \<open>Registration \<open>a\<close> with other tasks \<open>ts\<close> waiting, then its forward of port 3000.\<close>

lemma run_register:
  assumes "reachable \<lparr>sy_state = host_state_new, sy_tasks = Registering ''a'' ''h'' # ts, sy_next = 1\<rparr>"
  shows "reachable \<lparr>sy_state = one_state 1 [] [], sy_tasks = ts, sy_next = 2\<rparr>"
proof -
  let ?y = "\<lparr>sy_state = host_state_new, sy_tasks = Registering ''a'' ''h'' # ts, sy_next = 1\<rparr>"
  have "sy_step ?y \<lparr>sy_state = one_state 1 [] [], sy_tasks = ts, sy_next = 2\<rparr>"
    using sy_register_insert [of "''a''" "''h''" ?y 0 0]
    by (simp add: register_insert_def set_container_def host_state_new_def one_state_def one_container_def)
  with assms show ?thesis
    by (rule reach_more)
qed

lemma run_forward:
  assumes "reachable \<lparr>sy_state = one_state 1 [] [], sy_tasks = ts, sy_next = n\<rparr>"
  shows "reachable \<lparr>sy_state = one_state 1 [(3000, one_forward)] [(3000, ''a'')], sy_tasks = ts, sy_next = n\<rparr>"
proof -
  let ?y = "\<lparr>sy_state = one_state 1 [] [], sy_tasks = ts, sy_next = n\<rparr>"
  let ?u = "[(3000, ''a'')]"
  have "forward_take_old ''a'' 3000 (sy_state ?y) = (Inr None, one_state 1 [] [])"
    by (simp add: forward_take_old_def one_state_def one_container_def take_forward_def MAX_FORWARDS_PER_CONTAINER_def)
  from reach_more [OF assms sy_take_old [OF this]]
  have 1: "reachable (?y\<lparr>sy_tasks := Torn ''a'' 3000 # ts\<rparr>)" (is "reachable ?y1")
    by simp
  have "forward_reserve ''a'' 3000 (sy_state ?y1) = Some (Inr 3000, one_state 1 [] ?u)"
    by (simp add: forward_reserve_def find_available_port_def find_port_preferred one_state_def hm_contains_def reserve_port_def)
  moreover have "Torn ''a'' 3000 \<in> set (sy_tasks ?y1)"
    by simp
  ultimately have "reachable (?y1\<lparr>sy_state := one_state 1 [] ?u,
      sy_tasks := Reserved ''a'' 3000 3000 # remove1 (Torn ''a'' 3000) (sy_tasks ?y1)\<rparr>)"
    by (intro reach_more [OF 1] sy_reserve)
  then have 2: "reachable (?y\<lparr>sy_state := one_state 1 [] ?u, sy_tasks := Reserved ''a'' 3000 3000 # ts\<rparr>)"
    (is "reachable ?y2")
    by simp
  have "forward_commit ''a'' 3000 3000 one_forward (sy_state ?y2) = (Inr 3000, one_state 1 [(3000, one_forward)] ?u)"
    by (simp add: forward_commit_def one_state_def one_forward_def one_container_def set_container_def)
  moreover have "Reserved ''a'' 3000 3000 \<in> set (sy_tasks ?y2)" "fs_host_port one_forward = 3000"
    by (simp_all add: one_forward_def)
  ultimately have "reachable (?y2\<lparr>sy_state := one_state 1 [(3000, one_forward)] ?u,
      sy_tasks := remove1 (Reserved ''a'' 3000 3000) (sy_tasks ?y2)\<rparr>)"
    by (intro reach_more [OF 2] sy_commit)
  then show ?thesis
    by simp
qed

lemma run_take:
  assumes "reachable \<lparr>sy_state = host_state_new, sy_tasks = ts, sy_next = 1\<rparr>"
  shows "reachable \<lparr>sy_state = host_state_new, sy_tasks = Registering cid h # ts, sy_next = 1\<rparr>"
proof -
  let ?y = "\<lparr>sy_state = host_state_new, sy_tasks = ts, sy_next = 1\<rparr>"
  have "register_take cid (sy_state ?y) = (Inr None, host_state_new)"
    by (simp add: register_take_def host_state_new_def MAX_CONTAINERS_def remove_container_def)
  from reach_more [OF assms sy_register_take [OF this]] show ?thesis
    by simp
qed

lemma run_start: "reachable \<lparr>sy_state = host_state_new, sy_tasks = [], sy_next = 1\<rparr>"
  by (rule reach_start) (simp add: sy_init_def)

subsection \<open>Properties\<close>

text \<open>C2. Host ports are exclusive: in every interleaving of registrations, forwards, unforwards, cleanups
  and socket scans, two forwards never share a host port, the port of each forward is
  recorded as used by its container, and a port reserved by a forward in progress is neither
  that of a forward nor reserved twice.\<close>

theorem host_ports_exclusive:
  assumes "reach sy_init sy_step y"
  shows "(\<forall>cid p f cid' p' f'. fwd (sy_state y) cid p = Some f \<longrightarrow> fwd (sy_state y) cid' p' = Some f'
        \<longrightarrow> fs_host_port f = fs_host_port f' \<longrightarrow> cid = cid' \<and> p = p')
    \<and> (\<forall>cid p f. fwd (sy_state y) cid p = Some f \<longrightarrow> hm_get (hs_used_host_ports (sy_state y)) (fs_host_port f) = Some cid)
    \<and> (\<forall>cid port tp cid' p f. Reserved cid port tp \<in> set (sy_tasks y) \<longrightarrow> fwd (sy_state y) cid' p = Some f \<longrightarrow> fs_host_port f \<noteq> tp)
    \<and> distinct (map snd (reservations (sy_tasks y)))"
proof -
  have safe: "ports_safe (sy_state y) (reservations (sy_tasks y))"
    using hosts.reach_inv [OF assms] by (simp add: sy_inv_def)
  have "Reserved cid port tp \<in> set ts \<Longrightarrow> (cid, tp) \<in> set (reservations ts)" for cid port tp ts
    by (induction ts rule: reservations.induct) auto
  with ports_safeD [OF safe] show ?thesis
    by blast
qed

theorem host_ports_exclusive_witness:
  "hm_get (hs_used_host_ports (one_state 1 [(3000, one_forward)] [(3000, ''a'')])) (fs_host_port one_forward) = Some ''a''"
proof -
  have "reachable \<lparr>sy_state = one_state 1 [(3000, one_forward)] [(3000, ''a'')], sy_tasks = [], sy_next = 2\<rparr>"
    using run_forward [OF run_register [OF run_take [OF run_start]]] .
  from host_ports_exclusive [OF this, THEN conjunct2, THEN conjunct1, rule_format, of "''a''" 3000 one_forward]
  show ?thesis
    by (simp add: fwd_def one_state_def one_container_def)
qed

text \<open>Two registrations of one container id that overlap leak: both pass the check before either is
  entered, the second entry replaces the first with its forwards, and after every connection
  is gone and every task has ended the host port of the lost forward is still recorded as
  used.\<close>

theorem concurrent_registration_leaks:
  "\<exists>y. reach sy_init sy_step y \<and> sy_tasks y = [] \<and> hs_containers (sy_state y) = []
     \<and> hm_get (hs_used_host_ports (sy_state y)) 3000 = Some ''a''"
proof -
  let ?u = "[(3000, ''a'')]"
  have 1: "reachable \<lparr>sy_state = one_state 1 [(3000, one_forward)] ?u, sy_tasks = [Registering ''a'' ''h''], sy_next = 2\<rparr>"
    using run_forward [OF run_register [OF run_take [OF run_take [OF run_start]]]] .
  have 2: "reachable \<lparr>sy_state = one_state 2 [] ?u, sy_tasks = [], sy_next = 3\<rparr>"
  proof -
    let ?y = "\<lparr>sy_state = one_state 1 [(3000, one_forward)] ?u, sy_tasks = [Registering ''a'' ''h''], sy_next = 2\<rparr>"
    have "sy_step ?y \<lparr>sy_state = one_state 2 [] ?u, sy_tasks = [], sy_next = 3\<rparr>"
      using sy_register_insert [of "''a''" "''h''" ?y 0 0]
      by (simp add: register_insert_def set_container_def one_state_def one_container_def)
    with 1 show ?thesis
      by (rule reach_more)
  qed
  have "cleanup_take ''a'' 2 (sy_state \<lparr>sy_state = one_state 2 [] ?u, sy_tasks = [], sy_next = 3\<rparr>)
      = (Some [], \<lparr>hs_containers = [], hs_used_host_ports = ?u, hs_socket_forwards = []\<rparr>)"
    by (simp add: cleanup_take_def one_state_def one_container_def release_ports_def remove_container_def)
  then have "sy_step \<lparr>sy_state = one_state 2 [] ?u, sy_tasks = [], sy_next = 3\<rparr>
      \<lparr>sy_state = \<lparr>hs_containers = [], hs_used_host_ports = ?u, hs_socket_forwards = []\<rparr>, sy_tasks = [], sy_next = 3\<rparr>"
    using sy_cleanup [where y = "\<lparr>sy_state = one_state 2 [] ?u, sy_tasks = [], sy_next = 3\<rparr>"] by force
  with 2 have "reachable \<lparr>sy_state = \<lparr>hs_containers = [], hs_used_host_ports = ?u, hs_socket_forwards = []\<rparr>, sy_tasks = [], sy_next = 3\<rparr>"
    by (rule reach_more)
  then show ?thesis
    by (intro exI conjI) (assumption, simp_all)
qed

definition nth_cid :: "nat \<Rightarrow> string" where
  "nth_cid i = replicate (Suc i) (CHR ''a'')"

lemma run_takes: "reachable \<lparr>sy_state = host_state_new, sy_tasks = map (\<lambda>i. Registering (nth_cid i) ''h'') (rev [0..<n]), sy_next = 1\<rparr>"
  by (induction n) (auto simp: run_start intro: run_take)

lemma run_inserts:
  "k \<le> n \<Longrightarrow> \<exists>y. reachable y \<and> sy_tasks y = map (\<lambda>i. Registering (nth_cid i) ''h'') (rev [0..<n - k])
     \<and> hm_wf (hs_containers (sy_state y)) \<and> fst ` set (hs_containers (sy_state y)) = nth_cid ` {n - k..<n}"
proof (induction k)
  case 0
  show ?case
    using run_takes [of n] by (intro exI conjI) (assumption, simp_all add: host_state_new_def)
next
  case (Suc k)
  then obtain y where y: "reachable y" "sy_tasks y = map (\<lambda>i. Registering (nth_cid i) ''h'') (rev [0..<n - k])"
    "hm_wf (hs_containers (sy_state y))" "fst ` set (hs_containers (sy_state y)) = nth_cid ` {n - k..<n}"
    by auto
  have nk: "n - k = Suc (n - Suc k)"
    using Suc.prems by simp
  have t: "sy_tasks y = Registering (nth_cid (n - Suc k)) ''h'' # map (\<lambda>i. Registering (nth_cid i) ''h'') (rev [0..<n - Suc k])"
    using y(2) by (simp add: nk)
  let ?y = "y\<lparr>sy_state := register_insert (nth_cid (n - Suc k)) ''h'' (sy_next y) 0 0 (sy_state y),
    sy_tasks := remove1 (Registering (nth_cid (n - Suc k)) ''h'') (sy_tasks y), sy_next := sy_next y + 1\<rparr>"
  have "reachable ?y"
    by (rule reach_more [OF y(1)], rule sy_register_insert) (simp add: t)
  moreover have "{n - Suc k..<n} = insert (n - Suc k) {n - k..<n}"
    using Suc.prems by auto
  ultimately show ?case
    using y(3,4) t by (intro exI [of _ ?y]) (simp add: register_insert_def fst_insert)
qed

text \<open>The limit of 64 containers is not kept when registrations overlap: the check and the entry are
  two critical sections, and 65 connections that have passed the check are all entered.\<close>

theorem container_limit_overrun:
  "\<exists>y. reach sy_init sy_step y \<and> length (hs_containers (sy_state y)) = 65"
proof -
  obtain y where y: "reachable y" "hm_wf (hs_containers (sy_state y))"
    "fst ` set (hs_containers (sy_state y)) = nth_cid ` {0..<65}"
    using run_inserts [of 65 65] by auto
  have "inj_on nth_cid {0..<65}"
    by (auto simp: inj_on_def nth_cid_def dest: arg_cong [of _ _ length])
  then have "length (hs_containers (sy_state y)) = 65"
    using hm_length_keys [OF y(2)] y(3) by (simp add: card_image)
  with y(1) show ?thesis
    by blast
qed

end
