(* ===== verification/HostSeq.thy ===== *)
theory HostSeq
  imports HostSystem
begin

section \<open>Complete handlers, one after the other\<close>

text \<open>
  The handlers of theory Host as operations on the daemon context. While each runs to its end
  (or up to a wait) before the next begins, the table of used host ports agrees exactly with
  the forwards, and the limits on containers and forwards hold.
\<close>

datatype host_op =
    Connection host_env bool bool "loop_event list" control_connection
  | Messages string u64 nat nat "loop_event list" u32 control_connection
  | EndConnection bool string u64 nat nat "control_error + unit"
  | ClientBegin string client_connection
  | ClientEnd copy string nat nat tcp_writer "waited option"
  | Scan "bytes \<Rightarrow> string" scan_env socket_scanner
  | Stop host_config
  | DataConnection host_env "capture_error \<Rightarrow> string" "clipboard_format \<Rightarrow> capture_error + clipboard_image list"
      "nat \<Rightarrow> pending_connections \<Rightarrow> pending_connections" "nat \<Rightarrow> nat" bool "nat option" nat buf_reader tcp_writer

fun run_op :: "host_op \<Rightarrow> daemon_context \<Rightarrow> daemon_context option" where
  "run_op (Connection env timed_out exit_on_idle events conn) d =
     map_option (\<lambda>(_, _, d1). d1) (handle_control_connection env timed_out exit_on_idle events conn d)"
| "run_op (Messages cid reg req out events missed conn) d =
     map_option (\<lambda>(_, _, d1). d1) (handle_container_messages cid reg req out events missed conn d)"
| "run_op (EndConnection exit_on_idle cid reg req out result) d = Some (snd (end_connection exit_on_idle cid reg req out result d))"
| "run_op (ClientBegin conn_id client) d = Some (snd (client_begin conn_id client d))"
| "run_op (ClientEnd copy conn_id trk rx client ended) d = Some (snd (client_end copy conn_id trk rx client ended d))"
| "run_op (Scan lossy senv scanner) d = Some (snd (scanner_turn lossy senv scanner d))"
| "run_op (Stop config) d = Some (host_stop config d)"
| "run_op (DataConnection env show_error capture others late timed_out stopped sock r w) d =
     Some (snd (snd (handle_data_connection env show_error capture others late timed_out stopped sock r w d)))"

fun run_ops :: "host_op list \<Rightarrow> daemon_context \<Rightarrow> daemon_context option" where
  "run_ops [] d = Some d"
| "run_ops (op # ops) d = (case run_op op d of None \<Rightarrow> None | Some d1 \<Rightarrow> run_ops ops d1)"

text \<open>A listener on a port other than zero is bound to that port.\<close>

definition honest :: "host_env \<Rightarrow> bool" where
  "honest env \<longleftrightarrow> (\<forall>p q. he_bind4 env p = Some q \<or> he_bind6 env p = Some q \<longrightarrow> q = p)"

fun event_env :: "loop_event \<Rightarrow> host_env" where
  "event_env (LoopRecv env) = env"
| "event_env (LoopRequest n env) = env"
| "event_env (LoopOutbound n env) = env"
| "event_env (LoopTick n env) = env"

fun op_honest :: "host_op \<Rightarrow> bool" where
  "op_honest (Connection env timed_out exit_on_idle events conn) = list_all (\<lambda>e. honest (event_env e)) events"
| "op_honest (Messages cid reg req out events missed conn) = list_all (\<lambda>e. honest (event_env e)) events"
| "op_honest op = True"

subsection \<open>The exact invariant\<close>

definition host_ok :: "host_state \<Rightarrow> bool" where
  "host_ok s \<longleftrightarrow> host_wf s \<and> ports_safe s [] \<and> ports_exact s [] \<and> length (hs_containers s) \<le> MAX_CONTAINERS
     \<and> (\<forall>cid c. hm_get (hs_containers s) cid = Some c \<longrightarrow> length (con_forwards c) \<le> MAX_FORWARDS_PER_CONTAINER)"

definition small :: "host_state \<Rightarrow> bool" where
  "small s \<longleftrightarrow> length (hs_containers s) \<le> MAX_CONTAINERS
     \<and> (\<forall>cid c. hm_get (hs_containers s) cid = Some c \<longrightarrow> length (con_forwards c) \<le> MAX_FORWARDS_PER_CONTAINER)"

lemma host_ok_small: "host_ok s \<longleftrightarrow> host_wf s \<and> ports_safe s [] \<and> ports_exact s [] \<and> small s"
  by (simp add: host_ok_def small_def)

lemma dc_state_effects [host_simps, simp]:
  "dc_state (log_effects es d) = dc_state d" "dc_state (teardown_one port f d) = dc_state d"
  "dc_state (teardown_many t fs d) = dc_state d" "dc_state (update_tracker g trk d) = dc_state d"
  "dc_state (update_state h d) = h (dc_state d)" "dc_state (try_send m out d) = dc_state d"
  by (simp_all add: log_effects_def teardown_one_def teardown_many_def update_tracker_def update_state_def
      try_send_def Let_def)

lemma dc_state_broadcast [host_simps, simp]: "dc_state (broadcast m senders d) = dc_state d"
  unfolding broadcast_def by (induction senders arbitrary: d) simp_all

lemma dc_state_broadcasts [host_simps, simp]: "dc_state (fold (\<lambda>i. broadcast (m i) senders) is d) = dc_state d"
  by (induction "is" arbitrary: d) simp_all

text \<open>The critical sections keep it.\<close>

lemma set_container_small:
  assumes "small s" and "host_wf s" and "length (con_forwards c) \<le> MAX_FORWARDS_PER_CONTAINER"
    and "hm_get (hs_containers s) cid \<noteq> None \<or> length (hs_containers s) < MAX_CONTAINERS"
  shows "small (set_container cid c s)"
  using assms by (auto simp: small_def host_wf_def hm_length_insert hm_contains_def split: if_splits)

lemma small_mono: "small s \<Longrightarrow> hs_containers s' = hs_containers s \<Longrightarrow> small s'"
  by (simp add: small_def)

lemma host_ok_take:
  assumes "take_forward cid port s = (old, s')" and "host_ok s"
  shows "host_ok s'"
proof -
  have "small s'"
  proof (cases "hm_get (hs_containers s) cid")
    case None
    then show ?thesis
      using assms by (simp add: take_forward_def host_ok_small)
  next
    case (Some c)
    then have "length (hm_remove port (con_forwards c)) \<le> MAX_FORWARDS_PER_CONTAINER"
      using assms(2) hm_length_remove_le [of port "con_forwards c"] order_trans unfolding host_ok_def by blast
    then have "small (set_container cid (c\<lparr>con_forwards := hm_remove port (con_forwards c)\<rparr>) s)"
      using assms(2) Some by (intro set_container_small) (auto simp: host_ok_small)
    then show ?thesis
      using assms Some by (auto simp: take_forward_def host_ok_small split: option.splits elim: small_mono)
  qed
  then show ?thesis
    using assms take_forward_wf [OF assms(1)] take_forward_ports [OF assms(1)] by (simp add: host_ok_small)
qed

lemma host_ok_drop:
  assumes "host_ok s" and "hm_get (hs_containers s) cid = Some c"
  shows "host_ok (drop_container cid c s)" and "length (hs_containers (drop_container cid c s)) < MAX_CONTAINERS"
proof -
  have w: "host_wf s" and "hm_wf (hs_containers s)"
    using assms(1) by (simp_all add: host_ok_def host_wf_def)
  then have "length (hm_remove cid (hs_containers s)) = length (hs_containers s) - 1" and "hs_containers s \<noteq> []"
    using assms(2) by (auto simp: hm_length_remove hm_contains_def)
  then show "length (hs_containers (drop_container cid c s)) < MAX_CONTAINERS"
    using assms(1) by (cases "hs_containers s") (auto simp: drop_container_def host_ok_def MAX_CONTAINERS_def)
  then show "host_ok (drop_container cid c s)"
    using assms(1) drop_container_ports [OF w assms(2)]
    by (auto simp: host_ok_def drop_container_def split: if_splits)
qed

lemma host_ok_insert:
  assumes "host_ok s" and "hm_get (hs_containers s) cid = None" and "length (hs_containers s) < MAX_CONTAINERS"
  shows "host_ok (register_insert cid h r q m s)"
proof -
  have "fwd s cid = Map.empty"
    using assms(2) by (simp add: fwd_def fun_eq_iff)
  then have "ports_safe (register_insert cid h r q m s) []" "ports_exact (register_insert cid h r q m s) []"
    "host_wf (register_insert cid h r q m s)"
    using assms(1) register_insert_ports(1-3) by (auto simp: host_ok_def)
  moreover have "small (register_insert cid h r q m s)"
    unfolding register_insert_def using assms by (intro set_container_small) (auto simp: host_ok_small)
  ultimately show ?thesis
    by (simp add: host_ok_small)
qed

lemma host_ok_sockets: "host_ok s \<Longrightarrow> host_ok (socket_update new removed s)"
  by (simp add: host_ok_def host_wf_def ports_safe_def ports_exact_def)

lemma host_ok_register_take:
  assumes "register_take cid s = (r, s')" and "host_ok s"
  shows "host_ok s'"
    and "r = Inr old \<Longrightarrow> hm_get (hs_containers s') cid = None \<and> length (hs_containers s') < MAX_CONTAINERS"
proof -
  show "host_ok s'"
    using assms host_ok_drop(1)
    by (auto simp: register_take_def remove_absent drop_container_def [symmetric] split: option.splits if_splits)
  show "r = Inr old \<Longrightarrow> hm_get (hs_containers s') cid = None \<and> length (hs_containers s') < MAX_CONTAINERS"
    using assms host_ok_drop(2)
    by (auto simp: register_take_def remove_absent drop_container_def [symmetric] split: option.splits if_splits)
      (simp add: drop_container_def)
qed

lemma host_ok_cleanup: "cleanup_take cid reg s = (old, s') \<Longrightarrow> host_ok s \<Longrightarrow> host_ok s'"
  by (auto simp: cleanup_take_def drop_container_def [symmetric] split: option.splits if_splits intro: host_ok_drop)

lemma host_ok_drain: "host_ok (snd (drain_all_take s))"
  by (simp add: drain_all_take_def host_ok_def host_wf_def ports_safe_def ports_exact_def fwd_def)

subsection \<open>Forwarding\<close>

lemma honest_bind: "honest env \<Longrightarrow> bind_loopback env p = Inr q \<Longrightarrow> q = p"
  by (auto simp: bind_loopback_def honest_def split: option.splits)

lemma start_listener_result:
  "start_listener env p cp d = (r, d') \<Longrightarrow> dc_state d' = dc_state d \<and> dc_browser d' = dc_browser d
     \<and> (\<forall>q h. r = Inr (q, h) \<longrightarrow> bind_loopback env p = Inr q) \<and> (\<forall>e. r = Inl e \<longrightarrow> e = ListenerBind p)"
  by (auto simp: start_listener_def bind_loopback_def log_effects_def Let_def split: sum.splits option.splits)

lemma forward_take_old_cases:
  assumes "forward_take_old cid port s = (r, s')"
  obtains (rejected) e where "r = Inl e" "s' = s"
  | (taken) old where "r = Inr old" "old = fwd s cid port" "take_forward cid port s = (old, s')"
      "\<And>c. hm_get (hs_containers s') cid = Some c \<Longrightarrow> host_ok s \<Longrightarrow> length (con_forwards c) < MAX_FORWARDS_PER_CONTAINER"
proof (cases "hm_get (hs_containers s) cid")
  case None
  then have "r = Inr None" "s' = s" "take_forward cid port s = (None, s)" "fwd s cid port = None"
    using assms by (auto simp: forward_take_old_def take_forward_def fwd_def)
  then show ?thesis
    using None by (intro taken) auto
next
  case (Some c)
  show ?thesis
  proof (cases "length (con_forwards c) \<ge> MAX_FORWARDS_PER_CONTAINER \<and> \<not> hm_contains (con_forwards c) port")
    case True
    then show ?thesis
      using assms Some by (intro rejected) (auto simp: forward_take_old_def)
  next
    case False
    obtain old where t: "take_forward cid port s = (old, s')" and r: "r = Inr old"
      using assms Some False by (auto simp: forward_take_old_def split: prod.splits)
    have w: "host_ok s \<Longrightarrow> hm_wf (con_forwards c) \<and> length (con_forwards c) \<le> MAX_FORWARDS_PER_CONTAINER"
      using Some by (auto simp: host_ok_def host_wf_def)
    have "length (con_forwards c') < MAX_FORWARDS_PER_CONTAINER"
      if "hm_get (hs_containers s') cid = Some c'" "host_ok s" for c'
    proof (cases "hm_get (con_forwards c) port")
      case None
      then show ?thesis
        using t Some False that by (auto simp: take_forward_def hm_contains_def)
    next
      case (Some f)
      then have "con_forwards c' = hm_remove port (con_forwards c)" and "con_forwards c \<noteq> []"
        using t \<open>hm_get (hs_containers s) cid = Some c\<close> that(1) by (auto simp: take_forward_def)
      moreover have "length (hm_remove port (con_forwards c)) = length (con_forwards c) - 1"
        using Some w [OF that(2)] by (simp add: hm_length_remove hm_contains_def)
      then have "length (hm_remove port (con_forwards c)) < length (con_forwards c)"
        using \<open>con_forwards c \<noteq> []\<close> by simp
      ultimately show ?thesis
        using w [OF that(2)] by simp
    qed
    then show ?thesis
      using r t take_forward_spec(1) [OF t] by (intro taken) auto
  qed
qed

text \<open>
  What \<open>handle_forward\<close> does to the host state, in the four ways it can end; the state after
  the old forward of the same port is taken out is \<open>s1\<close>.
\<close>

lemma handle_forward_cases:
  assumes "handle_forward env cid port name pid d = Some (r, d')"
  obtains (full) e where "r = Inl e" "forward_take_old cid port (dc_state d) = (Inl e, dc_state d')"
  | (no_port) old s1 where "r = Inl NoAvailablePorts" "forward_take_old cid port (dc_state d) = (Inr old, s1)"
      "forward_reserve cid port s1 = Some (Inl NoAvailablePorts, s1)" "dc_state d' = s1"
  | (no_bind) old s1 tp where "r = Inl (ListenerBind tp)" "forward_take_old cid port (dc_state d) = (Inr old, s1)"
      "forward_reserve cid port s1 = Some (Inr tp, reserve_port tp cid s1)"
      "dc_state d' = release_port tp (reserve_port tp cid s1)"
  | (bound) old s1 tp hp f where "forward_take_old cid port (dc_state d) = (Inr old, s1)"
      "forward_reserve cid port s1 = Some (Inr tp, reserve_port tp cid s1)" "bind_loopback env tp = Inr hp"
      "fs_host_port f = hp" "forward_commit cid port tp f (reserve_port tp cid s1) = (r, dc_state d')"
proof -
  obtain t s1 where t: "forward_take_old cid port (dc_state d) = (t, s1)"
    by fastforce
  show ?thesis
  proof (cases t)
    case (Inl e)
    then show ?thesis
      using assms t by (intro full) (auto simp: handle_forward_def)
  next
    case (Inr old)
    let ?d2 = "case old of Some f \<Rightarrow> teardown_one port f (d\<lparr>dc_state := s1\<rparr>) | None \<Rightarrow> d\<lparr>dc_state := s1\<rparr>"
    have d2: "dc_state ?d2 = s1"
      by (simp split: option.split)
    obtain q s3 where q: "forward_reserve cid port s1 = Some (q, s3)"
      using assms t Inr d2 by (cases "forward_reserve cid port s1") (auto simp: handle_forward_def Let_def)
    show ?thesis
    proof (cases q)
      case (Inl e)
      then have "e = NoAvailablePorts" "s3 = s1"
        using q by (auto simp: forward_reserve_def split: option.splits)
      then show ?thesis
        using assms t Inr d2 q Inl by (intro no_port) (auto simp: handle_forward_def Let_def)
    next
      case (Inr tp)
      then have s3: "s3 = reserve_port tp cid s1"
        using q forward_reserve_ports(6) by blast
      obtain l d4 where l: "start_listener env tp port (?d2\<lparr>dc_state := s3\<rparr>) = (l, d4)"
        by fastforce
      note ls = start_listener_result [OF l]
      show ?thesis
      proof (cases l)
        case (Inl e)
        then show ?thesis
          using assms t \<open>t = Inr old\<close> d2 q Inr l ls s3
          by (intro no_bind) (auto simp: handle_forward_def Let_def)
      next
        case (Inr qh)
        obtain hp h where qh: "qh = (hp, h)"
          by fastforce
        show ?thesis
          using assms t \<open>t = Inr old\<close> d2 q \<open>q = Inr tp\<close> l ls s3 Inr qh
          by (intro bound) (auto simp: handle_forward_def Let_def split: prod.splits sum.splits)
      qed
    qed
  qed
qed

lemma forward_commit_small:
  assumes "forward_commit cid port tp f s = (r, s')" and "host_wf s" and "small s" and "fs_host_port f = tp"
    and "\<And>c. hm_get (hs_containers s) cid = Some c \<Longrightarrow> length (con_forwards c) < MAX_FORWARDS_PER_CONTAINER"
  shows "small s'"
proof (cases "hm_get (hs_containers s) cid")
  case None
  then show ?thesis
    using assms by (auto simp: forward_commit_def intro: small_mono)
next
  case (Some c)
  then have "hm_wf (con_forwards c)"
    using assms(2) by (simp add: host_wf_def)
  then have "length (hm_insert port f (con_forwards c)) \<le> MAX_FORWARDS_PER_CONTAINER"
    using assms(5) [OF Some] by (simp add: hm_length_insert)
  moreover have "s' = set_container cid (c\<lparr>con_forwards := hm_insert port f (con_forwards c)\<rparr>) s"
    using assms(1,4) Some by (auto simp: forward_commit_def Let_def)
  ultimately show ?thesis
    using assms(2,3) Some by (auto intro: set_container_small)
qed

lemma host_ok_forward:
  assumes "handle_forward env cid port name pid d = Some (r, d')" and "honest env" and "host_ok (dc_state d)"
  shows "host_ok (dc_state d')"
  using assms(1)
proof (cases rule: handle_forward_cases)
  case (full e)
  then show ?thesis
    using assms(3) by (auto elim: forward_take_old_cases)
next
  case (no_port old s1)
  then show ?thesis
    using assms(3) by (auto elim!: forward_take_old_cases intro: host_ok_take)
next
  case (no_bind old s1 tp)
  have ok: "host_ok s1"
    using no_bind(2) assms(3) by (auto elim!: forward_take_old_cases intro: host_ok_take)
  note res = forward_reserve_ports [OF no_bind(3)]
  have p: "ports_safe (reserve_port tp cid s1) [(cid, tp)]" "ports_exact (reserve_port tp cid s1) [(cid, tp)]"
    using res(1,2) ok by (simp_all add: host_ok_def)
  show ?thesis
    using release_reservation [of cid tp "[(cid, tp)]" "reserve_port tp cid s1"] p ok res(3) no_bind(4)
    by (auto simp: host_ok_small elim: small_mono)
next
  case (bound old s1 tp hp f)
  have ok: "host_ok s1" and none: "fwd s1 cid port = None"
    and room: "\<And>c. hm_get (hs_containers s1) cid = Some c \<Longrightarrow> length (con_forwards c) < MAX_FORWARDS_PER_CONTAINER"
    using bound(1) assms(3) take_forward_spec(2) host_ok_take by (auto elim!: forward_take_old_cases)
  note res = forward_reserve_ports [OF bound(2)]
  have p: "ports_safe (reserve_port tp cid s1) [(cid, tp)]" "ports_exact (reserve_port tp cid s1) [(cid, tp)]"
    and w: "host_wf (reserve_port tp cid s1)" and sm: "small (reserve_port tp cid s1)"
    using res(1-3) ok by (auto simp: host_ok_small elim: small_mono)
  have f: "fs_host_port f = tp"
    using honest_bind [OF assms(2) bound(3)] bound(4) by simp
  have "small (dc_state d')"
    using forward_commit_small [OF bound(5) w sm f] room by simp
  then show ?thesis
    using forward_commit_ports(1-3) [OF _ f bound(5) p(1)] p w none by (simp add: host_ok_small)
qed

subsection \<open>All handlers\<close>

lemma dc_state_client [host_simps, simp]:
  "dc_state (snd (open_url env url d)) = dc_state d"
  "dc_state (snd (client_begin conn_id client d)) = dc_state d"
  "dc_state (snd (client_end copy conn_id trk rx w ended d)) = dc_state d"
  "dc_state (snd (snd (socket_connect env socket_id conn_id conn d))) = dc_state d"
  "dc_state (snd (snd (handle_data_connection env show_error capture others late timed_out stopped sock rd w d))) = dc_state d"
  by (auto simp: open_url_def client_begin_def client_end_def socket_connect_def handle_data_connection_def Let_def
      split: prod.splits sum.splits option.splits message.splits if_splits)

lemma host_ok_unforward:
  "host_ok (dc_state d) \<Longrightarrow> host_ok (dc_state (handle_unforward cid port d))"
  "host_ok (dc_state d) \<Longrightarrow> host_ok (dc_state (handle_unforward_global port d))"
  by (auto simp: handle_unforward_def handle_unforward_global_def unforward_global_take_def
      split: prod.splits option.splits intro: host_ok_take)

lemma host_ok_dispatch:
  assumes "dispatch_container_message env msg cid reg conn d = Some (r, conn', d')" and "honest env" and "host_ok (dc_state d)"
  shows "host_ok (dc_state d')"
proof (cases msg)
  case (Forward port protocol name pid)
  show ?thesis
  proof (cases "owns cid reg (dc_state d)")
    case True
    then obtain q d1 where q: "handle_forward env cid port name pid d = Some (q, d1)"
      using assms(1) Forward by (cases "handle_forward env cid port name pid d") (auto simp: dispatch_container_message_def)
    then have "dc_state d' = dc_state d1"
      using assms(1) Forward True
      by (auto simp: dispatch_container_message_def send_ack_def split: sum.splits prod.splits)
    then show ?thesis
      using host_ok_forward [OF q assms(2,3)] by simp
  qed (use assms Forward in \<open>simp add: dispatch_container_message_def\<close>)
next
  case (Unforward port)
  then show ?thesis
    using assms host_ok_unforward(1)
    by (auto simp: dispatch_container_message_def Let_def split: if_splits)
next
  case (OpenUrl url)
  then have "d' = snd (open_url env url d)"
    using assms(1) by (auto simp: dispatch_container_message_def send_ack_def split: sum.splits prod.splits)
  then show ?thesis
    using assms(3) by simp
next
  case (SocketConnectRequest socket_id conn_id)
  then have "d' = snd (snd (socket_connect env socket_id conn_id conn d))"
    using assms(1) by (auto simp: dispatch_container_message_def split: prod.splits)
  then show ?thesis
    using assms(3) by simp
qed (use assms in \<open>auto simp: dispatch_container_message_def send_ack_def split: if_splits sum.splits prod.splits\<close>)

lemma host_ok_messages:
  "handle_container_messages cid reg req out events missed conn d = Some (r, conn', d') \<Longrightarrow>
   list_all (\<lambda>e. honest (event_env e)) events \<Longrightarrow> host_ok (dc_state d) \<Longrightarrow> host_ok (dc_state d')"
proof (induction cid reg req out events missed conn d rule: handle_container_messages.induct)
  case (2 cid reg req out env evs missed conn d)
  show ?case
  proof (cases "conn_recv (he_from_str env) conn")
    case (Pair m conn1)
    show ?thesis
    proof (cases m)
      case (Inr msg)
      obtain q where q: "dispatch_container_message env msg cid reg conn1 d = Some q"
        using 2(2) Pair Inr by (cases "dispatch_container_message env msg cid reg conn1 d") auto
      obtain b conn2 d1 where b: "q = (b, conn2, d1)"
        by (cases q) auto
      have ok: "host_ok (dc_state d1)"
        using host_ok_dispatch q b 2(3,4) by auto
      show ?thesis
      proof (cases b)
        case (Inl e)
        then show ?thesis
          using 2(2) Pair Inr q b ok by simp
      next
        case (Inr pong)
        show ?thesis
          using 2(1) [OF Pair [symmetric] \<open>m = Inr msg\<close> q b [symmetric] Inr refl] 2(2,3) Pair \<open>m = Inr msg\<close> q b Inr ok by simp
      qed
    qed (use 2 Pair in simp)
  qed
qed (auto simp: Let_def split: list.splits sum.splits prod.splits if_splits)

lemma host_ok_end: "host_ok (dc_state d) \<Longrightarrow> host_ok (dc_state (snd (end_connection b cid reg req out r d)))"
  by (auto simp: end_connection_def cleanup_container_def Let_def split: prod.splits option.splits intro: host_ok_cleanup)

lemma host_ok_serve:
  assumes "serve_container env b cid h events conn d = Some (r, conn', d')"
    and "list_all (\<lambda>e. honest (event_env e)) events" and "host_ok (dc_state d)"
    and "hm_get (hs_containers (dc_state d)) cid = None" and "length (hs_containers (dc_state d)) < MAX_CONTAINERS"
  shows "host_ok (dc_state d')"
proof -
  obtain reg req out d1 where e: "enter_container cid h d = (reg, req, out, d1)"
    by (cases "enter_container cid h d") auto
  then have "dc_state d1 = register_insert cid h reg req out (dc_state d)"
    by (auto simp: enter_container_def Let_def)
  then have 1: "host_ok (dc_state d1)"
    using assms(3-5) host_ok_insert by simp
  let ?conn = "fold (send_socket_forward env) (hm_values (hs_socket_forwards (dc_state d1))) conn"
  obtain q conn2 d2 where m: "handle_container_messages cid reg req out events 0 ?conn d1 = Some (q, conn2, d2)"
    using assms(1) e by (cases "handle_container_messages cid reg req out events 0 ?conn d1")
      (auto simp: serve_container_def)
  then have 2: "host_ok (dc_state d2)"
    using host_ok_messages [OF m assms(2) 1] by simp
  show ?thesis
  proof (cases q)
    case (Running missed)
    then show ?thesis
      using assms(1) e m 2 by (simp add: serve_container_def)
  next
    case (Returned res)
    then have "d' = snd (end_connection b cid reg req out res d2)"
      using assms(1) e m by (auto simp: serve_container_def split: prod.splits)
    then show ?thesis
      using host_ok_end 2 by simp
  qed
qed

lemma host_ok_register:
  assumes "register_container env b cid h tok events conn d = Some (r, conn', d')"
    and "list_all (\<lambda>e. honest (event_env e)) events" and "host_ok (dc_state d)"
  shows "host_ok (dc_state d')"
proof -
  obtain t s1 where t: "register_take cid (dc_state d) = (t, s1)"
    by fastforce
  note ok = host_ok_register_take [OF t assms(3)]
  show ?thesis
  proof (cases t)
    case (Inl u)
    then show ?thesis
      using assms(1,3) t ok(1) by (auto simp: register_container_def reply_and_close_def split: if_splits prod.splits)
  next
    case (Inr old)
    define d2 where "d2 = (case old of Some forwards \<Rightarrow> teardown_many DEFAULT_DRAIN_TIMEOUT forwards (d\<lparr>dc_state := s1\<rparr>)
      | None \<Rightarrow> d\<lparr>dc_state := s1\<rparr>)"
    have d2: "dc_state d2 = s1"
      by (simp add: d2_def split: option.split)
    consider "dc_state d' = dc_state d" | "d' = d2"
      | conn1 where "serve_container env b cid h events conn1 d2 = Some (r, conn', d')"
      using assms(1) t Inr unfolding register_container_def reply_and_close_def Let_def
      by (auto simp: d2_def [symmetric] split: if_splits prod.splits sum.splits)
    then show ?thesis
    proof cases
      case (3 conn1)
      then show ?thesis
        using host_ok_serve [OF 3 assms(2)] ok Inr d2 by simp
    qed (use assms(3) ok(1) d2 in simp_all)
  qed
qed

lemma host_ok_control:
  assumes "handle_control_connection env t b events conn d = Some (r, conn', d')"
    and "list_all (\<lambda>e. honest (event_env e)) events" and "host_ok (dc_state d)"
  shows "host_ok (dc_state d')"
proof (cases "t \<or> isl (fst (conn_recv (he_from_str env) conn))")
  case True
  then show ?thesis
    using assms by (auto simp: handle_control_connection_def split: if_splits prod.splits sum.splits)
next
  case False
  then obtain msg conn1 where m: "conn_recv (he_from_str env) conn = (Inr msg, conn1)"
    by (metis isl_def prod.collapse sum.exhaust)
  show ?thesis
  proof (cases msg)
    case (Register cid h tok)
    then show ?thesis
      using host_ok_register [OF _ assms(2,3)] assms(1) False m by (auto simp: handle_control_connection_def)
  next
    case (Unforward port)
    then show ?thesis
      using host_ok_unforward(2) [OF assms(3)] assms(1) False m by (auto simp: handle_control_connection_def)
  next
    case (OpenUrl url)
    then have "d' = snd (open_url env url d)"
      using assms(1) False m
      by (auto simp: handle_control_connection_def reply_and_close_def split: prod.splits)
    then show ?thesis
      using assms(3) by simp
  qed (use assms(1,3) False m in \<open>auto simp: handle_control_connection_def reply_and_close_def split: prod.splits if_splits\<close>)
qed

lemma host_ok_op: "run_op op d = Some d' \<Longrightarrow> op_honest op \<Longrightarrow> host_ok (dc_state d) \<Longrightarrow> host_ok (dc_state d')"
proof (induction op d rule: run_op.induct)
  case (6 lossy senv scanner d)
  then show ?case
    by (auto simp: scanner_turn_def Let_def host_ok_sockets split: prod.splits if_splits)
next
  case (7 config d)
  then show ?case
    using host_ok_drain [of "dc_state d"]
    by (auto simp: host_stop_def drain_all_forwards_def split: prod.splits)
qed (auto dest: host_ok_control host_ok_messages intro: host_ok_end)

lemma host_ok_ops: "run_ops ops d = Some d' \<Longrightarrow> list_all op_honest ops \<Longrightarrow> host_ok (dc_state d) \<Longrightarrow> host_ok (dc_state d')"
  by (induction ops d rule: run_ops.induct) (auto split: option.splits dest: host_ok_op)

lemma host_ok_start: "host_start docker can_bind signals config = Inr (addr, d) \<Longrightarrow> host_ok (dc_state d)"
  by (auto simp: host_start_def Let_def host_state_new_def host_ok_def host_wf_def ports_safe_def ports_exact_def
      fwd_def MAX_CONTAINERS_def split: if_splits)

text \<open>C7. While handlers run one after the other from the start of the daemon, the table of used host
  ports is exactly the set of host ports of the forwards, each under the container that has
  it, no container id is registered twice, and there are never more than 64 containers or
  more than 128 forwards of one container.\<close>

theorem port_table_exact:
  assumes "host_start docker can_bind signals config = Inr (addr, d0)" and "list_all op_honest ops"
    and "run_ops ops d0 = Some d"
  shows "(\<forall>t cid. hm_get (hs_used_host_ports (dc_state d)) t = Some cid
        \<longleftrightarrow> (\<exists>p f. fwd (dc_state d) cid p = Some f \<and> fs_host_port f = t))
    \<and> distinct (hm_keys (hs_containers (dc_state d)))
    \<and> length (hs_containers (dc_state d)) \<le> 64
    \<and> (\<forall>cid c. hm_get (hs_containers (dc_state d)) cid = Some c \<longrightarrow> length (con_forwards c) \<le> 128)"
proof -
  have ok: "host_ok (dc_state d)"
    using host_ok_ops [OF assms(3,2)] host_ok_start [OF assms(1)] by simp
  then have "ports_safe (dc_state d) []" and "ports_exact (dc_state d) []"
    by (simp_all add: host_ok_def)
  then have "hm_get (hs_used_host_ports (dc_state d)) t = Some cid
      \<longleftrightarrow> (\<exists>p f. fwd (dc_state d) cid p = Some f \<and> fs_host_port f = t)" for t cid
    using ports_safeD(2) unfolding ports_exact_def by fastforce
  then show ?thesis
    using ok by (simp add: host_ok_def host_wf_def hm_wf_def MAX_CONTAINERS_def MAX_FORWARDS_PER_CONTAINER_def)
qed

end
