(* ===== verification/HostProps.thy ===== *)
theory HostProps
  imports HostSeq
begin

section \<open>Behaviour of the handlers\<close>

text \<open>
  What single handlers promise, stated of the functions of theory Host, and a small concrete
  daemon on which the statements are evaluated.
\<close>

subsection \<open>A sample daemon\<close>

definition sample_parse :: json_parser where
  "sample_parse s =
     (if s = ''R'' then Some (Register ''a'' ''h'' ''t'')
      else if s = ''S'' then Some (Register ''b'' ''h'' ''t'')
      else if s = ''F'' then Some (Forward 3000 Tcp None None)
      else if s = ''U'' then Some (Unforward 3000)
      else if s = ''P'' then Some Pong
      else if s = ''pi'' then Some Ping
      else None)"

definition sample_env :: host_env where
  "sample_env = \<lparr>he_bind4 = Some, he_bind6 = Some, he_timestamp = ''0'', he_instant = 0,
     he_run = (\<lambda>_ _. SpawnFails), he_macos = False, he_alnum = (\<lambda>_. False), he_lossy = (\<lambda>b. b),
     he_unix_connect = (\<lambda>_. Inl ''refused''), he_to_string = (\<lambda>m. Some ''m''), he_from_str = sample_parse\<rparr>"

definition sample_config :: host_config where
  "sample_config = host_config_default\<lparr>hc_auth_token := Some ''t''\<rparr>"

definition sample_start :: daemon_context where
  "sample_start = snd (projr (host_start (Some False) (\<lambda>_ _. True) True sample_config))"

definition sample_line :: "char \<Rightarrow> segment" where
  "sample_line c = Seg [c, newline]"

lemma sample_honest: "honest sample_env"
  by (simp add: honest_def sample_env_def)

lemma sample_started: "host_start (Some False) (\<lambda>_ _. True) True sample_config = Inr (Localhost, sample_start)"
  by (simp add: sample_start_def host_start_def sample_config_def host_config_default_def resolve_bind_addr_def
      detect_docker_def)

definition sample_conn :: "string \<Rightarrow> control_connection" where
  "sample_conn cs = control_connection_new (map sample_line cs)"

lemma sample_read:
  assumes "is_ascii c" and "\<not> is_white [c]"
  shows "read_message f \<lparr>br_buf = [], br_net = sample_line c # rest\<rparr>
    = (case f [c] of None \<Rightarrow> Inl Deserialization | Some m \<Rightarrow> Inr m, \<lparr>br_buf = [], br_net = rest\<rparr>)"
proof -
  have "c \<noteq> newline"
    using assms(2) by (auto simp: is_white_ascii)
  moreover have "utf8_ok [c, newline]"
    using assms(1) by (intro utf8_ok_ascii) (simp add: is_ascii_def)
  moreover have "trim_end [c, newline] = [c]"
    using trim_end_newline [of "[c]"] assms by (simp add: utf8_ok_ascii chars_ascii str_chars_def)
  ultimately show ?thesis
    by (simp add: read_message_def read_line.simps fill_buf_def sample_line_def consume_def MAX_MESSAGE_SIZE_def
        split: option.split)
qed

lemma sample_recv:
  assumes "cc_reader conn = \<lparr>br_buf = [], br_net = sample_line c # rest\<rparr>" and "is_ascii c" and "\<not> is_white [c]"
  shows "conn_recv f conn = (case f [c] of None \<Rightarrow> Inl Deserialization | Some m \<Rightarrow> Inr m,
    conn\<lparr>cc_reader := \<lparr>br_buf = [], br_net = rest\<rparr>\<rparr>)"
  using assms by (simp add: conn_recv_def sample_read)

lemma sample_send: "tw_up (cc_writer conn) \<Longrightarrow> send sample_env m conn
   = (Inr (), conn\<lparr>cc_writer := (cc_writer conn)\<lparr>tw_out := tw_out (cc_writer conn) @ [CHR ''m'', newline]\<rparr>\<rparr>)"
  by (simp add: send_def sample_env_def conn_send_def write_message_def write_all_def MAX_MESSAGE_SIZE_def)

text \<open>The sample container registers; then it forwards port 3000.\<close>

definition sample_registered :: daemon_context where
  "sample_registered = snd (snd (snd (enter_container ''a'' ''h'' sample_start)))"

lemma sample_ident: "is_valid_identifier alnum [c]" if "is_ascii_alphanumeric c" "is_ascii c"
  using that by (simp add: is_valid_identifier_def MAX_IDENTIFIER_LENGTH_def str_chars_def ident_char_def)

lemma sample_state: "dc_state sample_start = host_state_new" "dc_auth_token sample_start = Some ''t''"
  by (simp_all add: sample_start_def host_start_def sample_config_def host_config_default_def resolve_bind_addr_def
      detect_docker_def)

lemma sample_state_same: "sample_start\<lparr>dc_state := host_state_new\<rparr> = sample_start"
  by (simp add: sample_state(1) [symmetric])

lemma sample_start_take: "register_take ''a'' host_state_new = (Inr None, host_state_new)"
  by (simp add: register_take_def host_state_new_def MAX_CONTAINERS_def remove_container_def)

lemma sample_register:
  "handle_control_connection sample_env False False events (sample_conn (CHR ''R'' # cs)) sample_start
    = serve_container sample_env False ''a'' ''h'' events
        \<lparr>cc_reader = \<lparr>br_buf = [], br_net = map sample_line cs\<rparr>, cc_writer = \<lparr>tw_out = [CHR ''m'', newline], tw_up = True\<rparr>\<rparr> sample_start"
proof -
  have r: "conn_recv (he_from_str sample_env) (sample_conn (CHR ''R'' # cs))
      = (Inr (Register ''a'' ''h'' ''t''), sample_conn cs)"
    by (simp add: sample_recv [of _ "CHR ''R''" "map sample_line cs"] sample_conn_def control_connection_new_def
        is_ascii_def is_white_ascii sample_env_def sample_parse_def)
  have i: "is_valid_identifier alnum ''a''" "is_valid_identifier alnum ''h''" for alnum
    by (rule sample_ident; simp add: is_ascii_alphanumeric_def is_ascii_def)+
  show ?thesis
    using r i by (simp add: handle_control_connection_def register_container_def sample_state auth_ok_def
        sample_start_take sample_state_same sample_send sample_conn_def control_connection_new_def)
qed

definition sample_forward :: forward_state where
  "sample_forward = \<lparr>fs_host_port = 3000, fs_listener = 2, fs_process_name = None, fs_pid = None, fs_since = ''0'', fs_tracker = 3\<rparr>"

definition sample_container :: "(u16, forward_state) hashmap \<Rightarrow> container_state" where
  "sample_container fs = \<lparr>con_registration_id = 1, con_hostname = ''h'', con_forwards = fs, con_connect_request_tx = 0,
     con_outbound_msg_tx = 1\<rparr>"

lemma sample_registered_state:
  "dc_state sample_registered = \<lparr>hs_containers = [(''a'', sample_container [])], hs_used_host_ports = [], hs_socket_forwards = []\<rparr>"
  "dc_next sample_registered = 2" "dc_effects sample_registered = []"
  "enter_container ''a'' ''h'' sample_start = (1, 0, 1, sample_registered)"
  by (simp_all add: sample_registered_def enter_container_def Let_def sample_state register_insert_def set_container_def
      host_state_new_def sample_container_def sample_start_def host_start_def sample_config_def host_config_default_def
      resolve_bind_addr_def detect_docker_def)

definition sample_forwarded :: daemon_context where
  "sample_forwarded = sample_registered\<lparr>
     dc_state := \<lparr>hs_containers = [(''a'', sample_container [(3000, sample_forward)])], hs_used_host_ports = [(3000, ''a'')],
                  hs_socket_forwards = []\<rparr>,
     dc_trackers := (dc_trackers sample_registered)(3 := tracker_new), dc_next := 4,
     dc_effects := [ListenerStarted 2 3000 3000]\<rparr>"

lemma sample_handle_forward:
  "handle_forward sample_env ''a'' 3000 None None sample_registered = Some (Inr 3000, sample_forwarded)"
proof -
  have "forward_take_old ''a'' 3000 (dc_state sample_registered) = (Inr None, dc_state sample_registered)"
    by (simp add: forward_take_old_def sample_registered_state sample_container_def MAX_FORWARDS_PER_CONTAINER_def
        take_forward_def)
  then show ?thesis
    by (simp add: handle_forward_def forward_reserve_def find_available_port_def find_port_preferred
        sample_registered_state hm_contains_def start_listener_def bind_loopback_def sample_env_def Let_def
        log_effects_def forward_commit_def sample_container_def sample_forwarded_def sample_forward_def
        reserve_port_def set_container_def)
qed

lemma sample_serve:
  "handle_control_connection sample_env False False [LoopRecv sample_env] (sample_conn ''RF'') sample_start
    = Some (Connected 1 0 1 0,
        \<lparr>cc_reader = \<lparr>br_buf = [], br_net = []\<rparr>, cc_writer = \<lparr>tw_out = [CHR ''m'', newline, CHR ''m'', newline], tw_up = True\<rparr>\<rparr>,
        sample_forwarded\<lparr>dc_browser := add_port_mapping 3000 3000 (dc_browser sample_forwarded)\<rparr>)"
proof -
  let ?conn = "\<lparr>cc_reader = \<lparr>br_buf = [], br_net = [sample_line (CHR ''F'')]\<rparr>,
    cc_writer = \<lparr>tw_out = [CHR ''m'', newline], tw_up = True\<rparr>\<rparr>"
  have "conn_recv (he_from_str sample_env) ?conn = (Inr (Forward 3000 Tcp None None), ?conn\<lparr>cc_reader := \<lparr>br_buf = [], br_net = []\<rparr>\<rparr>)"
    by (simp add: sample_recv [of _ "CHR ''F''" "[]"] is_ascii_def is_white_ascii sample_env_def sample_parse_def)
  moreover have "owns ''a'' 1 (dc_state sample_registered)"
    by (simp add: owns_def sample_registered_state sample_container_def)
  ultimately show ?thesis
    by (simp add: sample_register serve_container_def sample_registered_state dispatch_container_message_def
        sample_handle_forward send_ack_def sample_send)
qed

text \<open>The same run as an instance of the invariant on the port table.\<close>

definition sample_ops :: "host_op list" where
  "sample_ops = [Connection sample_env False False [LoopRecv sample_env] (sample_conn ''RF'')]"

lemma sample_run:
  "run_ops sample_ops sample_start
     = Some (sample_forwarded\<lparr>dc_browser := add_port_mapping 3000 3000 (dc_browser sample_forwarded)\<rparr>)"
  by (simp add: sample_ops_def sample_serve)

theorem port_table_exact_witness:
  "hm_get (hs_used_host_ports (dc_state sample_forwarded)) 3000 = Some ''a''
    \<and> (\<exists>p f. fwd (dc_state sample_forwarded) ''a'' p = Some f \<and> fs_host_port f = 3000)"
proof -
  have "list_all op_honest sample_ops"
    by (simp add: sample_ops_def sample_honest)
  from port_table_exact [OF sample_started this sample_run, THEN conjunct1, rule_format, of 3000 "''a''"]
  show ?thesis
    by (simp add: sample_forwarded_def)
qed

subsection \<open>Forwarding\<close>

lemma take_old_state:
  assumes "forward_take_old cid port s = (Inr old, s1)" and "hm_get (hs_containers s) cid \<noteq> None"
  shows "old = fwd s cid port" and "fwd s1 = (fwd s)(cid := (fwd s cid)(port := None))"
    and "hm_get (hs_containers s1) cid \<noteq> None"
    and "hm_get (hs_used_host_ports s1) t = None \<longleftrightarrow>
      hm_get (hs_used_host_ports s) t = None \<or> (\<exists>f. fwd s cid port = Some f \<and> fs_host_port f = t)"
proof -
  have t: "take_forward cid port s = (old, s1)"
    using assms(1) by (auto elim: forward_take_old_cases)
  note sp = take_forward_spec [OF t]
  show "old = fwd s cid port" "fwd s1 = (fwd s)(cid := (fwd s cid)(port := None))"
    by (rule sp)+
  show "hm_get (hs_containers s1) cid \<noteq> None"
    using sp(5) assms(2) by simp
  show "hm_get (hs_used_host_ports s1) t = None \<longleftrightarrow>
      hm_get (hs_used_host_ports s) t = None \<or> (\<exists>f. fwd s cid port = Some f \<and> fs_host_port f = t)"
    using sp(1,3) by (auto split: option.splits)
qed

lemma take_old_full:
  assumes "forward_take_old cid port s = (Inl e, s1)"
  shows "e = TooManyForwards 128 \<and> s1 = s \<and> fwd s cid port = None
    \<and> (\<exists>c. hm_get (hs_containers s) cid = Some c \<and> 128 \<le> length (con_forwards c))"
  using assms by (auto simp: forward_take_old_def fwd_def hm_contains_def MAX_FORWARDS_PER_CONTAINER_def
      split: option.splits if_splits prod.splits)



subsection \<open>Registration\<close>

lemma register_take_gone:
  assumes "register_take cid s = (Inr old, s1)"
  shows "hm_get (hs_containers s1) cid = None"
  using assms by (auto simp: register_take_def split: option.splits if_splits)


lemma sample_register_again:
  "register_container sample_env False ''a'' ''h'' ''t'' [] \<lparr>cc_reader = r, cc_writer = \<lparr>tw_out = [], tw_up = True\<rparr>\<rparr> sample_forwarded
    = serve_container sample_env False ''a'' ''h'' [] \<lparr>cc_reader = r, cc_writer = \<lparr>tw_out = [CHR ''m'', newline], tw_up = True\<rparr>\<rparr>
        (teardown_many DEFAULT_DRAIN_TIMEOUT [(3000, sample_forward)] (sample_forwarded\<lparr>dc_state := host_state_new\<rparr>))"
proof -
  have "is_valid_identifier alnum ''a''" "is_valid_identifier alnum ''h''" for alnum
    by (rule sample_ident; simp add: is_ascii_alphanumeric_def is_ascii_def)+
  moreover have "register_take ''a'' (dc_state sample_forwarded) = (Inr (Some [(3000, sample_forward)]), host_state_new)"
    by (simp add: register_take_def sample_forwarded_def sample_container_def release_ports_def remove_container_def
        release_port_def sample_forward_def host_state_new_def)
  moreover have "auth_ok (dc_auth_token sample_forwarded) ''t''"
    by (simp add: sample_forwarded_def sample_registered_def enter_container_def Let_def sample_state auth_ok_def)
  ultimately show ?thesis
    by (simp add: register_container_def sample_send)
qed


subsection \<open>The token\<close>

lemma global_take_spec:
  assumes "unforward_global_take port s = (old, s')"
  shows "hs_socket_forwards s' = hs_socket_forwards s" and "owns cid reg s' = owns cid reg s"
    and "hm_get (hs_containers s') cid = None \<longleftrightarrow> hm_get (hs_containers s) cid = None"
  using assms take_forward_spec(4-6)
  by (auto simp: unforward_global_take_def split: option.splits)

lemma dc_effect_simps [simp]:
  "dc_shutdown (teardown_one p f d) = dc_shutdown d" "dc_pending (teardown_one p f d) = dc_pending d"
  by (simp_all add: teardown_one_def log_effects_def)

text \<open>C11. The token guards the daemon: a control connection whose first message is not a registration or a
  shutdown with the configured token ends at once, and neither registers or unregisters a
  container, nor stops the daemon, nor touches socket forwards or pending connections; a
  registration with a wrong token changes nothing at all.\<close>

theorem token_gate:
  assumes "handle_control_connection env timed_out b events conn d = Some (res, conn', d')"
    and "conn_recv (he_from_str env) conn = (Inr msg, conn1)"
    and "\<And>cid h tok. msg = Register cid h tok \<Longrightarrow> \<not> auth_ok (dc_auth_token d) tok"
    and "\<And>tok. msg = Shutdown tok \<Longrightarrow> \<not> auth_ok (dc_auth_token d) tok"
  shows "(\<exists>r. res = Closed r) \<and> dc_shutdown d' = dc_shutdown d \<and> dc_pending d' = dc_pending d
    \<and> hs_socket_forwards (dc_state d') = hs_socket_forwards (dc_state d)
    \<and> (\<forall>cid reg. owns cid reg (dc_state d') = owns cid reg (dc_state d))
    \<and> (\<forall>cid h tok. msg = Register cid h tok \<longrightarrow> d' = d)"
proof (cases timed_out)
  case True
  then show ?thesis
    using assms(1) by (auto simp: handle_control_connection_def)
next
  case False
  show ?thesis
  proof (cases msg)
    case (Register cid h tok)
    then have "register_container env b cid h tok events conn1 d = Some (res, conn', d')"
      using assms(1,2) False by (simp add: handle_control_connection_def)
    then show ?thesis
      using assms(3) [OF Register] by (auto simp: register_container_def reply_and_close_def split: if_splits prod.splits)
  next
    case (Unforward port)
    obtain old s1 where t: "unforward_global_take port (dc_state d) = (old, s1)"
      by fastforce
    have "res = Closed (Inr ())" "d' = handle_unforward_global port d"
      using assms(1,2) False Unforward by (simp_all add: handle_control_connection_def)
    then show ?thesis
      using t global_take_spec [OF t] Unforward by (auto simp: handle_unforward_global_def split: option.splits)
  next
    case (OpenUrl url)
    have "dc_shutdown (snd (open_url env url d)) = dc_shutdown d" "dc_pending (snd (open_url env url d)) = dc_pending d"
      by (auto simp: open_url_def split: prod.splits sum.splits)
    moreover have "(\<exists>r. res = Closed r) \<and> d' = snd (open_url env url d)"
      using assms(1,2) False OpenUrl
      by (auto simp: handle_control_connection_def reply_and_close_def split: prod.splits)
    ultimately show ?thesis
      using OpenUrl by simp
  next
    case (Shutdown tok)
    then show ?thesis
      using assms(1,2) assms(4) [OF Shutdown] False by (auto simp: handle_control_connection_def)
  qed (use assms(1,2) False in \<open>auto simp: handle_control_connection_def reply_and_close_def split: prod.splits\<close>)
qed

theorem token_gate_witness:
  "\<exists>r conn'. handle_control_connection sample_env False False [] (sample_conn ''R'')
     (sample_start\<lparr>dc_auth_token := Some ''other''\<rparr>) = Some (Closed r, conn', sample_start\<lparr>dc_auth_token := Some ''other''\<rparr>)"
proof -
  let ?d = "sample_start\<lparr>dc_auth_token := Some ''other''\<rparr>"
  have r: "conn_recv (he_from_str sample_env) (sample_conn ''R'') = (Inr (Register ''a'' ''h'' ''t''), sample_conn [])"
    by (simp add: sample_recv [of _ "CHR ''R''" "[]"] sample_conn_def control_connection_new_def
        is_ascii_def is_white_ascii sample_env_def sample_parse_def)
  have "\<not> auth_ok (dc_auth_token ?d) ''t''"
    by (simp add: auth_ok_def)
  moreover obtain res conn' d' where q: "reply_and_close sample_env (RegisterAck False) (sample_conn []) ?d = (res, conn', d')"
    by (metis prod_cases3)
  moreover have h: "handle_control_connection sample_env False False [] (sample_conn ''R'') ?d = Some (res, conn', d')"
    using r by (simp add: handle_control_connection_def register_container_def auth_ok_def q del: dc_state_effects)
  ultimately show ?thesis
    using token_gate [OF h r] by auto
qed

lemma find_container_fwd:
  assumes "host_wf s" and "fwd s cid port = Some f"
  shows "\<exists>cid' f'. find_container_for_port s port = Some cid' \<and> fwd s cid' port = Some f'"
proof -
  obtain c where c: "hm_get (hs_containers s) cid = Some c" "hm_get (con_forwards c) port = Some f"
    using assms(2) by (auto simp: fwd_def split: option.splits)
  then have "find_container port (hs_containers s) \<noteq> None"
    using hm_get_value [OF c(1)] by (auto simp: find_container_None hm_contains_def intro!: bexI [of _ "(cid, c)"])
  then obtain cid' where f: "find_container port (hs_containers s) = Some cid'"
    by blast
  then obtain c' where "(cid', c') \<in> set (hs_containers s)" "hm_contains (con_forwards c') port"
    using find_container_Some by blast
  then show ?thesis
    using f assms(1) hm_get_iff [of "hs_containers s" cid' c']
    by (auto simp: find_container_for_port_def fwd_def host_wf_def hm_contains_def)
qed

text \<open>The one message that tears a forward down without the token: whoever can reach the control port
  and sends an unforward as the first message of a connection removes some container's
  forward of that port, whatever token is configured, and its listener is shut down.\<close>

theorem unforward_needs_no_token:
  assumes "host_wf (dc_state d)" and "fwd (dc_state d) cid port = Some f"
    and "conn_recv (he_from_str env) conn = (Inr (Unforward port), conn1)"
  shows "\<exists>cid' f' d'. handle_control_connection env False b events conn d = Some (Closed (Inr ()), conn1, d')
    \<and> fwd (dc_state d) cid' port = Some f' \<and> fwd (dc_state d') cid' port = None
    \<and> ShutdownSent (fs_listener f') \<in> set (dc_effects d')"
proof -
  obtain cid' f' where c: "find_container_for_port (dc_state d) port = Some cid'" "fwd (dc_state d) cid' port = Some f'"
    using find_container_fwd [OF assms(1,2)] by blast
  obtain old s1 where t: "take_forward cid' port (dc_state d) = (old, s1)"
    by fastforce
  have "old = Some f'" "fwd s1 cid' port = None"
    using take_forward_spec(1,2) [OF t] c(2) by simp_all
  then show ?thesis
    using assms(3) c t
    by (auto simp: handle_control_connection_def handle_unforward_global_def unforward_global_take_def teardown_one_def
        log_effects_def)
qed

theorem unforward_needs_no_token_witness:
  "\<exists>d'. handle_control_connection sample_env False False [] (sample_conn ''U'') sample_forwarded
      = Some (Closed (Inr ()), sample_conn [], d') \<and> ShutdownSent 2 \<in> set (dc_effects d')"
proof -
  have r: "conn_recv (he_from_str sample_env) (sample_conn ''U'') = (Inr (Unforward 3000), sample_conn [])"
    by (simp add: sample_recv [of _ "CHR ''U''" "[]"] sample_conn_def control_connection_new_def
        is_ascii_def is_white_ascii sample_env_def sample_parse_def)
  have f: "fwd (dc_state sample_forwarded) ''a'' 3000 = Some sample_forward" "host_wf (dc_state sample_forwarded)"
    by (auto simp: sample_forwarded_def fwd_def sample_container_def host_wf_def hm_wf_def)
  have o: "fwd (dc_state sample_forwarded) c 3000 = Some g \<Longrightarrow> g = sample_forward" for c g
    by (auto simp: sample_forwarded_def fwd_def sample_container_def split: if_splits)
  show ?thesis
    using unforward_needs_no_token [OF f(2,1) r, of False "[]"] o by (fastforce simp: sample_forward_def)
qed

end
