(* ===== verification/EndToEnd.thy ===== *)
theory EndToEnd
  imports ContainerRun HostProps
begin

section \<open>The container and the host together\<close>

text \<open>
  The two daemons at the ends of one control connection: the bytes that a session writes are
  those of its messages, and a host that reads these bytes ends with the forwards that the
  session keeps, unless it refused one.
\<close>

subsection \<open>The bytes of a session\<close>

definition sent :: "traffic list \<Rightarrow> message list" where
  "sent ts = List.map_filter (\<lambda>t. case t of Sent m \<Rightarrow> Some m | Got _ \<Rightarrow> None) ts"

lemma sent_simps [simp]: "sent [] = []" "sent (ts @ us) = sent ts @ sent us" "sent [Sent m] = [m]" "sent [Got m] = []"
  "sent (Sent m # ts) = m # sent ts" "sent (Got m # ts) = sent ts"
  by (simp_all add: sent_def List.map_filter_simps map_filter_def)

definition on_wire :: "json_printer \<Rightarrow> bytes \<Rightarrow> session \<Rightarrow> bool" where
  "on_wire to_string w s \<longleftrightarrow> tw_out (cc_writer (sn_conn s)) = w @ framed to_string (sent (sn_traffic s))"

lemma framed_simps [simp]: "framed to_string [] = []" "framed to_string (ms @ ns) = framed to_string ms @ framed to_string ns"
  "framed to_string (m # ms) = the (to_string m) @ newline # framed to_string ms"
  by (simp_all add: framed_def)

lemma conn_send_out: "conn_send to_string m conn = (r, conn1) \<Longrightarrow>
    cc_reader conn1 = cc_reader conn
    \<and> tw_out (cc_writer conn1) = tw_out (cc_writer conn) @ (if r = Inr () then framed to_string [m] else [])"
  by (auto simp: conn_send_def write_message_def write_all_def split: option.splits if_splits)

lemma say_wire: "say env m s = (r, s1) \<Longrightarrow> sv_to_string env = to_string \<Longrightarrow> on_wire to_string w s \<Longrightarrow> on_wire to_string w s1"
  by (auto simp: say_def on_wire_def dest!: conn_send_out split: prod.splits sum.splits)

lemma on_wire_cong: "sn_conn s1 = sn_conn s \<Longrightarrow> sn_traffic s1 = sn_traffic s \<Longrightarrow> on_wire to_string w s1 = on_wire to_string w s"
  by (simp add: on_wire_def)

lemma on_wire_forwarded [simp]: "on_wire to_string w (s\<lparr>sn_forwarded := f\<rparr>) = on_wire to_string w s"
  by (simp add: on_wire_def)

lemma on_wire_dropped [simp]: "on_wire to_string w (dropped turns s) = on_wire to_string w s"
  by (simp add: on_wire_def dropped_def conn_recv_dropped_def)

lemma send_new_wire: "send_new env xs s = (e, s1) \<Longrightarrow> sv_to_string env = to_string \<Longrightarrow> on_wire to_string w s \<Longrightarrow> on_wire to_string w s1"
  by (induction env xs s rule: send_new.induct) (auto dest: say_wire split: if_splits prod.splits sum.splits)

lemma send_removed_wire: "send_removed env ps s = (e, s1) \<Longrightarrow> sv_to_string env = to_string \<Longrightarrow> on_wire to_string w s \<Longrightarrow> on_wire to_string w s1"
  by (induction env ps s rule: send_removed.induct) (auto dest: say_wire split: prod.splits sum.splits)

lemma announce_wire: "announce env lps s = (e, s1) \<Longrightarrow> sv_to_string env = to_string \<Longrightarrow> on_wire to_string w s \<Longrightarrow> on_wire to_string w s1"
  by (auto simp: announce_def Let_def split: prod.splits option.splits dest: send_new_wire send_removed_wire)

lemma host_message_wire:
  assumes "handle_host_message params env msg s = (out, s1)" and "sv_to_string env = to_string" and "on_wire to_string w s"
  shows "on_wire to_string w s1"
proof -
  have "on_wire to_string w (socket_forwarded params env i c s)" "on_wire to_string w (socket_unforwarded env i s)"
    "on_wire to_string w (s\<lparr>sn_handles := hs\<rparr>)" for i c hs
    using assms(3) by (auto simp: on_wire_def socket_forwarded_def socket_unforwarded_def split: prod.splits sum.splits option.splits)
  then show ?thesis
    using assms say_wire [OF _ assms(2,3)]
    by (cases msg) (auto simp: handle_host_message_def split: prod.splits sum.splits if_splits)
qed

fun event_printer :: "session_event \<Rightarrow> json_printer" where
  "event_printer (ScanTick turns env) = sv_to_string env"
| "event_printer (Receive env) = sv_to_string env"
| "event_printer (Relay turns env relay) = sv_to_string env"
| "event_printer (StopSession turns env) = sv_to_string env"

lemma turn_wire:
  assumes "session_turn params ev s = (out, s1)" and "event_printer ev = to_string" and "on_wire to_string w s"
  shows "on_wire to_string w s1"
proof (cases ev)
  case (ScanTick turns env)
  then show ?thesis
    using assms announce_wire [of env _ "dropped turns s"]
    by (auto simp: scan_tick_def split: sum.splits prod.splits option.splits)
next
  case (Receive env)
  obtain r c where c: "conn_recv (sv_from_str env) (sn_conn s) = (r, c)"
    by fastforce
  then have "cc_writer c = cc_writer (sn_conn s)"
    by (auto simp: conn_recv_def split: prod.splits)
  then have "on_wire to_string w (s\<lparr>sn_conn := c\<rparr>)" "on_wire to_string w (s\<lparr>sn_conn := c, sn_traffic := sn_traffic s @ [Got m]\<rparr>)" for m
    using assms(3) by (simp_all add: on_wire_def)
  then show ?thesis
    using assms(1,2) Receive c host_message_wire [of params env _ _ out s1] by (cases r) (auto simp: receive_turn_def)
next
  case (Relay turns env relay)
  obtain r s2 where r: "say env (rm_msg relay) (dropped turns s) = (r, s2)"
    by fastforce
  then have "on_wire to_string w s2"
    using say_wire assms(2,3) Relay by simp
  then show ?thesis
    using assms(1) Relay r by (auto simp: relay_turn_def on_wire_def split: sum.splits option.splits)
next
  case (StopSession turns env)
  have "on_wire to_string w (fold (\<lambda>port s. snd (say env (Unforward port) s)) ports s')" if "on_wire to_string w s'" for ports s'
    using that
  proof (induction ports arbitrary: s')
    case (Cons port ports)
    have "on_wire to_string w (snd (say env (Unforward port) s'))"
      using say_wire [of env "Unforward port" s'] assms(2) StopSession Cons.prems by (cases "say env (Unforward port) s'") simp
    then show ?case
      by (simp add: Cons.IH)
  qed simp
  then show ?thesis
    using assms StopSession by (auto simp: shutdown_turn_def)
qed

interpretation wire: session_fact "\<lambda>ev. event_printer ev = to_string" "on_wire to_string w" for to_string w
  by unfold_locales (rule turn_wire)

subsection \<open>The host that reads them\<close>

lemma owns_present: "owns cid reg s \<Longrightarrow> hm_get (hs_containers s) cid \<noteq> None"
  by (auto simp: owns_def split: option.splits)

lemma owns_commit: "forward_commit cid port tp f s = (r, s') \<Longrightarrow> owns c g s' = owns c g s"
  by (auto simp: forward_commit_def owns_def set_container_def reserve_port_def release_port_def Let_def split: option.splits if_splits)

lemma commit_dom: "forward_commit cid port tp f s = (r, s') \<Longrightarrow> hm_get (hs_containers s) cid \<noteq> None \<Longrightarrow>
    \<exists>hp. r = Inr hp \<and> dom (fwd s' cid) = insert port (dom (fwd s cid))"
  by (auto simp: forward_commit_def Let_def fwd_def set_container_def reserve_port_def release_port_def split: option.splits if_splits)

lemma forward_dom:
  assumes "handle_forward env cid port name pid d = Some (r, d')" and "hm_get (hs_containers (dc_state d)) cid \<noteq> None"
  shows "dom (fwd (dc_state d') cid) = (case r of Inr _ \<Rightarrow> insert port (dom (fwd (dc_state d) cid)) | Inl _ \<Rightarrow> dom (fwd (dc_state d) cid) - {port})
    \<and> owns c g (dc_state d') = owns c g (dc_state d)"
proof -
  have taken: "dom (fwd s1 cid) = dom (fwd (dc_state d) cid) - {port} \<and> hm_get (hs_containers s1) cid \<noteq> None \<and> owns c g s1 = owns c g (dc_state d)"
    if "forward_take_old cid port (dc_state d) = (Inr old, s1)" for old s1
    using take_old_state(2,3) [OF that assms(2)] take_forward_spec(6) [of cid port "dc_state d" old s1] that
    by (auto elim: forward_take_old_cases)
  have res: "owns c g (reserve_port p cid s1) = owns c g s1"
    "owns c g (release_port p s1) = owns c g s1" "hs_containers (reserve_port p cid s1) = hs_containers s1" for p s1
    by (simp_all add: owns_def reserve_port_def release_port_def)
  from assms(1) show ?thesis
  proof (cases rule: handle_forward_cases)
    case (full e)
    then show ?thesis
      using take_old_full [OF full(2)] by auto
  next
    case (no_port old s1)
    then show ?thesis
      using taken by simp
  next
    case (no_bind old s1 tp)
    then show ?thesis
      using taken [OF no_bind(2)] by (simp add: res)
  next
    case (bound old s1 tp hp f)
    show ?thesis
      using taken [OF bound(1)] commit_dom [OF bound(5)] owns_commit [OF bound(5), of c g] by (auto simp: res)
  qed
qed

fun after_one :: "message \<Rightarrow> message list \<Rightarrow> u16 set \<Rightarrow> u16 set" where
  "after_one (Forward port protocol name pid) replies D = (if \<exists>hp. ForwardAck port False hp \<in> set replies then D - {port} else insert port D)"
| "after_one (Unforward port) replies D = D - {port}"
| "after_one m replies D = D"

lemma ack_reply: "send_ack env m b conn d = (Inr b', conn', d') \<Longrightarrow>
    tw_out (cc_writer conn') = tw_out (cc_writer conn) @ framed (he_to_string env) [m] \<and> cc_reader conn' = cc_reader conn \<and> d' = d"
  by (auto simp: send_ack_def send_def dest!: conn_send_out split: prod.splits sum.splits)

lemma socket_reply: "\<exists>replies. tw_out (cc_writer (fst (snd (socket_connect env i cn conn d)))) = tw_out (cc_writer conn) @ framed (he_to_string env) replies
    \<and> cc_reader (fst (snd (socket_connect env i cn conn d))) = cc_reader conn"
proof -
  have "\<exists>replies. tw_out (cc_writer (snd (send env m conn))) = tw_out (cc_writer conn) @ framed (he_to_string env) replies
      \<and> cc_reader (snd (send env m conn)) = cc_reader conn" for m
    using conn_send_out [of "he_to_string env" m conn] unfolding send_def
    by (cases "conn_send (he_to_string env) m conn")
      (rule exI [of _ "if fst (conn_send (he_to_string env) m conn) = Inr () then [m] else []"], simp)
  moreover have "\<exists>replies. tw_out (cc_writer conn) = tw_out (cc_writer conn) @ framed (he_to_string env) replies \<and> cc_reader conn = cc_reader conn"
    by (intro exI [of _ "[]"]) simp
  moreover have "fst (snd (socket_connect env i cn conn d)) = conn \<or> (\<exists>m. fst (snd (socket_connect env i cn conn d)) = snd (send env m conn))"
    by (auto simp: socket_connect_def split: option.split prod.split sum.split)
  ultimately show ?thesis
    by metis
qed

lemma dispatch_one:
  assumes "dispatch_container_message env msg cid reg conn d = Some (Inr b, conn', d')" and "owns cid reg (dc_state d)"
  shows "\<exists>replies. tw_out (cc_writer conn') = tw_out (cc_writer conn) @ framed (he_to_string env) replies
    \<and> cc_reader conn' = cc_reader conn \<and> owns cid reg (dc_state d')
    \<and> dom (fwd (dc_state d') cid) = after_one msg replies (dom (fwd (dc_state d) cid))"
proof -
  have quiet: ?thesis if "conn' = conn" "owns cid reg (dc_state d')" "dom (fwd (dc_state d') cid) = after_one msg [] (dom (fwd (dc_state d) cid))"
    using that by (intro exI [of _ "[]"]) simp
  have acked: ?thesis if "send_ack env m b1 conn d1 = (Inr b, conn', d')" "owns cid reg (dc_state d1)"
    "dom (fwd (dc_state d1) cid) = after_one msg [m] (dom (fwd (dc_state d) cid))" for m b1 d1
    using ack_reply [OF that(1)] that(2,3) by (intro exI [of _ "[m]"]) simp
  show ?thesis
  proof (cases msg)
    case (Forward port protocol name pid)
    obtain r d1 where f: "handle_forward env cid port name pid d = Some (r, d1)"
      using assms Forward by (cases "handle_forward env cid port name pid d") (auto simp: dispatch_container_message_def)
    note dom = forward_dom [OF f owns_present [OF assms(2)], of cid reg]
    show ?thesis
    proof (cases r)
      case (Inl e)
      then have a: "send_ack env (ForwardAck port False 0) False conn d1 = (Inr b, conn', d')"
        using assms Forward f by (simp add: dispatch_container_message_def)
      show ?thesis
        by (rule acked [OF a]) (use dom assms(2) Inl Forward in simp_all)
    next
      case (Inr hp)
      then have a: "send_ack env (ForwardAck port True hp) False conn (d1\<lparr>dc_browser := add_port_mapping port hp (dc_browser d1)\<rparr>) = (Inr b, conn', d')"
        using assms Forward f by (simp add: dispatch_container_message_def)
      show ?thesis
        by (rule acked [OF a]) (use dom assms(2) Inr Forward in simp_all)
    qed
  next
    case (Unforward port)
    obtain old s1 where t: "take_forward cid port (dc_state d) = (old, s1)"
      by fastforce
    have s1: "dc_state (handle_unforward cid port d) = s1"
      using t by (auto simp: handle_unforward_def split: option.splits)
    have "conn' = conn" "dc_state d' = s1"
      using assms Unforward s1 by (auto simp: dispatch_container_message_def Let_def)
    moreover have "dom (fwd s1 cid) = after_one msg [] (dom (fwd (dc_state d) cid))"
      unfolding Unforward using take_forward_spec(2) [OF t] by auto
    ultimately show ?thesis
      using take_forward_spec(6) [OF t, of cid reg] assms(2) by (intro quiet) simp_all
  next
    case (OpenUrl url)
    obtain success d1 where u: "open_url env url d = (success, d1)"
      by fastforce
    have "dc_state d1 = dc_state d"
      using dc_state_client(1) [of env url d] u by simp
    then show ?thesis
      using assms OpenUrl u by (intro acked [of "OpenUrlAck success" False d1]) (simp_all add: dispatch_container_message_def)
  next
    case (SocketConnectRequest i cn)
    have "conn' = fst (snd (socket_connect env i cn conn d))" "d' = snd (snd (socket_connect env i cn conn d))"
      using assms SocketConnectRequest by (auto simp: dispatch_container_message_def split: prod.splits)
    then show ?thesis
      using socket_reply [of env i cn conn d] assms(2) SocketConnectRequest by auto
  next
    case Ping
    then show ?thesis
      using assms by (intro acked [of Pong False d]) (simp_all add: dispatch_container_message_def)
  qed (use assms in \<open>intro quiet; simp add: dispatch_container_message_def split: if_splits; fastforce\<close>)+
qed

lemma after_told: "\<forall>hp q. ForwardAck q False hp \<notin> set replies \<Longrightarrow> after_one m replies D = told_one (Sent m) D"
  by (cases m) auto

lemma host_reads:
  "handle_container_messages cid reg req out (map LoopRecv envs) missed conn d = Some (Running missed1, conn1, d1) \<Longrightarrow>
   length envs = length ms \<Longrightarrow> \<forall>env \<in> set envs. he_from_str env = from_str \<and> he_to_string env = reply_to_string \<Longrightarrow>
   list_all (fits to_string from_str) ms \<Longrightarrow> ahead (cc_reader conn) (framed to_string ms) \<Longrightarrow> owns cid reg (dc_state d) \<Longrightarrow>
   \<exists>replies. tw_out (cc_writer conn1) = tw_out (cc_writer conn) @ framed reply_to_string replies
     \<and> ((\<forall>q hp. ForwardAck q False hp \<notin> set replies) \<longrightarrow> dom (fwd (dc_state d1) cid) = told (dom (fwd (dc_state d) cid)) (map Sent ms))"
proof (induction ms arbitrary: envs missed conn d)
  case Nil
  then show ?case
    by (intro exI [of _ "[]"]) simp
next
  case (Cons m ms)
  obtain env envs' where envs: "envs = env # envs'"
    using Cons.prems(2) by (cases envs) auto
  obtain j where j: "to_string m = Some j" "length j < MAX_MESSAGE_SIZE" and codec: "codec_ok to_string from_str m"
    using Cons.prems(4) fits_json [of to_string from_str m] by (auto simp: fits_def)
  have "ahead (cc_reader conn) (j @ newline # framed to_string ms)"
    using Cons.prems(5) j by simp
  then obtain r where read: "read_message from_str (cc_reader conn) = (Inr m, r)" and a: "ahead r (framed to_string ms)"
    using read_message_fits [OF codec j] by blast
  then have recv: "conn_recv (he_from_str env) conn = (Inr m, conn\<lparr>cc_reader := r\<rparr>)"
    using Cons.prems(3) by (simp add: conn_recv_def envs)
  obtain b conn2 d2 missed2 where one: "dispatch_container_message env m cid reg (conn\<lparr>cc_reader := r\<rparr>) d = Some (Inr b, conn2, d2)"
    and rest: "handle_container_messages cid reg req out (map LoopRecv envs') missed2 conn2 d2 = Some (Running missed1, conn1, d1)"
    using Cons.prems(1) recv by (auto simp: envs split: option.splits prod.splits sum.splits)
  obtain replies1 where r1: "tw_out (cc_writer conn2) = tw_out (cc_writer conn) @ framed (he_to_string env) replies1"
    "cc_reader conn2 = r" "owns cid reg (dc_state d2)"
    "dom (fwd (dc_state d2) cid) = after_one m replies1 (dom (fwd (dc_state d) cid))"
    using dispatch_one [OF one Cons.prems(6)] by auto
  obtain replies2 where r2: "tw_out (cc_writer conn1) = tw_out (cc_writer conn2) @ framed reply_to_string replies2"
    "(\<forall>q hp. ForwardAck q False hp \<notin> set replies2) \<longrightarrow> dom (fwd (dc_state d1) cid) = told (dom (fwd (dc_state d2) cid)) (map Sent ms)"
    using Cons.IH [OF rest] Cons.prems(2,3,4) r1(2,3) a envs by auto
  show ?case
    using r1(1,4) r2 after_told [of replies1 m] Cons.prems(3) envs by (intro exI [of _ "replies1 @ replies2"]) auto
qed

lemma told_unrefused: "\<forall>q hp. Got (ForwardAck q False hp) \<notin> set ts \<Longrightarrow> told P ts = told P (map Sent (sent ts))"
proof (induction ts arbitrary: P)
  case (Cons t ts)
  show ?case
  proof (cases t)
    case (Got m)
    have "told_one (Got m) P = P"
      using Cons.prems Got by (cases m) auto
    then show ?thesis
      using Cons Got by simp
  qed (use Cons in simp)
qed simp

text \<open>C1. The container and the host agree: take a session that has exchanged any messages in any order and was not
  refused a port, and a host on which its container has just registered. When the host has
  read the bytes that the session wrote, cut into reads in any way, either it holds exactly the forwards that the
  session keeps, or a refusal is among the replies that it wrote.\<close>

theorem host_follows_session:
  assumes "session_loop params events (session_start [] fs conn) = (None, s)"
    and "\<forall>ev \<in> set events. relays_ok ev \<and> event_printer ev = to_string"
    and "\<forall>q hp. Got (ForwardAck q False hp) \<notin> set (sn_traffic s)"
    and "tw_out (cc_writer conn) = []"
    and "list_all (fits to_string from_str) (sent (sn_traffic s))"
    and "ahead (cc_reader hconn) (tw_out (cc_writer (sn_conn s)))"
    and "owns cid reg (dc_state d)" and "fwd (dc_state d) cid = Map.empty"
    and "length envs = length (sent (sn_traffic s))"
    and "\<forall>env \<in> set envs. he_from_str env = from_str \<and> he_to_string env = reply_to_string"
    and "handle_container_messages cid reg req out (map LoopRecv envs) missed hconn d = Some (Running missed1, hconn1, d1)"
  shows "\<exists>replies. tw_out (cc_writer hconn1) = tw_out (cc_writer hconn) @ framed reply_to_string replies
    \<and> (dom (fwd (dc_state d1) cid) = set (hm_keys (sn_forwarded s)) \<or> (\<exists>q hp. ForwardAck q False hp \<in> set replies))"
proof -
  have "in_step {} (session_start [] fs conn)"
    by (simp add: in_step_def session_start_def)
  then have keys: "set (hm_keys (sn_forwarded s)) = told {} (sn_traffic s)"
    using table.loop_keeps [OF assms(1) _ _] assms(2) by (auto simp: in_step_def)
  have "on_wire to_string [] (session_start [] fs conn)"
    using assms(4) by (simp add: on_wire_def session_start_def)
  then have "on_wire to_string [] s"
    using wire.loop_keeps [OF assms(1), of to_string "[]"] assms(2) by simp
  then have out: "tw_out (cc_writer (sn_conn s)) = framed to_string (sent (sn_traffic s))"
    by (simp add: on_wire_def)
  show ?thesis
    using host_reads [OF assms(11,9,10,5) _ assms(7)] assms(6,8) keys told_unrefused [OF assms(3), of "{}"] unfolding out by auto
qed

text \<open>The sample session, which found one port, and the sample daemon with its container registered.\<close>

definition sample_reading :: host_env where
  "sample_reading = sample_env\<lparr>he_from_str := (\<lambda>_. Some (forward_message 8080 sample_listening))\<rparr>"

definition sample_arrived :: control_connection where
  "sample_arrived = control_connection_new [Seg (''{}'' @ [newline])]"

lemma sample_follow: "\<exists>missed hconn d. handle_container_messages ''a'' 1 0 1 (map LoopRecv [sample_reading]) 0 sample_arrived sample_registered
    = Some (Running missed, hconn, d)"
proof -
  have line: "read_line \<lparr>br_buf = [], br_net = [Seg (''{}'' @ [newline])]\<rparr> [] = (Inr (''{}'' @ [newline]), \<lparr>br_buf = [], br_net = []\<rparr>)"
    by (subst read_line.simps) (simp add: fill_buf_def consume_def utf8_ok_ascii is_ascii_def)
  have recv: "\<exists>c. conn_recv (he_from_str sample_reading) sample_arrived = (Inr (forward_message 8080 sample_listening), c) \<and> tw_up (cc_writer c)"
    unfolding conn_recv_def sample_arrived_def control_connection_new_def control_connection.simps read_message_def line sample_reading_def
    by (simp add: MAX_MESSAGE_SIZE_def)
  have "forward_take_old ''a'' 8080 (dc_state sample_registered) = (Inr None, dc_state sample_registered)"
    by (simp add: forward_take_old_def sample_registered_state sample_container_def MAX_FORWARDS_PER_CONTAINER_def take_forward_def)
  then have forward: "\<exists>d. handle_forward sample_reading ''a'' 8080 name pid sample_registered = Some (Inr 8080, d)" for name pid
    by (simp add: handle_forward_def forward_reserve_def find_available_port_def find_port_preferred
        sample_registered_state hm_contains_def start_listener_def bind_loopback_def sample_env_def sample_reading_def Let_def
        log_effects_def forward_commit_def sample_container_def reserve_port_def set_container_def)
  have own: "owns ''a'' 1 (dc_state sample_registered)"
    by (simp add: owns_def sample_registered_state sample_container_def)
  obtain c where c: "conn_recv (he_from_str sample_reading) sample_arrived = (Inr (forward_message 8080 sample_listening), c)" "tw_up (cc_writer c)"
    using recv by blast
  obtain d1 where d1: "handle_forward sample_reading ''a'' 8080 (lp_process_name sample_listening) (lp_pid sample_listening) sample_registered
      = Some (Inr 8080, d1)"
    using forward by blast
  obtain c' where "send sample_reading (ForwardAck 8080 True 8080) c = (Inr (), c')"
    using c(2) by (simp add: send_def sample_reading_def sample_env_def conn_send_def write_message_def write_all_def MAX_MESSAGE_SIZE_def)
  then show ?thesis
    using own c(1) d1 by (simp add: dispatch_container_message_def forward_message_def send_ack_def)
qed

theorem host_follows_session_witness:
  "\<exists>missed hconn1 d1 replies. handle_container_messages ''a'' 1 0 1 (map LoopRecv [sample_reading]) 0 sample_arrived sample_registered
       = Some (Running missed, hconn1, d1)
     \<and> tw_out (cc_writer hconn1) = tw_out (cc_writer sample_arrived) @ framed (he_to_string sample_env) replies
     \<and> (dom (fwd (dc_state d1) ''a'') = set (hm_keys (sn_forwarded sample_scanned)) \<or> (\<exists>q hp. ForwardAck q False hp \<in> set replies))"
proof -
  let ?from = "\<lambda>_ :: string. Some (forward_message 8080 sample_listening)" and ?to = "\<lambda>_ :: message. Some ''{}''"
  have "dropped 0 sample_session = sample_session"
    by (simp add: dropped_def conn_recv_dropped_def sample_session_def session_start_def control_connection_new_def)
  then have run: "session_loop sample_params [ScanTick 0 sample_session_env] (session_start [] sample_fs (control_connection_new []))
      = (None, sample_scanned)"
    using sample_tick by (simp add: sample_session_def)
  obtain missed hconn d where host: "handle_container_messages ''a'' 1 0 1 (map LoopRecv [sample_reading]) 0 sample_arrived sample_registered
      = Some (Running missed, hconn, d)"
    using sample_follow by blast
  have s: "\<forall>c \<in> set ''{}''. is_ascii c"
    by (simp add: is_ascii_def)
  have f: "fits ?to ?from (forward_message 8080 sample_listening)"
    using s [THEN utf8_ok_ascii] s [THEN chars_ascii]
    by (simp add: fits_def codec_ok_def MAX_MESSAGE_SIZE_def str_chars_def is_white_ascii)
  have traffic: "sn_traffic sample_scanned = [Sent (forward_message 8080 sample_listening)]"
    and out: "tw_out (cc_writer (sn_conn sample_scanned)) = [CHR ''{'', CHR ''}'', newline]"
    by (simp_all add: sample_scanned_def)
  have "clean (cc_reader sample_arrived)" "stream (cc_reader sample_arrived) = [CHR ''{'', CHR ''}'', newline]"
    by (simp_all add: sample_arrived_def control_connection_new_def clean_def stream_def)
  then have a: "ahead (cc_reader sample_arrived) (tw_out (cc_writer (sn_conn sample_scanned)))"
    unfolding ahead_def out by (intro conjI aligned_ascii) (simp_all add: is_ascii_def)
  have own: "owns ''a'' 1 (dc_state sample_registered)" and empty: "fwd (dc_state sample_registered) ''a'' = Map.empty"
    by (simp_all add: owns_def fwd_def sample_registered_state sample_container_def fun_eq_iff)
  have "\<exists>replies. tw_out (cc_writer hconn) = tw_out (cc_writer sample_arrived) @ framed (he_to_string sample_env) replies
     \<and> (dom (fwd (dc_state d) ''a'') = set (hm_keys (sn_forwarded sample_scanned)) \<or> (\<exists>q hp. ForwardAck q False hp \<in> set replies))"
    by (rule host_follows_session [OF run, of ?to ?from, OF _ _ _ _ a own empty _ _ host])
      (use f traffic in \<open>simp_all add: sample_session_env_def control_connection_new_def forward_message_def sample_reading_def\<close>)
  with host show ?thesis
    by blast
qed

end
