(* ===== verification/HostRelay.thy ===== *)
theory HostRelay
  imports HostProps
begin

section \<open>Clients, heartbeats, data connections and socket broadcasts of the daemon\<close>

text \<open>
  Properties of the message loop, of the routing of clients to containers, of the data
  connections and of the socket scanner task.
\<close>

subsection \<open>Clients\<close>

lemma listener_loop_port: "c \<in> set (listener_loop port room evs) \<Longrightarrow> clc_container_port c = port"
  by (induction port room evs rule: listener_loop.induct)
    (auto split: listener_event.splits option.splits nat.splits bool.splits if_splits)

lemma client_begin_container:
  "client_begin conn_id client d = (Some (cid, trk, rx), d') \<Longrightarrow>
   find_container_for_port (dc_state d) (clc_container_port client) = Some cid"
  by (auto simp: client_begin_def Let_def split: option.splits prod.splits if_splits)

text \<open>C40. A listener hands over the container port only, not its container: when two containers forward the
  same port, there is one of the two whose every client, accepted on its own host port, is
  never bridged to it; if it is bridged at all, it is to another container.\<close>

theorem clients_misrouted:
  assumes "fwd (dc_state d) cid port = Some f" and "fwd (dc_state d) cid' port = Some f'" and "cid \<noteq> cid'"
  shows "\<exists>victim \<in> {cid, cid'}. \<forall>room evs. \<forall>c \<in> set (listener_loop port room evs).
     \<forall>conn_id w trk rx d'. client_begin conn_id c d = (Some (w, trk, rx), d') \<longrightarrow> w \<noteq> victim"
proof -
  obtain victim where v: "victim \<in> {cid, cid'}" "find_container_for_port (dc_state d) port \<noteq> Some victim"
    using assms(3) by (cases "find_container_for_port (dc_state d) port = Some cid") auto
  have "w \<noteq> victim" if "c \<in> set (listener_loop port room evs)" "client_begin conn_id c d = (Some (w, trk, rx), d')"
    for room evs c conn_id w trk rx d'
    using client_begin_container [OF that(2)] listener_loop_port [OF that(1)] v(2) by auto
  with v(1) show ?thesis
    by blast
qed

text \<open>The sample daemon with a second container that forwards port 3000, on host port 3001.\<close>

definition sample_two :: daemon_context where
  "sample_two = sample_forwarded\<lparr>
     dc_state := \<lparr>hs_containers = [(''a'', sample_container [(3000, sample_forward)]),
         (''b'', (sample_container [(3000, sample_forward\<lparr>fs_host_port := 3001, fs_listener := 9, fs_tracker := 10\<rparr>)])\<lparr>con_registration_id := 2\<rparr>)],
       hs_used_host_ports = [(3000, ''a''), (3001, ''b'')], hs_socket_forwards = []\<rparr>\<rparr>"

theorem clients_misrouted_witness:
  "(\<exists>d'. client_begin ''c'' \<lparr>clc_stream = 7, clc_container_port = 3000\<rparr> sample_two = (Some (''a'', 3, 0), d'))
    \<and> (\<exists>victim \<in> {''a'', ''b''}. \<forall>c \<in> set (listener_loop 3000 None [Accepted 7]).
        \<forall>conn_id w trk rx d'. client_begin conn_id c sample_two = (Some (w, trk, rx), d') \<longrightarrow> w \<noteq> victim)"
proof
  have f: "fwd (dc_state sample_two) ''a'' 3000 = Some sample_forward"
    "fwd (dc_state sample_two) ''b'' 3000 = Some (sample_forward\<lparr>fs_host_port := 3001, fs_listener := 9, fs_tracker := 10\<rparr>)"
    by (simp_all add: sample_two_def fwd_def sample_container_def)
  show "\<exists>victim \<in> {''a'', ''b''}. \<forall>c \<in> set (listener_loop 3000 None [Accepted 7]).
        \<forall>conn_id w trk rx d'. client_begin conn_id c sample_two = (Some (w, trk, rx), d') \<longrightarrow> w \<noteq> victim"
    using clients_misrouted [OF f] by blast
  have "dc_pending sample_two = new_pending_connections" "mq_open (dc_requests sample_two 0)"
    by (simp_all add: sample_two_def sample_forwarded_def sample_registered_def enter_container_def Let_def sample_start_def
        host_start_def sample_config_def host_config_default_def resolve_bind_addr_def detect_docker_def)
  then show "\<exists>d'. client_begin ''c'' \<lparr>clc_stream = 7, clc_container_port = 3000\<rparr> sample_two = (Some (''a'', 3, 0), d')"
    by (simp add: client_begin_def find_container_for_port_def sample_two_def sample_container_def hm_contains_def
        sample_forward_def update_tracker_def register_pending_def new_pending_connections_def MAX_PENDING_def Let_def
        insert_sender_def)
qed

subsection \<open>Heartbeats and dropped reads\<close>

text \<open>A peer that sends no pong: no message that the loop receives parses to one.\<close>

definition never_pong :: "loop_event \<Rightarrow> bool" where
  "never_pong ev \<longleftrightarrow> (case ev of LoopRecv env \<Rightarrow> \<forall>s. he_from_str env s \<noteq> Some Pong | _ \<Rightarrow> True)"

definition is_tick :: "loop_event \<Rightarrow> bool" where
  "is_tick ev \<longleftrightarrow> (case ev of LoopTick _ _ \<Rightarrow> True | _ \<Rightarrow> False)"

lemma recv_from_str: "conn_recv from_str conn = (Inr m, conn') \<Longrightarrow> \<exists>s. from_str s = Some m"
  by (auto simp: conn_recv_def read_message_def split: prod.splits sum.splits if_splits option.splits)

lemma dispatch_pong:
  "dispatch_container_message env msg cid reg conn d = Some (Inr True, conn', d') \<Longrightarrow> msg = Pong"
  by (cases msg) (auto simp: dispatch_container_message_def send_ack_def Let_def
      split: if_splits prod.splits sum.splits option.splits)

lemma silent_peer:
  "handle_container_messages cid reg req out events missed conn d = Some (Running m, conn', d') \<Longrightarrow>
   list_all never_pong events \<Longrightarrow> unat missed \<le> 3 \<Longrightarrow> unat missed + length (filter is_tick events) \<le> 3"
proof (induction cid reg req out events missed conn d rule: handle_container_messages.induct)
  case (2 cid reg req out env evs missed conn d)
  obtain r conn1 where r: "conn_recv (he_from_str env) conn = (r, conn1)"
    by fastforce
  then obtain msg where msg: "r = Inr msg"
    using 2(2) by (cases r) auto
  obtain q where q: "dispatch_container_message env msg cid reg conn1 d = Some q"
    using 2(2) r msg by (cases "dispatch_container_message env msg cid reg conn1 d") auto
  obtain b conn2 d1 where b: "q = (b, conn2, d1)"
    by (cases q) auto
  then obtain pong where pong: "b = Inr pong"
    using 2(2) r msg q by (cases b) auto
  obtain s where "he_from_str env s = Some msg"
    using recv_from_str [OF r [unfolded msg]] by blast
  then have "msg \<noteq> Pong"
    using 2(3) by (auto simp: never_pong_def)
  then have "\<not> pong"
    using dispatch_pong [of env msg cid reg conn1 d conn2 d1] q b \<open>b = Inr pong\<close> by auto
  then show ?case
    using 2(1) [OF r [symmetric] msg q b [symmetric] pong refl] 2(2-4) r msg q b pong
    by (simp add: is_tick_def)
next
  case (5 cid reg req out turns env evs missed conn d)
  have le: "\<not> missed + 1 > 3"
    using 5(2) by (auto simp: Let_def MAX_MISSED_PONGS_def split: if_splits)
  then have "unat (missed + 1) = Suc (unat missed)" "unat missed < 3"
    using 5(4) by (auto simp: word_less_nat_alt unat_word_ariths)
  then show ?case
    using 5 le by (auto simp: Let_def MAX_MISSED_PONGS_def is_tick_def split: prod.splits sum.splits)
qed (auto simp: Let_def is_tick_def never_pong_def split: list.splits sum.splits prod.splits)



text \<open>Reading is not cancel safe: when a tick of the heartbeat wins a turn in which the reader has
  taken in the first part of a message, that part is lost; the loop goes on exactly as if
  the peer had never sent it, and reads the rest of the line as a message of its own.\<close>

theorem dropped_read_loses_bytes:
  assumes "cc_reader conn = \<lparr>br_buf = [], br_net = Seg a # rest\<rparr>" and "a \<noteq> []" and "newline \<notin> set a" and "utf8_ok a"
  shows "handle_container_messages cid reg req out (LoopTick 1 env # evs) missed conn d
    = handle_container_messages cid reg req out (LoopTick 0 env # evs) missed
        (conn\<lparr>cc_reader := \<lparr>br_buf = [], br_net = rest\<rparr>\<rparr>) d"
proof -
  have "read_dropped 1 0 (cc_reader conn) = \<lparr>br_buf = [], br_net = rest\<rparr>"
    using assms by (simp add: fill_buf_def consume_def)
  then have "conn_recv_dropped 1 conn = conn_recv_dropped 0 (conn\<lparr>cc_reader := \<lparr>br_buf = [], br_net = rest\<rparr>\<rparr>)"
    by (simp add: conn_recv_dropped_def)
  then show ?thesis
    by (simp only: handle_container_messages.simps)
qed

theorem dropped_read_loses_bytes_witness:
  "\<exists>conn' d'. handle_container_messages ''a'' 1 0 1 [LoopTick 1 sample_env, LoopRecv sample_env] 0
      \<lparr>cc_reader = \<lparr>br_buf = [], br_net = [Seg ''p'', sample_line (CHR ''i'')]\<rparr>, cc_writer = \<lparr>tw_out = [], tw_up = True\<rparr>\<rparr> sample_forwarded
      = Some (Returned (Inl Deserialization), conn', d')"
proof -
  let ?conn = "\<lparr>cc_reader = \<lparr>br_buf = [], br_net = [Seg ''p'', sample_line (CHR ''i'')]\<rparr>, cc_writer = \<lparr>tw_out = [], tw_up = True\<rparr>\<rparr>"
  have "utf8_ok ''p''"
    by (rule utf8_ok_ascii) (simp add: is_ascii_def)
  then have eq: "handle_container_messages ''a'' 1 0 1 [LoopTick 1 sample_env, LoopRecv sample_env] 0 ?conn sample_forwarded
      = handle_container_messages ''a'' 1 0 1 [LoopTick 0 sample_env, LoopRecv sample_env] 0
          (?conn\<lparr>cc_reader := \<lparr>br_buf = [], br_net = [sample_line (CHR ''i'')]\<rparr>\<rparr>) sample_forwarded"
    by (intro dropped_read_loses_bytes) simp_all
  have "\<exists>conn' d'. handle_container_messages ''a'' 1 0 1 [LoopTick 0 sample_env, LoopRecv sample_env] 0
          (?conn\<lparr>cc_reader := \<lparr>br_buf = [], br_net = [sample_line (CHR ''i'')]\<rparr>\<rparr>) sample_forwarded
      = Some (Returned (Inl Deserialization), conn', d')"
    by (simp add: Let_def conn_recv_dropped_def sample_send MAX_MISSED_PONGS_def sample_recv [of _ "CHR ''i''" "[]"]
        is_ascii_def is_white_ascii) (simp add: sample_env_def sample_parse_def)
  then show ?thesis
    unfolding eq .
qed

subsection \<open>Data connections\<close>

lemma data_handshake:
  assumes "ascii_codec to_string (he_from_str env) (ConnectReady conn_id)" and "length conn_id \<le> 128"
    and "clean r" and "stream r = the (to_string (ConnectReady conn_id)) @ newline # payload"
    and "hm_get (pc_map (dc_pending d)) conn_id = Some ch" and "os_rx (pc_chan (dc_pending d) ch)"
  obtains r' d' where "read_message (he_from_str env) r = (Inr (ConnectReady conn_id), r')" and "stream r' = payload"
    and "handle_data_connection env show_error capture others late False stopped sock r w d = (Inr (), w, d')"
    and "poll_receiver ch (dc_pending d') = Some (Delivered \<lparr>ds_stream = sock, ds_buffered = br_buf r'\<rparr>)"
proof -
  obtain r' where r': "read_message (he_from_str env) r = (Inr (ConnectReady conn_id), r')" "stream r' = payload"
    using read_message_ascii [OF assms(1,3,4)] by blast
  let ?ds = "\<lparr>ds_stream = sock, ds_buffered = br_buf r'\<rparr>"
  obtain k ok p1 where p: "resolve_pending_with_grace others late (he_instant env) conn_id ?ds (dc_pending d) = (k, ok, p1)"
    by (metis prod_cases3)
  then have "poll_receiver ch p1 = Some (Delivered ?ds)"
    using assms(5,6) by (simp add: resolve_pending_with_grace_def grace_loop.simps take_sender_def oneshot_send_def
        poll_receiver_def split: if_splits) (auto simp: poll_receiver_def)
  moreover have "handle_data_connection env show_error capture others late False stopped sock r w d = (Inr (), w, d\<lparr>dc_pending := p1\<rparr>)"
    using r'(1) p assms(2) by (simp add: handle_data_connection_def MAX_CONN_ID_LENGTH_def)
  ultimately show ?thesis
    by (intro that [OF r', of "d\<lparr>dc_pending := p1\<rparr>"]) simp_all
qed

lemma client_end_delivered:
  assumes "copy sock = Inr (up, down)" and "tw_up client"
  shows "tw_out (fst (client_end copy conn_id trk rx client (Some (Delivered \<lparr>ds_stream = sock, ds_buffered = b\<rparr>)) d)) = tw_out client @ b @ down"
    and "fst (bridge_connection copy conn_id client (Delivered \<lparr>ds_stream = sock, ds_buffered = b\<rparr>) p) = Inr (length up, length b + length down)"
  using assms by (simp_all add: client_end_def bridge_connection_def write_all_def Let_def)

text \<open>No byte of a data connection is lost in the handshake: when the message that names a waiting
  connection is read, the waiting client gets the stream together with what was read beyond
  the message; that and the bytes still on the socket are exactly the bytes sent after the
  message, whatever they are and however the network cuts them, and the client is written the
  former before anything copied later.\<close>

theorem data_handshake_keeps_bytes:
  assumes "ascii_codec to_string (he_from_str env) (ConnectReady conn_id)" and "length conn_id \<le> 128"
    and "clean r" and "stream r = the (to_string (ConnectReady conn_id)) @ newline # payload"
    and "hm_get (pc_map (dc_pending d)) conn_id = Some ch" and "os_rx (pc_chan (dc_pending d) ch)"
    and "copy sock = Inr (up, down)" and "tw_up client"
  shows "\<exists>r' ds d'. handle_data_connection env show_error capture others late False stopped sock r w d = (Inr (), w, d')
    \<and> read_message (he_from_str env) r = (Inr (ConnectReady conn_id), r') \<and> stream r' = payload
    \<and> ds = \<lparr>ds_stream = sock, ds_buffered = br_buf r'\<rparr> \<and> poll_receiver ch (dc_pending d') = Some (Delivered ds)
    \<and> tw_out (fst (client_end copy conn_id trk ch client (Some (Delivered ds)) d')) = tw_out client @ br_buf r' @ down"
proof -
  obtain r' d' where "read_message (he_from_str env) r = (Inr (ConnectReady conn_id), r')" "stream r' = payload"
    "handle_data_connection env show_error capture others late False stopped sock r w d = (Inr (), w, d')"
    "poll_receiver ch (dc_pending d') = Some (Delivered \<lparr>ds_stream = sock, ds_buffered = br_buf r'\<rparr>)"
    using data_handshake [OF assms(1-6)] by blast
  then show ?thesis
    using client_end_delivered(1) [where copy = copy and sock = sock, OF assms(7,8)] by auto
qed

definition ready_env :: host_env where
  "ready_env = sample_env\<lparr>he_from_str := (\<lambda>s. if s = ''C'' then Some (ConnectReady ''c'') else None)\<rparr>"

theorem data_handshake_keeps_bytes_witness:
  "\<exists>r' ds d'. handle_data_connection ready_env (\<lambda>_. []) (\<lambda>_. Inr []) (\<lambda>_ p. p) (\<lambda>_. 0) False None 7
      \<lparr>br_buf = [], br_net = [Seg (''C'' @ newline # ''hello'')]\<rparr> \<lparr>tw_out = [], tw_up = True\<rparr>
      (sample_forwarded\<lparr>dc_pending := snd (register_pending ''c'' new_pending_connections)\<rparr>) = (Inr (), \<lparr>tw_out = [], tw_up = True\<rparr>, d')
    \<and> stream r' = ''hello'' \<and> ds = \<lparr>ds_stream = 7, ds_buffered = br_buf r'\<rparr> \<and> poll_receiver 0 (dc_pending d') = Some (Delivered ds)"
proof -
  let ?r = "\<lparr>br_buf = [], br_net = [Seg (''C'' @ newline # ''hello'')]\<rparr>"
  let ?p = "snd (register_pending ''c'' new_pending_connections)"
  let ?d = "sample_forwarded\<lparr>dc_pending := ?p\<rparr>"
  have p: "hm_get (pc_map ?p) ''c'' = Some 0" "os_rx (pc_chan ?p 0)"
    by (simp_all add: register_pending_def new_pending_connections_def MAX_PENDING_def Let_def insert_sender_def
        oneshot_new_def drop_senders_def)
  have a: "clean ?r" "stream ?r = the (Some ''C'') @ newline # ''hello''"
    by (simp_all add: clean_def stream_def)
  have c: "ascii_codec (\<lambda>m. Some ''C'') (he_from_str ready_env) (ConnectReady ''c'')"
    by (simp add: ascii_codec_def fits_def MAX_MESSAGE_SIZE_def codec_ok_def ready_env_def utf8_ok_ascii is_ascii_def str_chars_def chars_ascii is_white_ascii)
  have "\<exists>r' ds d'. handle_data_connection ready_env (\<lambda>_. []) (\<lambda>_. Inr []) (\<lambda>_ p. p) (\<lambda>_. 0) False None 7 ?r \<lparr>tw_out = [], tw_up = True\<rparr> ?d
      = (Inr (), \<lparr>tw_out = [], tw_up = True\<rparr>, d')
    \<and> read_message (he_from_str ready_env) ?r = (Inr (ConnectReady ''c''), r') \<and> stream r' = ''hello''
    \<and> ds = \<lparr>ds_stream = 7, ds_buffered = br_buf r'\<rparr> \<and> poll_receiver 0 (dc_pending d') = Some (Delivered ds)
    \<and> tw_out (fst (client_end (\<lambda>_. Inr ([], [])) ''c'' 3 0 \<lparr>tw_out = [], tw_up = True\<rparr> (Some (Delivered ds)) d'))
        = tw_out \<lparr>tw_out = [], tw_up = True\<rparr> @ br_buf r' @ []"
    using p by (intro data_handshake_keeps_bytes [OF c _ a]) simp_all
  then show ?thesis
    by blast
qed

subsection \<open>The list of forwards and the start\<close>

definition infos_of :: "(string \<times> container_state) list \<Rightarrow> forward_info list" where
  "infos_of cs = concat (map (\<lambda>(cid, c). map (forward_info_of cid c) (con_forwards c)) cs)"

lemma infos_of_container: "i \<in> set (infos_of cs) \<Longrightarrow> fi_container_id i \<in> fst ` set cs"
  by (force simp: infos_of_def forward_info_of_def)

lemma forward_info_keys:
  "hm_wf cs \<Longrightarrow> (\<And>cid c. (cid, c) \<in> set cs \<Longrightarrow> hm_wf (con_forwards c)) \<Longrightarrow>
   distinct (map (\<lambda>i. (fi_container_id i, fi_port i)) (infos_of cs))"
proof (induction cs)
  case Nil
  show ?case
    by (simp add: infos_of_def)
next
  case (Cons x cs)
  obtain cid c where x: "x = (cid, c)"
    by fastforce
  let ?g = "\<lambda>i. (fi_container_id i, fi_port i)"
  have 1: "map ?g (infos_of (x # cs)) = map (Pair cid) (hm_keys (con_forwards c)) @ map ?g (infos_of cs)"
    by (simp add: infos_of_def x forward_info_of_def)
  have "distinct (map (Pair cid) (hm_keys (con_forwards c)))"
    using Cons.prems(2) [of cid c] x by (simp add: hm_wf_def distinct_map inj_on_def)
  moreover have "distinct (map ?g (infos_of cs))"
    using Cons.prems by (intro Cons.IH) (auto simp: x hm_wf_Cons)
  moreover have "cid \<notin> fst ` set cs"
    using Cons.prems(1) by (simp add: x hm_wf_Cons)
  then have "set (map (Pair cid) (hm_keys (con_forwards c))) \<inter> set (map ?g (infos_of cs)) = {}"
    using infos_of_container [of _ cs] by auto
  ultimately show ?case
    unfolding 1 distinct_append by blast
qed

text \<open>The status query is complete and correct: the entries it lists are exactly the forwards of the
  registered containers, with container id, host name, container port and host port as they
  are in the state, and no forward is listed twice.\<close>

theorem list_is_exact:
  assumes "host_wf s"
  shows "(\<forall>i. i \<in> set (collect_forward_info s) \<longleftrightarrow>
      (\<exists>cid c p f. hm_get (hs_containers s) cid = Some c \<and> fwd s cid p = Some f
         \<and> i = \<lparr>fi_container_id = cid, fi_hostname = con_hostname c, fi_port = p, fi_host_port = fs_host_port f,
                fi_protocol = Tcp, fi_process_name = fs_process_name f, fi_pid = fs_pid f, fi_since = fs_since f\<rparr>))
    \<and> distinct (map (\<lambda>i. (fi_container_id i, fi_port i)) (collect_forward_info s))"
proof (intro conjI allI)
  have w: "hm_wf (hs_containers s)" and wc: "\<And>cid c. (cid, c) \<in> set (hs_containers s) \<Longrightarrow> hm_wf (con_forwards c)"
    using assms hm_get_iff [of "hs_containers s"] by (auto simp: host_wf_def)
  show "distinct (map (\<lambda>i. (fi_container_id i, fi_port i)) (collect_forward_info s))"
    unfolding collect_forward_info_def infos_of_def [symmetric] using w wc by (rule forward_info_keys)
  fix i
  have "i \<in> set (collect_forward_info s) \<longleftrightarrow>
      (\<exists>cid c p f. (cid, c) \<in> set (hs_containers s) \<and> (p, f) \<in> set (con_forwards c) \<and> i = forward_info_of cid c (p, f))"
    by (force simp: collect_forward_info_def)
  also have "\<dots> \<longleftrightarrow> (\<exists>cid c p f. hm_get (hs_containers s) cid = Some c \<and> fwd s cid p = Some f \<and> i = forward_info_of cid c (p, f))"
  proof -
    have "(cid, c) \<in> set (hs_containers s) \<and> (p, f) \<in> set (con_forwards c) \<longleftrightarrow>
        hm_get (hs_containers s) cid = Some c \<and> fwd s cid p = Some f" for cid c p f
      using hm_get_iff [OF w, of cid c] hm_get_iff [OF wc, of cid c p f] by (auto simp: fwd_def)
    then show ?thesis
      by blast
  qed
  finally show "i \<in> set (collect_forward_info s) \<longleftrightarrow>
      (\<exists>cid c p f. hm_get (hs_containers s) cid = Some c \<and> fwd s cid p = Some f
         \<and> i = \<lparr>fi_container_id = cid, fi_hostname = con_hostname c, fi_port = p, fi_host_port = fs_host_port f,
                fi_protocol = Tcp, fi_process_name = fs_process_name f, fi_pid = fs_pid f, fi_since = fs_since f\<rparr>)"
    by (simp add: forward_info_of_def)
qed

theorem list_is_exact_witness:
  "\<exists>i \<in> set (collect_forward_info (dc_state sample_two)). fi_container_id i = ''b'' \<and> fi_host_port i = 3001"
proof -
  have w: "host_wf (dc_state sample_two)"
    by (auto simp: sample_two_def sample_container_def host_wf_def hm_wf_def)
  have c: "hm_get (hs_containers (dc_state sample_two)) ''b'' = Some ((sample_container
        [(3000, sample_forward\<lparr>fs_host_port := 3001, fs_listener := 9, fs_tracker := 10\<rparr>)])\<lparr>con_registration_id := 2\<rparr>)"
    and f: "fwd (dc_state sample_two) ''b'' 3000 = Some (sample_forward\<lparr>fs_host_port := 3001, fs_listener := 9, fs_tracker := 10\<rparr>)"
    by (simp_all add: sample_two_def sample_container_def fwd_def)
  have "\<lparr>fi_container_id = ''b'', fi_hostname = ''h'', fi_port = 3000, fi_host_port = 3001, fi_protocol = Tcp,
      fi_process_name = None, fi_pid = None, fi_since = ''0''\<rparr> \<in> set (collect_forward_info (dc_state sample_two))"
    by (rule list_is_exact [OF w, THEN conjunct1, THEN spec, THEN iffD2], intro exI conjI, rule c, rule f)
      (simp add: sample_container_def sample_forward_def)
  then show ?thesis
    by (rule bexI [rotated]) simp
qed

text \<open>The daemon does not start with the clipboard service unless a non-empty token is configured, so
  every clipboard request of a started daemon is checked against a token; and without a
  configured address it listens on the loopback only, unless detection is on and finds a
  Docker daemon.\<close>

theorem daemon_start_safe:
  assumes "host_start docker can_bind signals config = Inr (addr, d)"
  shows "(cs_enabled (dc_clipboard d) \<longrightarrow> (\<exists>t. dc_auth_token d = Some t \<and> t \<noteq> [] \<and> cs_token (dc_clipboard d) = Some t))
    \<and> (hc_bind_addr config = None \<longrightarrow> addr = Localhost \<or> (\<not> hc_no_docker_detect config \<and> docker = Some True \<and> addr = Unspecified))
    \<and> can_bind addr (hc_control_port config) \<and> can_bind addr (hc_data_port config)"
  using assms
  by (auto simp: host_start_def clipboard_service_new_def resolve_bind_addr_def detect_docker_def Let_def
      split: if_splits option.splits)

theorem daemon_start_safe_witness:
  "\<exists>d. host_start None (\<lambda>_ _. True) True (sample_config\<lparr>hc_allow_clipboard := True\<rparr>) = Inr (Localhost, d)
    \<and> cs_enabled (dc_clipboard d) \<and> cs_token (dc_clipboard d) = Some ''t''"
proof -
  obtain addr d where h: "host_start None (\<lambda>_ _. True) True (sample_config\<lparr>hc_allow_clipboard := True\<rparr>) = Inr (addr, d)"
    by (simp add: host_start_def sample_config_def host_config_default_def)
  moreover from h have "cs_enabled (dc_clipboard d)" "dc_auth_token d = Some ''t''"
    by (auto simp: host_start_def sample_config_def host_config_default_def clipboard_service_new_def)
  ultimately show ?thesis
    using daemon_start_safe [OF h] by (auto simp: sample_config_def host_config_default_def)
qed

subsection \<open>The socket scanner task\<close>

definition sockets_synced :: "socket_scanner \<Rightarrow> daemon_context \<Rightarrow> bool" where
  "sockets_synced scanner d \<longleftrightarrow> (\<forall>k i. hm_get (hs_socket_forwards (dc_state d)) k = Some i
     \<longleftrightarrow> (\<exists>p. hm_get (ss_known scanner) p = Some i) \<and> si_socket_id i = k)"

lemma try_send_queue:
  "dc_outbound (try_send m out d) out' =
     (let q = dc_outbound d out' in
      if out' = out \<and> mq_open q \<and> length (mq_items q) < 64 then q\<lparr>mq_items := mq_items q @ [m]\<rparr> else q)"
  by (simp add: try_send_def Let_def)

lemma broadcast_queue:
  "distinct senders \<Longrightarrow> dc_outbound (broadcast m senders d) out =
     (let q = dc_outbound d out in
      if out \<in> set senders \<and> mq_open q \<and> length (mq_items q) < 64 then q\<lparr>mq_items := mq_items q @ [m]\<rparr> else q)"
  unfolding broadcast_def by (induction senders arbitrary: d) (auto simp: try_send_queue Let_def)

lemma broadcasts_queue:
  "distinct senders \<Longrightarrow> out \<in> set senders \<Longrightarrow> mq_open (dc_outbound d out) \<Longrightarrow>
   length (mq_items (dc_outbound d out)) + length is \<le> 64 \<Longrightarrow>
   dc_outbound (fold (\<lambda>i. broadcast (m i) senders) is d) out
     = (dc_outbound d out)\<lparr>mq_items := mq_items (dc_outbound d out) @ map m is\<rparr>"
  by (induction "is" arbitrary: d) (simp_all add: broadcast_queue Let_def)

lemma fold_insert_get:
  fixes new :: "socket_info list"
  shows "distinct (map si_socket_id new) \<Longrightarrow>
   hm_get (fold (\<lambda>i m. hm_insert (si_socket_id i) i m) new m) k = Some i \<longleftrightarrow>
     (i \<in> set new \<and> si_socket_id i = k) \<or> (k \<notin> si_socket_id ` set new \<and> hm_get m k = Some i)"
proof (induction new arbitrary: m)
  case (Cons x new)
  have "distinct (map si_socket_id new)" and x: "si_socket_id x \<notin> si_socket_id ` set new"
    using Cons.prems by simp_all
  then show ?case
    using Cons.IH [of "hm_insert (si_socket_id x) x m"] by auto
qed simp

lemma fold_remove_id_get:
  fixes removed :: "socket_info list"
  shows "hm_get (fold (\<lambda>i m. hm_remove (si_socket_id i) m) removed m) k
     = (if k \<in> si_socket_id ` set removed then None else hm_get m k)"
  by (induction removed arbitrary: m) auto

lemma scanner_turn_outbound:
  assumes "scanner_turn lossy senv scanner d = (scanner', d')" and "socket_scan senv scanner = ((new, removed), scanner1)"
    and "senders = map con_outbound_msg_tx (hm_values (hs_containers (dc_state d)))" and "distinct senders"
    and "out \<in> set senders" and "mq_open (dc_outbound d out)"
    and "length (mq_items (dc_outbound d out)) + length new + length removed \<le> 64"
  shows "mq_items (dc_outbound d' out) = mq_items (dc_outbound d out)
    @ map (\<lambda>i. SocketForward (si_socket_id i) (lossy (si_host_path i)) (si_container_path i)) new
    @ map (\<lambda>i. SocketUnforward (si_socket_id i)) removed"
proof (cases "new = [] \<and> removed = []")
  case True
  then show ?thesis
    using assms(1,2) by (simp add: scanner_turn_def)
next
  case False
  let ?d1 = "update_state (socket_update new removed) d"
  let ?m = "\<lambda>i. SocketForward (si_socket_id i) (lossy (si_host_path i)) (si_container_path i)"
  let ?d2 = "fold (\<lambda>i. broadcast (?m i) senders) new ?d1"
  have d1: "dc_outbound ?d1 = dc_outbound d"
    by (simp add: update_state_def)
  have 2: "dc_outbound ?d2 out = (dc_outbound d out)\<lparr>mq_items := mq_items (dc_outbound d out) @ map ?m new\<rparr>"
    using broadcasts_queue [OF assms(4,5), of ?d1 new ?m] assms(6,7) by (simp add: d1)
  have "d' = fold (\<lambda>i. broadcast (SocketUnforward (si_socket_id i)) senders) removed ?d2"
    using assms(1,2) False assms(3) by (auto simp: scanner_turn_def Let_def)
  then show ?thesis
    using broadcasts_queue [OF assms(4,5), of ?d2 removed "\<lambda>i. SocketUnforward (si_socket_id i)"] assms(6,7) 2 by simp
qed

lemma scanner_turn_synced:
  assumes "scanner_ok scanner" and "iterates senv" and "fresh_uuids senv scanner" and "sockets_synced scanner d"
    and "scanner_turn lossy senv scanner d = (scanner', d')"
  shows "sockets_synced scanner' d'"
proof -
  obtain new removed scanner1 where scan: "socket_scan senv scanner = ((new, removed), scanner1)"
    by (metis prod.collapse)
  note o = socket_scan_ok [OF assms(1,2) scan]
  have s1: "scanner' = scanner1"
    using assms(5) scan by (auto simp: scanner_turn_def Let_def split: if_splits)
  have sf: "hs_socket_forwards (dc_state d') = hs_socket_forwards (socket_update new removed (dc_state d))"
    using assms(5) scan by (auto simp: scanner_turn_def Let_def socket_update_def split: if_splits)
  have fresh: "hm_get (ss_known scanner) p = Some i \<Longrightarrow> j \<in> set new \<Longrightarrow> si_socket_id i \<noteq> si_socket_id j" for p i j
    using map_index_ids [OF o(7), of j] assms(3)
    by (force simp: fresh_uuids_def known_sockets_def dest: hm_get_value)
  have "distinct (map si_socket_id new)"
    using assms(3) o(7) by (auto simp: distinct_map fresh_uuids_def intro: inj_on_subset)
  note get = fold_insert_get [OF this, of "hs_socket_forwards (dc_state d)"]
  show ?thesis
    unfolding sockets_synced_def
  proof (intro allI)
    fix k i
    have "hm_get (hs_socket_forwards (dc_state d')) k = Some i \<longleftrightarrow> k \<notin> si_socket_id ` set removed
        \<and> ((i \<in> set new \<and> si_socket_id i = k) \<or> (k \<notin> si_socket_id ` set new \<and> (\<exists>p. hm_get (ss_known scanner) p = Some i) \<and> si_socket_id i = k))"
      using get assms(4) by (simp add: sf socket_update_def fold_remove_id_get sockets_synced_def)
    also have "\<dots> \<longleftrightarrow> (\<exists>p. hm_get (ss_known scanner') p = Some i) \<and> si_socket_id i = k"
    proof -
      have gone: "k \<in> si_socket_id ` set removed \<longleftrightarrow> (\<exists>q j. hm_get (ss_known scanner) q = Some j \<and> q \<notin> visible senv scanner \<and> si_socket_id j = k)"
        unfolding o(1) by blast
      have one: "hm_get (ss_known scanner) p = Some i \<Longrightarrow> hm_get (ss_known scanner) q = Some j \<Longrightarrow> si_socket_id i = si_socket_id j \<Longrightarrow> p = q" for p q j
        using assms(1) unfolding scanner_ok_def by blast
      have now: "(\<exists>p. hm_get (ss_known scanner') p = Some i) \<longleftrightarrow> i \<in> set new \<or> (\<exists>p \<in> visible senv scanner. hm_get (ss_known scanner) p = Some i)"
        using o(2) s1 by blast
      show ?thesis
        unfolding gone now using one fresh by (auto simp: image_iff) metis+
    qed
    finally show "hm_get (hs_socket_forwards (dc_state d')) k = Some i \<longleftrightarrow>
      (\<exists>p. hm_get (ss_known scanner') p = Some i) \<and> si_socket_id i = k" .
  qed
qed

text \<open>C19. The scanner task keeps the daemon's table of socket forwards equal to the sockets it knows, under
  their ids, and every registered container whose queue has room is sent exactly the
  sockets that appeared and then those that are gone, in order and behind what was queued.\<close>

theorem socket_table_in_sync:
  assumes "scanner_ok scanner" and "iterates senv" and "fresh_uuids senv scanner" and "sockets_synced scanner d"
    and "scanner_turn lossy senv scanner d = (scanner', d')" and "socket_scan senv scanner = ((new, removed), scanner1)"
    and "distinct (map con_outbound_msg_tx (hm_values (hs_containers (dc_state d))))"
  shows "sockets_synced scanner' d'
    \<and> (\<forall>c \<in> set (hm_values (hs_containers (dc_state d))). let q = dc_outbound d (con_outbound_msg_tx c) in
        mq_open q \<longrightarrow> length (mq_items q) + length new + length removed \<le> 64 \<longrightarrow>
        mq_items (dc_outbound d' (con_outbound_msg_tx c)) = mq_items q
          @ map (\<lambda>i. SocketForward (si_socket_id i) (lossy (si_host_path i)) (si_container_path i)) new
          @ map (\<lambda>i. SocketUnforward (si_socket_id i)) removed)"
proof
  show "sockets_synced scanner' d'"
    by (rule scanner_turn_synced [OF assms(1-5)])
  show "\<forall>c \<in> set (hm_values (hs_containers (dc_state d))). let q = dc_outbound d (con_outbound_msg_tx c) in
        mq_open q \<longrightarrow> length (mq_items q) + length new + length removed \<le> 64 \<longrightarrow>
        mq_items (dc_outbound d' (con_outbound_msg_tx c)) = mq_items q
          @ map (\<lambda>i. SocketForward (si_socket_id i) (lossy (si_host_path i)) (si_container_path i)) new
          @ map (\<lambda>i. SocketUnforward (si_socket_id i)) removed"
  proof
    fix c assume "c \<in> set (hm_values (hs_containers (dc_state d)))"
    then have "con_outbound_msg_tx c \<in> set (map con_outbound_msg_tx (hm_values (hs_containers (dc_state d))))"
      by (auto simp: image_image)
    from scanner_turn_outbound [OF assms(5,6) refl assms(7) this]
    show "let q = dc_outbound d (con_outbound_msg_tx c) in
        mq_open q \<longrightarrow> length (mq_items q) + length new + length removed \<le> 64 \<longrightarrow>
        mq_items (dc_outbound d' (con_outbound_msg_tx c)) = mq_items q
          @ map (\<lambda>i. SocketForward (si_socket_id i) (lossy (si_host_path i)) (si_container_path i)) new
          @ map (\<lambda>i. SocketUnforward (si_socket_id i)) removed"
      by (simp add: Let_def)
  qed
qed

text \<open>The instance: the sample container, and the scan of theory SocketScanner.\<close>

definition sample_sockets :: daemon_context where
  "sample_sockets = sample_registered\<lparr>dc_state := (dc_state sample_registered)\<lparr>hs_socket_forwards :=
     [(''u'', \<lparr>si_socket_id = ''u'', si_host_path = ''/tmp/c'', si_container_path = ''/run/c'', si_discovered_at = 1\<rparr>)]\<rparr>\<rparr>"

theorem socket_table_in_sync_witness:
  "\<exists>scanner' d'. scanner_turn (\<lambda>b. b) demo_env demo_scanner sample_sockets = (scanner', d')
     \<and> sockets_synced scanner' d' \<and> length (mq_items (dc_outbound d' 1)) = 2 \<and> last (mq_items (dc_outbound d' 1)) = SocketUnforward ''u''"
proof -
  let ?u = "\<lparr>si_socket_id = ''u'', si_host_path = ''/tmp/c'', si_container_path = ''/run/c'', si_discovered_at = 1\<rparr>"
  obtain new removed s' where r: "socket_scan demo_env demo_scanner = ((new, removed), s')"
    by (metis prod.collapse)
  have len: "length new = 1" "removed = [?u]"
    using r by (auto simp: socket_scan_def demo_env_def demo_scanner_def is_unix_socket_def MAX_UNIX_SOCKET_PATH_def
        take_removed_def hm_contains_def List.map_filter_def Let_def)
  have ok: "scanner_ok demo_scanner" "iterates demo_env" "fresh_uuids demo_env demo_scanner"
    by (auto simp: scanner_ok_def demo_scanner_def iterates_def demo_env_def fresh_uuids_def known_sockets_def
        inj_def hm_wf_Cons split: if_splits)
  have sy: "sockets_synced demo_scanner sample_sockets"
    by (auto simp: sockets_synced_def demo_scanner_def sample_sockets_def split: if_splits)
  obtain scanner' d' where t: "scanner_turn (\<lambda>b. b) demo_env demo_scanner sample_sockets = (scanner', d')"
    by fastforce
  have c: "map con_outbound_msg_tx (hm_values (hs_containers (dc_state sample_sockets))) = [1]"
    by (simp add: sample_sockets_def sample_registered_state sample_container_def)
  have "sample_container [] \<in> set (hm_values (hs_containers (dc_state sample_sockets)))"
    by (simp add: sample_sockets_def sample_registered_state)
  moreover have "dc_outbound sample_sockets 1 = \<lparr>mq_items = [], mq_open = True\<rparr>"
    by (simp add: sample_sockets_def sample_registered_def enter_container_def Let_def sample_start_def
        host_start_def sample_config_def host_config_default_def resolve_bind_addr_def detect_docker_def)
  moreover have "distinct (map con_outbound_msg_tx (hm_values (hs_containers (dc_state sample_sockets))))"
    using c by simp
  note w = socket_table_in_sync [OF ok sy t r this]
  ultimately have "mq_items (dc_outbound d' 1) = map (\<lambda>i. SocketForward (si_socket_id i) (si_host_path i) (si_container_path i)) new
      @ [SocketUnforward ''u'']"
    using bspec [OF w [THEN conjunct2], of "sample_container []"] len by (simp add: sample_container_def Let_def)
  with t w [THEN conjunct1] len(1) show ?thesis
    by simp
qed

end
