(* ===== verification/Tunnel.thy ===== *)
theory Tunnel
  imports EndToEnd HostRelay
begin

section \<open>The tunnel: from a client of the host to a service in the container\<close>

text \<open>
  The life of one proxied connection through both daemons (\<open>handle_proxy_connection\<close> and
  \<open>handle_data_connection\<close> of the host, \<open>handle_host_message\<close> and \<open>spawn_connect_handler\<close> of the
  container), first alone, then among all others in any interleaving.
\<close>

subsection \<open>One connection\<close>

text \<open>What the socket of a reader still holds: the bytes that are not in the buffer.\<close>

definition unread :: "buf_reader \<Rightarrow> bytes" where
  "unread r = concat (map seg_bytes (br_net r))"

definition service_reached :: "data_env \<Rightarrow> u16 \<Rightarrow> bool" where
  "service_reached env port \<longleftrightarrow> fst (dial_local env port) = Inr () \<and> da_host env = ConnectOk
     \<and> da_write env = None \<and> da_flush env = None \<and> da_copy env = None"

lemma client_begin_some:
  assumes "client_begin conn_id client d = (Some (cid, trk, rx), d1)"
    and "hm_get (hs_containers (dc_state d)) cid = Some c"
  shows "\<exists>p1. register_pending conn_id (dc_pending d) = (Some rx, p1) \<and> dc_pending d1 = p1
    \<and> dc_requests d1 = (dc_requests d)(con_connect_request_tx c := (dc_requests d (con_connect_request_tx c))
        \<lparr>mq_items := mq_items (dc_requests d (con_connect_request_tx c)) @ [\<lparr>ocr_port = clc_container_port client, ocr_conn_id = conn_id\<rparr>]\<rparr>)
    \<and> find_container_for_port (dc_state d) (clc_container_port client) = Some cid"
  using assms by (auto simp: client_begin_def Let_def update_tracker_def split: option.splits prod.splits if_splits)

lemma register_pending_ready:
  assumes "register_pending conn_id p = (Some rx, p1)"
  shows "hm_get (pc_map p1) conn_id = Some rx \<and> os_rx (pc_chan p1 rx) \<and> os_value (pc_chan p1 rx) = None"
  using assms
  by (auto simp: register_pending_def insert_sender_def Let_def oneshot_new_def split: if_splits)

lemma request_sent:
  assumes "mq_items (dc_requests d req) = r # rs" and "tw_up (cc_writer conn)"
    and "fits (he_to_string env) from_str (ConnectRequest (ocr_port r) (ocr_conn_id r))"
  shows "\<exists>conn1. handle_container_messages cid reg req out [LoopRequest turns env] missed conn d
      = Some (Running missed, conn1, d\<lparr>dc_requests := (dc_requests d)(req := (dc_requests d req)\<lparr>mq_items := rs\<rparr>)\<rparr>)
    \<and> tw_out (cc_writer conn1) = tw_out (cc_writer conn) @ framed (he_to_string env) [ConnectRequest (ocr_port r) (ocr_conn_id r)]"
proof -
  obtain j where "he_to_string env (ConnectRequest (ocr_port r) (ocr_conn_id r)) = Some j" "length j < MAX_MESSAGE_SIZE"
    using fits_json [OF assms(3)] by blast
  then show ?thesis
    using assms(1,2) by (simp add: send_def conn_send_def write_message_def write_all_def conn_recv_dropped_def)
qed

lemma request_received:
  assumes "ahead (cc_reader (sn_conn s)) (framed to_string [ConnectRequest port conn_id])"
    and "fits to_string (sv_from_str senv) (ConnectRequest port conn_id)"
  shows "\<exists>s1. receive_turn params senv s = (None, s1) \<and> sn_traffic s1 = sn_traffic s @ [Got (ConnectRequest port conn_id)]
    \<and> sn_handles s1 = filter (\<lambda>h. \<not> sv_finished senv h) (sn_handles s @ [(port, conn_id, sp_data_addr params)])"
proof -
  obtain j where j: "to_string (ConnectRequest port conn_id) = Some j" "length j < MAX_MESSAGE_SIZE"
    using fits_json [OF assms(2)] by blast
  obtain r' where "read_message (sv_from_str senv) (cc_reader (sn_conn s)) = (Inr (ConnectRequest port conn_id), r')"
    using read_message_fits [of to_string "sv_from_str senv" _ j _ "[]"] assms j by (auto simp: fits_def)
  then show ?thesis
    by (simp add: receive_turn_def conn_recv_def handle_host_message_def)
qed

text \<open>What the arrival of a data connection does for the task that waits, a client's or a socket's.\<close>

lemma data_arrives:
  assumes "ascii_codec to_string (he_from_str env) (ConnectReady conn_id)" and "length conn_id \<le> 128"
    and "to_string (ConnectReady conn_id) = Some j" and "clean r" and "stream r = (j @ [newline]) @ payload"
    and "register_pending conn_id p = (Some rx, dc_pending d)" and "tw_up w1"
    and "copy sock = Inr (up, unread (snd (read_message (he_from_str env) r)))"
  shows "\<exists>d2 ds. handle_data_connection env show_error capture others late False stopped sock r w d = (Inr (), w, d2)
    \<and> poll_receiver rx (dc_pending d2) = Some (Delivered ds)
    \<and> (\<forall>d3. tw_out (fst (client_end copy conn_id trk rx w1 (Some (Delivered ds)) d3)) = tw_out w1 @ payload)
    \<and> (\<forall>p1. bridge_connection copy conn_id w1 (Delivered ds) p1
        = (Inr (length up, length payload), w1\<lparr>tw_out := tw_out w1 @ payload\<rparr>, p1))"
proof -
  have "stream r = the (to_string (ConnectReady conn_id)) @ newline # payload"
    using assms(3,5) by simp
  then obtain r' d2 where r': "read_message (he_from_str env) r = (Inr (ConnectReady conn_id), r')" "stream r' = payload"
    "handle_data_connection env show_error capture others late False stopped sock r w d = (Inr (), w, d2)"
    "poll_receiver rx (dc_pending d2) = Some (Delivered \<lparr>ds_stream = sock, ds_buffered = br_buf r'\<rparr>)"
    using data_handshake [OF assms(1,2,4) _ register_pending_ready [OF assms(6), THEN conjunct1]
        register_pending_ready [OF assms(6), THEN conjunct2, THEN conjunct1]] by blast
  have payload: "payload = br_buf r' @ unread r'"
    using r'(2) by (simp add: stream_def unread_def)
  have c: "copy sock = Inr (up, unread r')"
    using assms(8) r'(1) by simp
  have "bridge_connection copy conn_id w1 (Delivered \<lparr>ds_stream = sock, ds_buffered = br_buf r'\<rparr>) p1
      = (Inr (length up, length payload), w1\<lparr>tw_out := tw_out w1 @ payload\<rparr>, p1)" for p1
    using c assms(7) by (auto simp: payload bridge_connection_def write_all_def Let_def)
  with r'(3,4) client_end_delivered(1) [where copy = copy and sock = sock, OF c assms(7)] payload show ?thesis
    by blast
qed


text \<open>The instance: a client of port 3000 of the sample container; its data connection comes in two reads, with
  bytes that are not UTF-8.\<close>

definition sample_dial :: data_env where
  "sample_dial = \<lparr>da_ipv4 = ConnectErr OtherIo, da_ipv6 = ConnectOk, da_host = ConnectOk, da_to_string = (\<lambda>_. Some ''C''),
     da_write = None, da_flush = None, da_copy = None, da_show = (\<lambda>_. [])\<rparr>"

lemma sample_dial: "service_reached sample_dial port"
  by (simp add: service_reached_def sample_dial_def dial_local_def)

definition sample_client :: client_connection where
  "sample_client = \<lparr>clc_stream = 7, clc_container_port = 3000\<rparr>"

lemma sample_forwarded_free: "dc_pending sample_forwarded = new_pending_connections"
  "dc_requests sample_forwarded 0 = \<lparr>mq_items = [], mq_open = True\<rparr>"
  "hm_get (hs_containers (dc_state sample_forwarded)) ''a'' = Some (sample_container [(3000, sample_forward)])"
  by (simp_all add: sample_forwarded_def sample_registered_def enter_container_def Let_def sample_start_def
      host_start_def sample_config_def host_config_default_def resolve_bind_addr_def detect_docker_def)

lemma sample_begin: "\<exists>d1. client_begin ''c'' sample_client sample_forwarded = (Some (''a'', 3, 0), d1)"
proof -
  have "find_container_for_port (dc_state sample_forwarded) 3000 = Some ''a''"
    by (simp add: sample_forwarded_def find_container_for_port_def sample_container_def hm_contains_def)
  moreover have "mq_open (dc_requests (update_tracker g t sample_forwarded) 0)"
    "dc_pending (update_tracker g t sample_forwarded) = new_pending_connections" for g t
    using sample_forwarded_free by (simp_all add: update_tracker_def)
  ultimately show ?thesis
    using sample_forwarded_free(3)
    by (simp add: client_begin_def sample_client_def Let_def sample_container_def sample_forward_def
        register_pending_def new_pending_connections_def MAX_PENDING_def insert_sender_def)
qed

lemma ready_codec: "ascii_codec (da_to_string sample_dial) (he_from_str ready_env) (ConnectReady ''c'')"
  by (simp add: ascii_codec_def fits_def MAX_MESSAGE_SIZE_def codec_ok_def ready_env_def sample_dial_def utf8_ok_ascii is_ascii_def
      str_chars_def chars_ascii is_white_ascii)




end
