(* ===== verification/TunnelSystem.thy ===== *)
theory TunnelSystem
  imports Tunnel HostSeq
begin

section \<open>All connections together\<close>

text \<open>
  Many clients, containers and data connections at once. A step is one handler of the host, or one
  critical section of a handler that waits in between, the relay of one request, its receipt by
  the container, one connect handler, or the read of one handshake. The messages to a container travel in
  order on its control connection, which may lose some (theory Framing carries them as bytes).
  The identifier of a client is fresh (a UUID), and a stranger who opens data connections
  does not guess one. \<open>tu_log\<close> and \<open>tu_trace\<close> record what happened; no step reads them.
\<close>

subsection \<open>Handlers and the requests that wait\<close>

definition no_request :: "loop_event \<Rightarrow> bool" where
  "no_request ev \<longleftrightarrow> (case ev of LoopRequest _ _ \<Rightarrow> False | _ \<Rightarrow> True)"

lemma dc_frames [simp]:
  "dc_requests (log_effects es d) = dc_requests d" "dc_pending (log_effects es d) = dc_pending d"
  "dc_requests (teardown_one port f d) = dc_requests d" "dc_pending (teardown_one port f d) = dc_pending d"
  "dc_requests (teardown_many t fs d) = dc_requests d" "dc_pending (teardown_many t fs d) = dc_pending d"
  "dc_requests (update_tracker g trk d) = dc_requests d" "dc_pending (update_tracker g trk d) = dc_pending d"
  "dc_requests (update_state h d) = dc_requests d" "dc_pending (update_state h d) = dc_pending d"
  "dc_requests (try_send m out d) = dc_requests d" "dc_pending (try_send m out d) = dc_pending d"
  "dc_requests (handle_unforward cid port d) = dc_requests d" "dc_pending (handle_unforward cid port d) = dc_pending d"
  "dc_requests (handle_unforward_global port d) = dc_requests d" "dc_pending (handle_unforward_global port d) = dc_pending d"
  "dc_requests (snd (cleanup_container cid reg d)) = dc_requests d" "dc_pending (snd (cleanup_container cid reg d)) = dc_pending d"
  "dc_requests (drain_all_forwards t d) = dc_requests d" "dc_pending (drain_all_forwards t d) = dc_pending d"
  "dc_requests (snd (open_url env url d)) = dc_requests d" "dc_pending (snd (open_url env url d)) = dc_pending d"
  by (simp_all add: log_effects_def teardown_one_def teardown_many_def update_tracker_def update_state_def try_send_def Let_def
      handle_unforward_def handle_unforward_global_def cleanup_container_def drain_all_forwards_def open_url_def
      split: prod.splits option.splits sum.splits)

lemma dc_frames_broadcast [simp]:
  "dc_requests (broadcast m senders d) = dc_requests d" "dc_pending (broadcast m senders d) = dc_pending d"
  unfolding broadcast_def by (induction senders arbitrary: d) simp_all

lemma dc_frames_broadcasts [simp]:
  "dc_requests (fold (\<lambda>i. broadcast (m i) senders) is d) = dc_requests d"
  "dc_pending (fold (\<lambda>i. broadcast (m i) senders) is d) = dc_pending d"
  by (induction "is" arbitrary: d) simp_all

lemma scanner_frames [simp]:
  "dc_requests (snd (scanner_turn lossy senv scanner d)) = dc_requests d"
  "dc_pending (snd (scanner_turn lossy senv scanner d)) = dc_pending d"
  by (simp_all add: scanner_turn_def Let_def split: prod.splits)

lemma forward_frames:
  "handle_forward env cid port name pid d = Some (r, d') \<Longrightarrow> dc_requests d' = dc_requests d \<and> dc_pending d' = dc_pending d"
  by (auto simp: handle_forward_def start_listener_def Let_def split: prod.splits sum.splits option.splits)

text \<open>What the handlers do to the pending table are operations of its specification, and none resolves an entry.\<close>

fun resolves :: "pending_op \<Rightarrow> bool" where
  "resolves (OpResolve c d) = True"
| "resolves op = False"

definition follows :: "pending_connections \<Rightarrow> pending_connections \<Rightarrow> bool" where
  "follows p p' \<longleftrightarrow> (\<exists>ops evs. pending_run ops p = (evs, p') \<and> \<not> list_ex resolves ops)"

lemma follows_refl [simp]: "follows p p"
  unfolding follows_def by (intro exI [of _ "[]"]) simp

lemma pending_run_append:
  "pending_run ops p = (evs, p1) \<Longrightarrow> pending_run ops' p1 = (evs', p2) \<Longrightarrow> pending_run (ops @ ops') p = (evs @ evs', p2)"
  by (induction ops arbitrary: p evs) (auto split: prod.splits)

lemma follows_trans: "follows p p1 \<Longrightarrow> follows p1 p2 \<Longrightarrow> follows p p2"
  unfolding follows_def by (metis pending_run_append list_ex_append)

lemma follows_step: "pending_step op p = (ev, p') \<Longrightarrow> \<not> resolves op \<Longrightarrow> follows p p'"
  unfolding follows_def by (intro exI [of _ "[op]"]) auto

lemma follows_cancel [simp]: "follows p (cancel_pending c p)"
  by (rule follows_step [of "OpCancel c"]) simp_all

lemma follows_register: "register_pending c p = (r, p') \<Longrightarrow> follows p p'"
  by (rule follows_step [of "OpRegister c" p "case r of Some ch \<Rightarrow> Registered c ch | None \<Rightarrow> Rejected c"]) (auto split: option.splits)

lemma follows_drop: "ch < pc_next p \<Longrightarrow> follows p (drop_receiver ch p)"
  by (rule follows_step [of "OpDropReceiver ch"]) simp_all

lemma register_next: "register_pending c p = (Some rx, p') \<Longrightarrow> rx < pc_next p'"
  by (auto simp: register_pending_def insert_sender_def Let_def split: if_splits)

lemma follows_undo:
  assumes "register_pending c p = (Some rx, p')"
  shows "follows p (cancel_pending c (drop_receiver rx p'))"
  using follows_register [OF assms] follows_drop [OF register_next [OF assms]] follows_cancel follows_trans by metis

definition quiet :: "daemon_context \<Rightarrow> daemon_context \<Rightarrow> bool" where
  "quiet d d' \<longleftrightarrow> follows (dc_pending d) (dc_pending d')
     \<and> (\<forall>req. set (mq_items (dc_requests d' req)) \<subseteq> set (mq_items (dc_requests d req)))"

lemma quiet_same: "dc_pending d' = dc_pending d \<Longrightarrow> dc_requests d' = dc_requests d \<Longrightarrow> quiet d d'"
  by (simp add: quiet_def)

lemma quiet_refl [simp]: "quiet d d"
  by (simp add: quiet_same)

lemma quiet_trans: "quiet d d1 \<Longrightarrow> quiet d1 d2 \<Longrightarrow> quiet d d2"
  unfolding quiet_def by (meson follows_trans order_trans)

lemma quiet_open_url: "open_url env url d = (b, d') \<Longrightarrow> quiet d d'"
  using dc_frames(21,22) [of env url d] by (simp add: quiet_same)

lemma quiet_socket_connect: "socket_connect env i c conn d = (r, conn', d') \<Longrightarrow> quiet d d'"
  by (auto simp: socket_connect_def quiet_def follows_register follows_undo split: option.splits prod.splits sum.splits if_splits)

lemma quiet_dispatch:
  "dispatch_container_message env msg cid reg conn d = Some (r, conn', d') \<Longrightarrow> quiet d d'"
  by (cases msg) (auto simp: dispatch_container_message_def send_ack_def Let_def quiet_same quiet_def [of d "d\<lparr>dc_pending := _\<rparr>"]
      dest!: forward_frames dest: quiet_open_url quiet_socket_connect split: if_splits option.splits prod.splits sum.splits)

lemma quiet_messages:
  "handle_container_messages cid reg req out events missed conn d = Some (r, conn', d') \<Longrightarrow> list_all no_request events \<Longrightarrow> quiet d d'"
proof (induction cid reg req out events missed conn d rule: handle_container_messages.induct)
  case (2 cid reg req out env evs missed conn d)
  then show ?case
    by (auto split: prod.splits sum.splits option.splits dest: quiet_dispatch intro: quiet_trans)
next
  case (4 cid reg req out turns env evs missed conn d)
  have "quiet d (d\<lparr>dc_outbound := q\<rparr>)" for q
    by (simp add: quiet_same)
  with 4 show ?case
    by (auto split: list.splits intro: quiet_trans)
qed (auto simp: no_request_def Let_def quiet_same split: prod.splits sum.splits if_splits)

lemma quiet_end: "end_connection b cid reg req out r d = (r', d') \<Longrightarrow> quiet d d'"
  by (auto simp: end_connection_def Let_def quiet_def split: if_splits)

lemma quiet_serve:
  assumes "serve_container env b cid h events conn d = Some (r, conn', d')" and "list_all no_request events"
  shows "quiet d d'"
proof -
  obtain reg req out d1 where e: "enter_container cid h d = (reg, req, out, d1)"
    by (metis prod_cases4)
  then have "quiet d d1"
    by (auto simp: enter_container_def Let_def quiet_def split: if_splits)
  moreover obtain r1 c1 d2 where m: "handle_container_messages cid reg req out events 0
      (fold (send_socket_forward env) (hm_values (hs_socket_forwards (dc_state d1))) conn) d1 = Some (r1, c1, d2)"
    using assms(1) e by (auto simp: serve_container_def split: option.splits)
  moreover have "quiet d2 d'"
    using assms(1) e m by (cases r1) (auto simp: serve_container_def dest: quiet_end split: prod.splits)
  ultimately show ?thesis
    using quiet_messages [OF m assms(2)] quiet_trans by blast
qed

lemma quiet_register:
  assumes "register_container env b cid h tok events conn d = Some (r, conn', d')" and "list_all no_request events"
  shows "quiet d d'"
proof -
  have same: "quiet d (d\<lparr>dc_state := s\<rparr>)" "quiet d (teardown_many t fs (d\<lparr>dc_state := s\<rparr>))" for s t fs
    by (simp_all add: quiet_same)
  then have "serve_container env b cid h events c (teardown_many t fs (d\<lparr>dc_state := s\<rparr>)) = Some (r, conn', d') \<Longrightarrow> quiet d d'"
    "serve_container env b cid h events c (d\<lparr>dc_state := s\<rparr>) = Some (r, conn', d') \<Longrightarrow> quiet d d'" for c t fs s
    using quiet_serve [OF _ assms(2)] quiet_trans by blast+
  then show ?thesis
    using assms(1) same
    by (auto simp: register_container_def reply_and_close_def Let_def split: if_splits prod.splits sum.splits option.splits)
qed

lemma quiet_connection:
  assumes "handle_control_connection env t b events conn d = Some (r, conn', d')" and "list_all no_request events"
  shows "quiet d d'"
proof -
  have "quiet d d" "quiet d (handle_unforward_global port d)" "quiet d (d\<lparr>dc_shutdown := True\<rparr>)" for port
    by (simp_all add: quiet_same)
  then show ?thesis
    using assms
    by (auto simp: handle_control_connection_def reply_and_close_def split: if_splits prod.splits sum.splits message.splits
        dest: quiet_register quiet_open_url)
qed

lemma quiet_turned_away: "client_begin conn_id client d = (None, d') \<Longrightarrow> quiet d d'"
  by (auto simp: client_begin_def Let_def quiet_same quiet_def follows_register follows_undo split: option.splits prod.splits if_splits)

lemma quiet_client_end: "rx < pc_next (dc_pending d) \<Longrightarrow> quiet d (snd (client_end copy conn_id trk rx client ended d))"
  using follows_drop [of rx "dc_pending d"] follows_trans [OF _ follows_cancel]
  by (auto simp: client_end_def bridge_connection_def Let_def quiet_def split: option.splits waited.splits sum.splits prod.splits)

text \<open>The handlers that neither hand out a request nor resolve a connection.\<close>

fun other_op :: "daemon_context \<Rightarrow> host_op \<Rightarrow> bool" where
  "other_op d (host_op.Connection env timed_out exit_on_idle events conn) = list_all no_request events"
| "other_op d (Messages cid reg req out events missed conn) = list_all no_request events"
| "other_op d (ClientBegin conn_id client) = (fst (client_begin conn_id client d) = None)"
| "other_op d (ClientEnd copy conn_id trk rx client ended) = (rx < pc_next (dc_pending d))"
| "other_op d (DataConnection env show_error capture others late timed_out stopped sock r w) = False"
| "other_op d op = True"

lemma quiet_op:
  assumes "run_op op d = Some d'" and "other_op d op"
  shows "quiet d d'"
proof (cases op)
  case (ClientBegin conn_id client)
  then show ?thesis
    using assms quiet_turned_away [of conn_id client d] by (cases "client_begin conn_id client d") auto
next
  case (EndConnection b cid reg req out result)
  then show ?thesis
    using assms by (cases "end_connection b cid reg req out result d") (simp add: quiet_end)
qed (use assms in \<open>auto dest: quiet_connection quiet_messages simp: quiet_client_end quiet_same host_stop_def\<close>)

subsection \<open>The steps\<close>

record data_connection =
  dn_sock :: nat
  dn_reader :: buf_reader
  dn_origin :: "(nat \<times> u16 \<times> string \<times> data_env) option"
  dn_payload :: bytes

record tunnel_client =
  tc_client :: client_connection
  tc_channel :: nat
  tc_rx :: nat

record tunnel =
  tu_host :: daemon_context
  tu_clients :: "(string, tunnel_client) hashmap"
  tu_wire :: "nat \<Rightarrow> message list"
  tu_tasks :: "(nat \<times> u16 \<times> string) list"
  tu_data :: "data_connection list"
  tu_polling :: "(string \<times> data_stream) list"
  tu_named :: "string list"
  tu_log :: "(string \<times> data_stream \<times> data_connection) list"
  tu_trace :: "pending_event list"

text \<open>The connect handlers that a message starts in the container at the other end of a channel.\<close>

fun connects :: "nat \<Rightarrow> message \<Rightarrow> (nat \<times> u16 \<times> string) list" where
  "connects req (ConnectRequest port conn_id) = [(req, port, conn_id)]"
| "connects req m = []"

lemma connects_handles:
  "handle_host_message params env msg s = (out, s1) \<Longrightarrow> (\<And>h. \<not> sv_finished env h) \<Longrightarrow>
   sn_handles s1 = sn_handles s @ map (\<lambda>(_, port, conn_id). (port, conn_id, sp_data_addr params)) (connects req msg)"
  by (cases msg) (auto simp: handle_host_message_def say_def socket_forwarded_def socket_unforwarded_def
      split: prod.splits sum.splits option.splits)

text \<open>The identifiers that a data connection can name.\<close>

definition names :: "json_parser \<Rightarrow> buf_reader \<Rightarrow> string list" where
  "names from_str r = (case fst (read_message from_str r) of Inr (ConnectReady conn_id) \<Rightarrow> [conn_id] | _ \<Rightarrow> [])"

definition sockets :: "tunnel \<Rightarrow> nat list" where
  "sockets t = map dn_sock (tu_data t) @ map (\<lambda>(_, _, dn). dn_sock dn) (tu_log t)"

definition tunnel_init :: "tunnel \<Rightarrow> bool" where
  "tunnel_init t \<longleftrightarrow> dc_pending (tu_host t) = new_pending_connections \<and> (\<forall>req. mq_items (dc_requests (tu_host t) req) = [])
     \<and> tu_clients t = [] \<and> tu_wire t = (\<lambda>_. []) \<and> tu_tasks t = [] \<and> tu_data t = [] \<and> tu_polling t = [] \<and> tu_named t = []
     \<and> tu_log t = [] \<and> tu_trace t = []"

inductive tunnel_step :: "json_printer \<Rightarrow> json_parser \<Rightarrow> tunnel \<Rightarrow> tunnel \<Rightarrow> bool"
  for to_string from_str where
  tu_client:
    "conn_id \<notin> set (hm_keys (tu_clients t)) \<Longrightarrow> conn_id \<notin> set (tu_named t) \<Longrightarrow>
     client_begin conn_id client (tu_host t) = (Some (cid, trk, rx), d') \<Longrightarrow>
     hm_get (hs_containers (dc_state (tu_host t))) cid = Some c \<Longrightarrow>
     tunnel_step to_string from_str t (t\<lparr>tu_host := d',
       tu_clients := hm_insert conn_id \<lparr>tc_client = client, tc_channel = con_connect_request_tx c, tc_rx = rx\<rparr> (tu_clients t),
       tu_trace := Registered conn_id rx # tu_trace t\<rparr>)"
| tu_send:
    "mq_items (dc_requests (tu_host t) req) = r # rs \<Longrightarrow>
     handle_container_messages cid reg req out [LoopRequest turns env] missed conn (tu_host t) = Some (Running m, conn', d') \<Longrightarrow>
     pending_run ops (dc_pending (tu_host t)) = (evs, dc_pending d') \<Longrightarrow> \<not> list_ex resolves ops \<Longrightarrow>
     tunnel_step to_string from_str t (t\<lparr>tu_host := d',
       tu_wire := (tu_wire t)(req := tu_wire t req @ [ConnectRequest (ocr_port r) (ocr_conn_id r)]),
       tu_trace := rev evs @ tu_trace t\<rparr>)"
| tu_receive:
    "tu_wire t req = msg # rest \<Longrightarrow>
     tunnel_step to_string from_str t (t\<lparr>tu_wire := (tu_wire t)(req := rest), tu_tasks := connects req msg @ tu_tasks t\<rparr>)"
| tu_dial:
    "(req, port, conn_id) \<in> set (tu_tasks t) \<Longrightarrow> da_to_string env = to_string \<Longrightarrow>
     spawn_connect_handler env port conn_id data_addr = (result, acts, relayed) \<Longrightarrow> WriteLine line \<in> set acts \<Longrightarrow> CopyBoth \<in> set acts \<Longrightarrow>
     sock \<notin> set (sockets t) \<Longrightarrow> clean r \<Longrightarrow> stream r = line @ payload \<Longrightarrow>
     tunnel_step to_string from_str t (t\<lparr>tu_tasks := remove1 (req, port, conn_id) (tu_tasks t),
       tu_data := \<lparr>dn_sock = sock, dn_reader = r, dn_origin = Some (req, port, conn_id, env), dn_payload = payload\<rparr> # tu_data t\<rparr>)"
| tu_stranger:
    "sock \<notin> set (sockets t) \<Longrightarrow> set (names from_str r) \<inter> set (hm_keys (tu_clients t)) = {} \<Longrightarrow>
     tunnel_step to_string from_str t (t\<lparr>tu_named := names from_str r @ tu_named t,
       tu_data := \<lparr>dn_sock = sock, dn_reader = r, dn_origin = None, dn_payload = []\<rparr> # tu_data t\<rparr>)"
| tu_read:
    "dn \<in> set (tu_data t) \<Longrightarrow> read_message from_str (dn_reader dn) = (Inr (ConnectReady conn_id), r') \<Longrightarrow>
     length conn_id \<le> MAX_CONN_ID_LENGTH \<Longrightarrow> ds = \<lparr>ds_stream = dn_sock dn, ds_buffered = br_buf r'\<rparr> \<Longrightarrow>
     tunnel_step to_string from_str t (t\<lparr>tu_data := remove1 dn (tu_data t), tu_polling := (conn_id, ds) # tu_polling t,
       tu_log := (conn_id, ds, dn) # tu_log t\<rparr>)"
| tu_poll:
    "(conn_id, ds) \<in> set (tu_polling t) \<Longrightarrow> resolve_pending conn_id ds (dc_pending (tu_host t)) = (ok, p') \<Longrightarrow>
     tunnel_step to_string from_str t (t\<lparr>tu_host := (tu_host t)\<lparr>dc_pending := p'\<rparr>,
       tu_polling := (if hm_contains (pc_map (dc_pending (tu_host t))) conn_id then remove1 (conn_id, ds) (tu_polling t) else tu_polling t),
       tu_trace := Resolved conn_id ds ok # tu_trace t\<rparr>)"
| tu_other:
    "run_op op (tu_host t) = Some d' \<Longrightarrow> other_op (tu_host t) op \<Longrightarrow>
     pending_run ops (dc_pending (tu_host t)) = (evs, dc_pending d') \<Longrightarrow> \<not> list_ex resolves ops \<Longrightarrow>
     tunnel_step to_string from_str t (t\<lparr>tu_host := d', tu_trace := rev evs @ tu_trace t\<rparr>)"
| tu_wire_other:
    "\<forall>req. set (wire' req) \<inter> {ConnectRequest port conn_id | port conn_id. True} \<subseteq> set (tu_wire t req) \<Longrightarrow>
     tunnel_step to_string from_str t (t\<lparr>tu_wire := wire'\<rparr>)"
| tu_gone:
    "set (tu_polling' :: (string \<times> data_stream) list) \<subseteq> set (tu_polling t) \<Longrightarrow>
     tunnel_step to_string from_str t (t\<lparr>tu_polling := tu_polling'\<rparr>)"

text \<open>
  A request whose sending fails stays on the wire like the others, where \<open>tu_wire_other\<close> may lose it. A
  data connection is read and then polls the table; one turn of its grace loop is one
  \<open>tu_poll\<close>, and it may be gone at any time (\<open>tu_gone\<close>).
\<close>

lemma grace_poll:
  "grace_loop others late i now deadline conn_id ds p =
     (if hm_contains (pc_map p) conn_id then (i, resolve_pending conn_id ds p)
      else if now \<ge> deadline then (i, resolve_pending conn_id ds p)
      else grace_loop others late (Suc i) (now + EARLY_DATA_RETRY_INTERVAL + late i) deadline conn_id ds
             (others i (snd (resolve_pending conn_id ds p))))"
  by (simp add: grace_loop.simps [of others late i] resolve_pending_def take_sender_def hm_contains_def split: option.split)

text \<open>Every other handler makes such a step.\<close>

lemma other_step:
  assumes "run_op op (tu_host t) = Some d'" and "other_op (tu_host t) op"
  shows "\<exists>t'. tunnel_step to_string from_str t t' \<and> tu_host t' = d'"
proof -
  obtain ops evs where "pending_run ops (dc_pending (tu_host t)) = (evs, dc_pending d')" "\<not> list_ex resolves ops"
    using quiet_op [OF assms] by (auto simp: quiet_def follows_def)
  from tu_other [OF assms this] show ?thesis
    by (intro exI conjI) (assumption, simp)
qed

subsection \<open>The trace of the pending table\<close>

lemma current_registered: "current tr c = Some ch \<Longrightarrow> Registered c ch \<in> set tr"
  by (induction tr c rule: current.induct) (auto split: if_splits)

lemma outcome_delivered:
  "outcome tr ch = Some (Delivered ds) \<Longrightarrow> \<exists>c ok. Resolved c ds ok \<in> set tr \<and> Registered c ch \<in> set tr"
  by (induction tr ch rule: outcome.induct) (auto dest: current_registered split: if_splits)

definition trace_ok :: "pending_event list \<Rightarrow> pending_connections \<Rightarrow> bool" where
  "trace_ok tr p \<longleftrightarrow> pending_inv tr p \<and> (\<forall>c ch. Registered c ch \<in> set tr \<longrightarrow> ch < pc_next p)
     \<and> (\<forall>c c' ch. Registered c ch \<in> set tr \<longrightarrow> Registered c' ch \<in> set tr \<longrightarrow> c = c')"

lemma register_fresh: "register_pending c p = (Some rx, p') \<Longrightarrow> rx = pc_next p \<and> pc_next p' = Suc rx"
  by (auto simp: register_pending_def insert_sender_def Let_def retain_open_def split: if_splits)

lemma pending_step_next:
  assumes "pending_step op p = (ev, p')"
  shows "(case ev of Registered c ch \<Rightarrow> ch = pc_next p \<and> pc_next p' = Suc ch | _ \<Rightarrow> pc_next p' \<ge> pc_next p)"
proof (cases op)
  case (OpRegister c)
  then show ?thesis
    using assms register_fresh [of c p]
    by (auto simp: register_pending_def retain_open_def Let_def split: prod.splits option.splits if_splits)
qed (use assms in \<open>auto simp: resolve_pending_def take_sender_def oneshot_send_def cancel_pending_def drop_receiver_def
    split: prod.splits option.splits if_splits\<close>)

lemma trace_ok_step:
  assumes "trace_ok tr p" and "pending_step op p = (ev, p')"
  shows "trace_ok (ev # tr) p'"
  using assms pending_inv_step [OF _ assms(2), of tr] pending_step_next [OF assms(2)]
  by (cases ev) (auto simp: trace_ok_def dest: less_le_trans intro: less_Suc_eq_le [THEN iffD2] less_imp_le)

lemma trace_ok_run: "trace_ok tr p \<Longrightarrow> pending_run ops p = (evs, p') \<Longrightarrow> trace_ok (rev evs @ tr) p'"
proof (induction ops arbitrary: tr p evs)
  case (Cons op ops)
  obtain ev p1 evs1 where s: "pending_step op p = (ev, p1)" and r: "pending_run ops p1 = (evs1, p')" "evs = ev # evs1"
    using Cons.prems(2) by (auto split: prod.splits)
  show ?case
    using Cons.IH [OF trace_ok_step [OF Cons.prems(1) s] r(1)] r(2) by simp
qed simp

lemma run_no_resolve: "pending_run ops p = (evs, p') \<Longrightarrow> \<not> list_ex resolves ops \<Longrightarrow> Resolved c ds ok \<notin> set evs"
proof (induction ops arbitrary: p evs)
  case (Cons op ops)
  then show ?case
    by (cases op) (auto split: prod.splits option.splits if_splits)
qed simp

subsection \<open>The invariant\<close>

definition issued :: "tunnel \<Rightarrow> nat \<times> u16 \<times> string \<Rightarrow> bool" where
  "issued t = (\<lambda>(req, port, conn_id). \<exists>cl. hm_get (tu_clients t) conn_id = Some cl
     \<and> tc_channel cl = req \<and> clc_container_port (tc_client cl) = port)"

definition origin_ok :: "json_printer \<Rightarrow> json_parser \<Rightarrow> tunnel \<Rightarrow> data_connection \<Rightarrow> bool" where
  "origin_ok to_string from_str t dn \<longleftrightarrow>
     (case dn_origin dn of
        None \<Rightarrow> set (names from_str (dn_reader dn)) \<subseteq> set (tu_named t)
      | Some (req, port, conn_id, env) \<Rightarrow> issued t (req, port, conn_id) \<and> fst (dial_local env port) = Inr ()
          \<and> clean (dn_reader dn) \<and> stream (dn_reader dn) = the (to_string (ConnectReady conn_id)) @ newline # dn_payload dn)"

definition requests_issued :: "tunnel \<Rightarrow> bool" where
  "requests_issued t \<longleftrightarrow>
     (\<forall>req. \<forall>r \<in> set (mq_items (dc_requests (tu_host t) req)). issued t (req, ocr_port r, ocr_conn_id r))
     \<and> (\<forall>req port conn_id. ConnectRequest port conn_id \<in> set (tu_wire t req) \<longrightarrow> issued t (req, port, conn_id))
     \<and> (\<forall>task \<in> set (tu_tasks t). issued t task)"

definition log_ok :: "json_printer \<Rightarrow> json_parser \<Rightarrow> tunnel \<Rightarrow> bool" where
  "log_ok to_string from_str t \<longleftrightarrow>
     (\<forall>dn \<in> set (tu_data t). origin_ok to_string from_str t dn)
     \<and> (\<forall>(conn_id, ds, dn) \<in> set (tu_log t). origin_ok to_string from_str t dn \<and> ds_stream ds = dn_sock dn
          \<and> (\<exists>r'. read_message from_str (dn_reader dn) = (Inr (ConnectReady conn_id), r') \<and> ds_buffered ds = br_buf r'))
     \<and> (\<forall>(conn_id, ds) \<in> set (tu_polling t). \<exists>dn. (conn_id, ds, dn) \<in> set (tu_log t))
     \<and> (\<forall>conn_id ds ok. Resolved conn_id ds ok \<in> set (tu_trace t) \<longrightarrow> (\<exists>dn. (conn_id, ds, dn) \<in> set (tu_log t)))
     \<and> distinct (sockets t)"

definition tunnel_inv :: "json_printer \<Rightarrow> json_parser \<Rightarrow> tunnel \<Rightarrow> bool" where
  "tunnel_inv to_string from_str t \<longleftrightarrow>
     trace_ok (tu_trace t) (dc_pending (tu_host t)) \<and> requests_issued t \<and> log_ok to_string from_str t
     \<and> (\<forall>conn_id cl. hm_get (tu_clients t) conn_id = Some cl \<longrightarrow> Registered conn_id (tc_rx cl) \<in> set (tu_trace t))
     \<and> set (hm_keys (tu_clients t)) \<inter> set (tu_named t) = {}"

lemma tunnel_inv_start: "tunnel_init t \<Longrightarrow> tunnel_inv to_string from_str t"
  by (simp add: tunnel_init_def tunnel_inv_def trace_ok_def pending_inv_new requests_issued_def log_ok_def sockets_def)

text \<open>Only what a step changes has to be looked at.\<close>

lemma issued_cong: "tu_clients t' = tu_clients t \<Longrightarrow> issued t' = issued t"
  by (simp add: issued_def)

lemma issued_more:
  "tu_clients t' = hm_insert conn_id cl (tu_clients t) \<Longrightarrow> conn_id \<notin> set (hm_keys (tu_clients t)) \<Longrightarrow> issued t x \<Longrightarrow> issued t' x"
  by (auto simp: issued_def dest: hm_get_key)

lemma origin_ok_mono:
  "(\<And>x. issued t x \<Longrightarrow> issued t' x) \<Longrightarrow> set (tu_named t) \<subseteq> set (tu_named t') \<Longrightarrow> origin_ok to_string from_str t dn \<Longrightarrow>
   origin_ok to_string from_str t' dn"
  by (auto simp: origin_ok_def split: option.splits)

lemma requests_issued_mono:
  assumes "requests_issued t" and "\<And>x. issued t x \<Longrightarrow> issued t' x"
    and "\<And>req r. r \<in> set (mq_items (dc_requests (tu_host t') req)) \<Longrightarrow>
      r \<in> set (mq_items (dc_requests (tu_host t) req)) \<or> issued t' (req, ocr_port r, ocr_conn_id r)"
    and "\<And>req port conn_id. ConnectRequest port conn_id \<in> set (tu_wire t' req) \<Longrightarrow>
      ConnectRequest port conn_id \<in> set (tu_wire t req) \<or> issued t' (req, port, conn_id)"
    and "\<And>task. task \<in> set (tu_tasks t') \<Longrightarrow> task \<in> set (tu_tasks t) \<or> issued t' task"
  shows "requests_issued t'"
  using assms unfolding requests_issued_def by blast

lemma log_ok_mono:
  assumes "log_ok to_string from_str t" and "\<And>x. issued t x \<Longrightarrow> issued t' x" and "tu_named t' = tu_named t"
    and "tu_data t' = tu_data t" and "tu_log t' = tu_log t" and "set (tu_polling t') \<subseteq> set (tu_polling t)"
    and "\<And>c ds ok. Resolved c ds ok \<in> set (tu_trace t') \<Longrightarrow> Resolved c ds ok \<in> set (tu_trace t) \<or> (c, ds) \<in> set (tu_polling t)"
  shows "log_ok to_string from_str t'"
proof -
  have "origin_ok to_string from_str t dn \<Longrightarrow> origin_ok to_string from_str t' dn" for dn
    using origin_ok_mono [OF assms(2)] assms(3) by simp
  moreover note l = assms(1) [unfolded log_ok_def sockets_def]
  have "\<exists>dn. (c, ds, dn) \<in> set (tu_log t)" if "Resolved c ds ok \<in> set (tu_trace t')" for c ds ok
    using assms(7) [OF that] l by blast
  moreover have "\<forall>(c, ds) \<in> set (tu_polling t'). \<exists>dn. (c, ds, dn) \<in> set (tu_log t)"
    using l assms(6) by blast
  ultimately show ?thesis
    using l unfolding log_ok_def sockets_def assms(4,5) by (intro conjI) (blast | simp)+
qed

text \<open>One lemma per kind of step.\<close>

lemma inv_client:
  assumes "tunnel_inv to_string from_str t" and "conn_id \<notin> set (hm_keys (tu_clients t))" and "conn_id \<notin> set (tu_named t)"
    and "client_begin conn_id client (tu_host t) = (Some (cid, trk, rx), d')"
    and "hm_get (hs_containers (dc_state (tu_host t))) cid = Some c"
  shows "tunnel_inv to_string from_str (t\<lparr>tu_host := d',
       tu_clients := hm_insert conn_id \<lparr>tc_client = client, tc_channel = con_connect_request_tx c, tc_rx = rx\<rparr> (tu_clients t),
       tu_trace := Registered conn_id rx # tu_trace t\<rparr>)" (is "tunnel_inv _ _ ?t'")
proof -
  have b: "register_pending conn_id (dc_pending (tu_host t)) = (Some rx, dc_pending d')"
    "dc_requests d' = (dc_requests (tu_host t))(con_connect_request_tx c := (dc_requests (tu_host t) (con_connect_request_tx c))
        \<lparr>mq_items := mq_items (dc_requests (tu_host t) (con_connect_request_tx c)) @ [\<lparr>ocr_port = clc_container_port client, ocr_conn_id = conn_id\<rparr>]\<rparr>)"
    using client_begin_some [OF assms(4,5)] by auto
  have more: "issued t x \<Longrightarrow> issued ?t' x" for x
    by (rule issued_more [OF _ assms(2)]) auto
  have new: "issued ?t' (con_connect_request_tx c, clc_container_port client, conn_id)"
    by (simp add: issued_def)
  have tr: "trace_ok (tu_trace t) (dc_pending (tu_host t))"
    using assms(1) by (simp add: tunnel_inv_def)
  have "pending_step (OpRegister conn_id) (dc_pending (tu_host t)) = (Registered conn_id rx, dc_pending d')"
    using b(1) by simp
  from trace_ok_step [OF tr this] have "trace_ok (tu_trace ?t') (dc_pending (tu_host ?t'))"
    by simp
  moreover have "requests_issued ?t'"
  proof (rule requests_issued_mono [of t])
    show "requests_issued t"
      using assms(1) by (simp add: tunnel_inv_def)
    show "r \<in> set (mq_items (dc_requests (tu_host t) q)) \<or> issued ?t' (q, ocr_port r, ocr_conn_id r)"
      if "r \<in> set (mq_items (dc_requests (tu_host ?t') q))" for q r
    proof (cases "r \<in> set (mq_items (dc_requests (tu_host t) q))")
      case False
      then have "q = con_connect_request_tx c" "r = \<lparr>ocr_port = clc_container_port client, ocr_conn_id = conn_id\<rparr>"
        using that by (auto simp: b(2) split: if_splits)
      then show ?thesis
        using new by simp
    qed simp
  qed (simp_all add: more)
  moreover have "log_ok to_string from_str t"
    using assms(1) by (simp add: tunnel_inv_def)
  then have "log_ok to_string from_str ?t'"
    by (rule log_ok_mono [OF _ more]) auto
  moreover have "set (hm_keys (tu_clients ?t')) \<inter> set (tu_named ?t') = {}"
    using assms(1,3) hm_keys_insert [of conn_id _ "tu_clients t"] unfolding tunnel_inv_def by (simp del: set_map)
  ultimately show ?thesis
    using assms(1) unfolding tunnel_inv_def by simp
qed

lemma send_requests:
  "mq_items (dc_requests d req) = r # rs \<Longrightarrow>
   handle_container_messages cid reg req out [LoopRequest turns env] missed conn d = Some (res, conn', d') \<Longrightarrow>
   dc_requests d' = (dc_requests d)(req := (dc_requests d req)\<lparr>mq_items := rs\<rparr>)"
  by (auto simp: Let_def split: prod.splits sum.splits)

text \<open>Steps that leave the clients, the strangers and the data connections alone.\<close>

lemma inv_keep:
  assumes "tunnel_inv to_string from_str t" and "tu_clients t' = tu_clients t" and "tu_named t' = tu_named t"
    and "tu_data t' = tu_data t" and "tu_log t' = tu_log t" and "set (tu_polling t') \<subseteq> set (tu_polling t)"
    and "trace_ok (tu_trace t') (dc_pending (tu_host t'))" and "set (tu_trace t) \<subseteq> set (tu_trace t')"
    and "\<And>c ds ok. Resolved c ds ok \<in> set (tu_trace t') \<Longrightarrow> Resolved c ds ok \<in> set (tu_trace t) \<or> (c, ds) \<in> set (tu_polling t)"
    and "requests_issued t \<Longrightarrow> requests_issued t'"
  shows "tunnel_inv to_string from_str t'"
proof -
  have i: "issued t' = issued t"
    by (rule issued_cong) (rule assms(2))
  have "log_ok to_string from_str t'"
    using assms(1) by (intro log_ok_mono [of _ _ t, OF _ _ assms(3-6)]) (auto simp: tunnel_inv_def i dest: assms(9))
  then show ?thesis
    using assms(1,7,8,10) unfolding tunnel_inv_def assms(2,3) by blast
qed

lemma inv_send:
  assumes "tunnel_inv to_string from_str t" and "mq_items (dc_requests (tu_host t) req) = r # rs"
    and "handle_container_messages cid reg req out [LoopRequest turns env] missed conn (tu_host t) = Some (Running m, conn', d')"
    and "pending_run ops (dc_pending (tu_host t)) = (evs, dc_pending d')" and "\<not> list_ex resolves ops"
  shows "tunnel_inv to_string from_str (t\<lparr>tu_host := d',
       tu_wire := (tu_wire t)(req := tu_wire t req @ [ConnectRequest (ocr_port r) (ocr_conn_id r)]),
       tu_trace := rev evs @ tu_trace t\<rparr>)" (is "tunnel_inv _ _ ?t'")
proof (rule inv_keep [OF assms(1)])
  show "trace_ok (tu_trace ?t') (dc_pending (tu_host ?t'))"
    using trace_ok_run [OF _ assms(4)] assms(1) by (simp add: tunnel_inv_def)
  show "requests_issued ?t'" if "requests_issued t"
  proof (rule requests_issued_mono [OF that])
    have i: "issued ?t' = issued t"
      by (rule issued_cong) simp
    have r: "issued t (req, ocr_port r, ocr_conn_id r)"
      using that assms(2) unfolding requests_issued_def by (metis list.set_intros(1))
    show "r' \<in> set (mq_items (dc_requests (tu_host t) q)) \<or> issued ?t' (q, ocr_port r', ocr_conn_id r')"
      if "r' \<in> set (mq_items (dc_requests (tu_host ?t') q))" for q r'
      using that assms(2) by (auto simp: send_requests [OF assms(2,3)] split: if_splits)
    show "ConnectRequest port c \<in> set (tu_wire t q) \<or> issued ?t' (q, port, c)" if "ConnectRequest port c \<in> set (tu_wire ?t' q)" for q port c
      using that r unfolding i by (auto split: if_splits)
  qed (simp_all add: issued_def)
qed (use run_no_resolve [OF assms(4,5)] in auto)

lemma inv_receive:
  assumes "tunnel_inv to_string from_str t" and "tu_wire t req = msg # rest"
  shows "tunnel_inv to_string from_str (t\<lparr>tu_wire := (tu_wire t)(req := rest), tu_tasks := connects req msg @ tu_tasks t\<rparr>)"
    (is "tunnel_inv _ _ ?t'")
proof (rule inv_keep [OF assms(1)])
  show "requests_issued ?t'" if "requests_issued t"
  proof (rule requests_issued_mono [OF that])
    have i: "issued ?t' = issued t"
      by (rule issued_cong) simp
    have w: "ConnectRequest port c \<in> set (tu_wire t q) \<Longrightarrow> issued t (q, port, c)" for q port c
      using that unfolding requests_issued_def by blast
    show "task \<in> set (tu_tasks t) \<or> issued ?t' task" if "task \<in> set (tu_tasks ?t')" for task
      using that w [of _ _ req] assms(2) unfolding i by (cases msg) auto
    show "ConnectRequest port c \<in> set (tu_wire t q) \<or> issued ?t' (q, port, c)" if "ConnectRequest port c \<in> set (tu_wire ?t' q)" for q port c
      using that assms(2) by (auto split: if_splits)
  qed (simp_all add: issued_def)
qed (use assms(1) in \<open>auto simp: tunnel_inv_def\<close>)

lemma inv_poll:
  assumes "tunnel_inv to_string from_str t" and "(conn_id, ds) \<in> set (tu_polling t)"
    and "resolve_pending conn_id ds (dc_pending (tu_host t)) = (ok, p')" and "set polling \<subseteq> set (tu_polling t)"
  shows "tunnel_inv to_string from_str (t\<lparr>tu_host := (tu_host t)\<lparr>dc_pending := p'\<rparr>, tu_polling := polling,
       tu_trace := Resolved conn_id ds ok # tu_trace t\<rparr>)" (is "tunnel_inv _ _ ?t'")
proof (rule inv_keep [OF assms(1)])
  have tr: "trace_ok (tu_trace t) (dc_pending (tu_host t))"
    using assms(1) by (simp add: tunnel_inv_def)
  have "pending_step (OpResolve conn_id ds) (dc_pending (tu_host t)) = (Resolved conn_id ds ok, p')"
    using assms(3) by simp
  from trace_ok_step [OF tr this] show "trace_ok (tu_trace ?t') (dc_pending (tu_host ?t'))"
    by simp
  show "requests_issued t \<Longrightarrow> requests_issued ?t'"
    by (rule requests_issued_mono) (auto simp: issued_def)
qed (use assms(2,4) in auto)

lemma inv_other:
  assumes "tunnel_inv to_string from_str t" and "run_op op (tu_host t) = Some d'" and "other_op (tu_host t) op"
    and "pending_run ops (dc_pending (tu_host t)) = (evs, dc_pending d')" and "\<not> list_ex resolves ops"
  shows "tunnel_inv to_string from_str (t\<lparr>tu_host := d', tu_trace := rev evs @ tu_trace t\<rparr>)" (is "tunnel_inv _ _ ?t'")
proof (rule inv_keep [OF assms(1)])
  show "trace_ok (tu_trace ?t') (dc_pending (tu_host ?t'))"
    using trace_ok_run [OF _ assms(4)] assms(1) by (simp add: tunnel_inv_def)
  have "set (mq_items (dc_requests d' req)) \<subseteq> set (mq_items (dc_requests (tu_host t) req))" for req
    using quiet_op [OF assms(2,3)] by (simp add: quiet_def)
  then show "requests_issued t \<Longrightarrow> requests_issued ?t'"
    by (rule_tac requests_issued_mono) (auto simp: issued_def)
qed (use run_no_resolve [OF assms(4,5)] in auto)

lemma inv_wire:
  assumes "tunnel_inv to_string from_str t"
    and "\<forall>req. set (wire' req) \<inter> {ConnectRequest port conn_id | port conn_id. True} \<subseteq> set (tu_wire t req)"
  shows "tunnel_inv to_string from_str (t\<lparr>tu_wire := wire'\<rparr>)" (is "tunnel_inv _ _ ?t'")
proof (rule inv_keep [OF assms(1)])
  show "requests_issued t \<Longrightarrow> requests_issued ?t'"
    by (rule requests_issued_mono) (use assms(2) in \<open>auto simp: issued_def\<close>)
qed (use assms(1) in \<open>auto simp: tunnel_inv_def\<close>)

lemma inv_gone:
  assumes "tunnel_inv to_string from_str t" and "set polling \<subseteq> set (tu_polling t)"
  shows "tunnel_inv to_string from_str (t\<lparr>tu_polling := polling\<rparr>)" (is "tunnel_inv _ _ ?t'")
proof (rule inv_keep [OF assms(1)])
  show "requests_issued t \<Longrightarrow> requests_issued ?t'"
    by (rule requests_issued_mono) (auto simp: issued_def)
qed (use assms in \<open>auto simp: tunnel_inv_def\<close>)

text \<open>The steps that open or read a data connection.\<close>

lemma inv_data:
  assumes "tunnel_inv to_string from_str t" and "issued t' = issued t" and "tu_clients t' = tu_clients t"
    and "tu_host t' = tu_host t" and "tu_wire t' = tu_wire t" and "set (tu_tasks t') \<subseteq> set (tu_tasks t)"
    and "tu_trace t' = tu_trace t" and "log_ok to_string from_str t'"
    and "set (hm_keys (tu_clients t)) \<inter> set (tu_named t') = {}"
  shows "tunnel_inv to_string from_str t'"
proof -
  have "requests_issued t'"
    using assms(1,6) unfolding tunnel_inv_def requests_issued_def assms(2,4,5) by blast
  then show ?thesis
    using assms(1,8,9) unfolding tunnel_inv_def assms(3,4,7) by blast
qed

lemma log_ok_open:
  assumes "log_ok to_string from_str t" and "dn_sock dn \<notin> set (sockets t)" and "tu_data t' = dn # tu_data t"
    and "tu_log t' = tu_log t" and "tu_polling t' = tu_polling t" and "tu_trace t' = tu_trace t"
    and "issued t' = issued t" and "set (tu_named t) \<subseteq> set (tu_named t')" and "origin_ok to_string from_str t' dn"
  shows "log_ok to_string from_str t'"
proof -
  have "origin_ok to_string from_str t x \<Longrightarrow> origin_ok to_string from_str t' x" for x
    by (rule origin_ok_mono [OF _ assms(8)]) (simp add: assms(7))
  moreover have "distinct (sockets t')"
    using assms(1,2) by (simp add: log_ok_def sockets_def assms(3,4))
  moreover note l = assms(1) [unfolded log_ok_def]
  ultimately show ?thesis
    using assms(9) unfolding log_ok_def assms(3-6) by (intro conjI) (use l in \<open>auto 0 3\<close>)
qed

lemma dial_written:
  assumes "spawn_connect_handler env port conn_id data_addr = (result, acts, relayed)" and "WriteLine line \<in> set acts"
  shows "fst (dial_local env port) = Inr () \<and> line = the (da_to_string env (ConnectReady conn_id)) @ [newline]"
proof -
  have "WriteLine line \<notin> set (snd (dial_local env port))"
    by (auto simp: dial_local_def split: connect_answer.splits)
  then show ?thesis
    using assms by (auto simp: spawn_connect_handler_def handle_connect_request_def Let_def
        split: prod.splits sum.splits connect_answer.splits option.splits)
qed

lemma inv_dial:
  assumes "tunnel_inv to_string from_str t" and "(req, port, conn_id) \<in> set (tu_tasks t)" and "da_to_string env = to_string"
    and "spawn_connect_handler env port conn_id data_addr = (result, acts, relayed)" and "WriteLine line \<in> set acts"
    and "sock \<notin> set (sockets t)" and "clean r" and "stream r = line @ payload"
  shows "tunnel_inv to_string from_str (t\<lparr>tu_tasks := remove1 (req, port, conn_id) (tu_tasks t),
       tu_data := \<lparr>dn_sock = sock, dn_reader = r, dn_origin = Some (req, port, conn_id, env), dn_payload = payload\<rparr> # tu_data t\<rparr>)"
    (is "tunnel_inv _ _ ?t'")
proof (rule inv_data [OF assms(1)])
  show i: "issued ?t' = issued t"
    by (rule issued_cong) simp
  have "issued t (req, port, conn_id)"
    using assms(1,2) unfolding tunnel_inv_def requests_issued_def by blast
  then have o: "origin_ok to_string from_str ?t' \<lparr>dn_sock = sock, dn_reader = r, dn_origin = Some (req, port, conn_id, env), dn_payload = payload\<rparr>"
    using dial_written [OF assms(4,5)] assms(3,7,8) unfolding origin_ok_def i by simp
  have "log_ok to_string from_str t"
    using assms(1) by (simp add: tunnel_inv_def)
  then show "log_ok to_string from_str ?t'"
    by (rule log_ok_open [OF _ _ _ _ _ _ i _ o]) (simp_all add: assms(6))
  show "set (tu_tasks ?t') \<subseteq> set (tu_tasks t)"
    using set_remove1_subset by fastforce
qed (use assms(1) in \<open>auto simp: tunnel_inv_def\<close>)

lemma inv_stranger:
  assumes "tunnel_inv to_string from_str t" and "sock \<notin> set (sockets t)"
    and "set (names from_str r) \<inter> set (hm_keys (tu_clients t)) = {}"
  shows "tunnel_inv to_string from_str (t\<lparr>tu_named := names from_str r @ tu_named t,
       tu_data := \<lparr>dn_sock = sock, dn_reader = r, dn_origin = None, dn_payload = []\<rparr> # tu_data t\<rparr>)"
    (is "tunnel_inv _ _ ?t'")
proof (rule inv_data [OF assms(1)])
  show i: "issued ?t' = issued t"
    by (rule issued_cong) simp
  have o: "origin_ok to_string from_str ?t' \<lparr>dn_sock = sock, dn_reader = r, dn_origin = None, dn_payload = []\<rparr>"
    by (simp add: origin_ok_def)
  have "log_ok to_string from_str t"
    using assms(1) by (simp add: tunnel_inv_def)
  then show "log_ok to_string from_str ?t'"
    by (rule log_ok_open [OF _ _ _ _ _ _ i _ o]) (simp_all add: assms(2))
qed (use assms(1,3) in \<open>auto simp: tunnel_inv_def\<close>)

lemma inv_read:
  assumes "tunnel_inv to_string from_str t" and "dn \<in> set (tu_data t)"
    and "read_message from_str (dn_reader dn) = (Inr (ConnectReady conn_id), r')"
    and "ds = \<lparr>ds_stream = dn_sock dn, ds_buffered = br_buf r'\<rparr>"
  shows "tunnel_inv to_string from_str (t\<lparr>tu_data := remove1 dn (tu_data t), tu_polling := (conn_id, ds) # tu_polling t,
       tu_log := (conn_id, ds, dn) # tu_log t\<rparr>)" (is "tunnel_inv _ _ ?t'")
proof (rule inv_data [OF assms(1)])
  show i: "issued ?t' = issued t"
    by (rule issued_cong) simp
  have o: "origin_ok to_string from_str ?t' x = origin_ok to_string from_str t x" for x
    unfolding origin_ok_def i by (cases "dn_origin x") simp_all
  note l = assms(1) [unfolded tunnel_inv_def log_ok_def, THEN conjunct2, THEN conjunct2, THEN conjunct1]
  have dist: "distinct (sockets ?t')"
  proof -
    obtain xs ys where "tu_data t = xs @ dn # ys" "dn \<notin> set xs"
      using split_list_first [OF assms(2)] by blast
    then show ?thesis
      using l by (auto simp: sockets_def remove1_append)
  qed
  show "log_ok to_string from_str ?t'"
    unfolding log_ok_def o
  proof (intro conjI dist)
    show "\<forall>x \<in> set (tu_data ?t'). origin_ok to_string from_str t x"
      using l by (auto dest: set_remove1_subset [THEN subsetD])
    show "\<forall>(conn_id, ds) \<in> set (tu_polling ?t'). \<exists>dn. (conn_id, ds, dn) \<in> set (tu_log ?t')"
      "\<forall>conn_id ds ok. Resolved conn_id ds ok \<in> set (tu_trace ?t') \<longrightarrow> (\<exists>dn. (conn_id, ds, dn) \<in> set (tu_log ?t'))"
      using l by (auto 0 3)
    show "\<forall>(conn_id, ds, dn) \<in> set (tu_log ?t'). origin_ok to_string from_str t dn \<and> ds_stream ds = dn_sock dn
          \<and> (\<exists>r'. read_message from_str (dn_reader dn) = (Inr (ConnectReady conn_id), r') \<and> ds_buffered ds = br_buf r')"
      using l assms(2-4) by auto
  qed
qed (use assms(1) in \<open>auto simp: tunnel_inv_def\<close>)

lemma tunnel_inv_step: "tunnel_step to_string from_str t t' \<Longrightarrow> tunnel_inv to_string from_str t \<Longrightarrow> tunnel_inv to_string from_str t'"
proof (induction rule: tunnel_step.induct)
  case (tu_poll conn_id ds t ok p')
  show ?case
    by (rule inv_poll [OF tu_poll(3,1,2)]) (simp add: set_remove1_subset)
qed (blast intro: inv_client inv_send inv_receive inv_dial inv_stranger inv_read inv_other inv_wire inv_gone)+

interpretation tunnels: inductive_invariant tunnel_init "tunnel_step to_string from_str" "tunnel_inv to_string from_str"
  for to_string from_str
  by unfold_locales (erule tunnel_inv_start, erule (1) tunnel_inv_step [rotated])

subsection \<open>Isolation\<close>

lemma delivered_logged:
  assumes "tunnel_inv to_string from_str t" and "hm_get (tu_clients t) conn_id = Some cl"
    and "os_rx (pc_chan (dc_pending (tu_host t)) (tc_rx cl))"
    and "poll_receiver (tc_rx cl) (dc_pending (tu_host t)) = Some (Delivered ds)"
  obtains dn where "(conn_id, ds, dn) \<in> set (tu_log t)"
proof -
  have tr: "trace_ok (tu_trace t) (dc_pending (tu_host t))" and reg: "Registered conn_id (tc_rx cl) \<in> set (tu_trace t)"
    and log: "log_ok to_string from_str t"
    using assms(1,2) unfolding tunnel_inv_def by blast+
  have "tc_rx cl < pc_next (dc_pending (tu_host t))"
    using tr reg unfolding trace_ok_def by blast
  then have "outcome (tu_trace t) (tc_rx cl) = Some (Delivered ds)"
    using pending_invD(8) [of "tu_trace t" "dc_pending (tu_host t)" "tc_rx cl"] tr assms(3,4) by (simp add: trace_ok_def)
  then obtain c ok where "Resolved c ds ok \<in> set (tu_trace t)" "Registered c (tc_rx cl) \<in> set (tu_trace t)"
    using outcome_delivered by blast
  moreover then have "c = conn_id"
    using tr reg unfolding trace_ok_def by blast
  ultimately show thesis
    using log that unfolding log_ok_def by blast
qed

lemma logged_origin:
  assumes "tunnel_inv to_string from_str t" and "\<forall>c \<in> set (hm_keys (tu_clients t)). ascii_codec to_string from_str (ConnectReady c)"
    and "hm_get (tu_clients t) conn_id = Some cl" and "(conn_id, ds, dn) \<in> set (tu_log t)"
  shows "\<exists>env r'. dn_sock dn = ds_stream ds \<and> dn_origin dn = Some (tc_channel cl, clc_container_port (tc_client cl), conn_id, env)
    \<and> fst (dial_local env (clc_container_port (tc_client cl))) = Inr ()
    \<and> read_message from_str (dn_reader dn) = (Inr (ConnectReady conn_id), r') \<and> ds_buffered ds @ unread r' = dn_payload dn"
proof -
  have log: "log_ok to_string from_str t" and apart: "set (hm_keys (tu_clients t)) \<inter> set (tu_named t) = {}"
    using assms(1) unfolding tunnel_inv_def by blast+
  obtain r' where o: "origin_ok to_string from_str t dn" "ds_stream ds = dn_sock dn"
    and r': "read_message from_str (dn_reader dn) = (Inr (ConnectReady conn_id), r')" "ds_buffered ds = br_buf r'"
    using log assms(4) unfolding log_ok_def by fast
  have key: "conn_id \<in> set (hm_keys (tu_clients t))"
    by (rule hm_get_key [OF assms(3)])
  have "dn_origin dn = None \<Longrightarrow> conn_id \<in> set (tu_named t)"
    using o(1) r'(1) by (simp add: origin_ok_def names_def)
  then have "dn_origin dn \<noteq> None"
    using key apart by blast
  then obtain req port c env where origin: "dn_origin dn = Some (req, port, c, env)"
    by (metis not_None_eq prod_cases4)
  then have i: "issued t (req, port, c)" "fst (dial_local env port) = Inr ()" "clean (dn_reader dn)"
    "stream (dn_reader dn) = the (to_string (ConnectReady c)) @ newline # dn_payload dn"
    using o(1) by (simp_all add: origin_ok_def)
  then obtain cl0 where "hm_get (tu_clients t) c = Some cl0"
    by (auto simp: issued_def)
  then have "ascii_codec to_string from_str (ConnectReady c)"
    using assms(2) hm_get_key by fast
  from read_message_ascii [OF this i(3,4)] r'(1) have c: "c = conn_id" and payload: "stream r' = dn_payload dn"
    by auto
  have "tc_channel cl = req" "clc_container_port (tc_client cl) = port"
    using i(1) assms(3) by (auto simp: issued_def c)
  then show ?thesis
    using origin i(2) r' o(2) payload by (intro exI [of _ env] exI [of _ r']) (simp add: c stream_def unread_def)
qed


text \<open>The instance: the connection of theory Tunnel, step by step.\<close>

definition sample_tunnel :: tunnel where
  "sample_tunnel = \<lparr>tu_host = sample_forwarded, tu_clients = [], tu_wire = (\<lambda>_. []), tu_tasks = [], tu_data = [], tu_polling = [],
     tu_named = [], tu_log = [], tu_trace = []\<rparr>"

lemma sample_idle: "mq_items (dc_requests sample_forwarded req) = []"
  by (simp add: sample_forwarded_def sample_registered_def enter_container_def Let_def sample_start_def
      host_start_def sample_config_def host_config_default_def resolve_bind_addr_def detect_docker_def)

definition sample_reader :: buf_reader where
  "sample_reader = \<lparr>br_buf = [], br_net = [Seg [CHR ''C''], Seg [newline, CHR 0xFF], Seg ''hi'']\<rparr>"

lemma sample_reader: "read_message (he_from_str ready_env) sample_reader = (Inr (ConnectReady ''c''), \<lparr>br_buf = [CHR 0xFF], br_net = [Seg ''hi'']\<rparr>)"
proof -
  have "read_line sample_reader [] = (Inr [CHR ''C'', newline], \<lparr>br_buf = [CHR 0xFF], br_net = [Seg ''hi'']\<rparr>)"
    by (simp add: sample_reader_def read_line.simps fill_buf_def consume_def utf8_ok_ascii is_ascii_def MAX_MESSAGE_SIZE_def)
  moreover have "trim_end [CHR ''C'', newline] = ''C''"
    using trim_end_newline [of "''C''"] by (simp add: utf8_ok_ascii chars_ascii is_ascii_def str_chars_def is_white_ascii)
  ultimately show ?thesis
    by (simp add: read_message_def MAX_MESSAGE_SIZE_def ready_env_def)
qed

lemma tunnel_more: "reach tunnel_init (tunnel_step to_string from_str) t \<Longrightarrow> tunnel_step to_string from_str t t' \<Longrightarrow>
   reach tunnel_init (tunnel_step to_string from_str) t'"
  by (rule reach_more)

lemma sample_tunnel_run:
  "\<exists>t :: tunnel. reach tunnel_init (tunnel_step (da_to_string sample_dial) (he_from_str ready_env)) t
    \<and> tu_clients t = [(''c'', \<lparr>tc_client = sample_client, tc_channel = 0, tc_rx = 0\<rparr>)]
    \<and> os_rx (pc_chan (dc_pending (tu_host t)) 0)
    \<and> poll_receiver 0 (dc_pending (tu_host t)) = Some (Delivered \<lparr>ds_stream = 9, ds_buffered = [CHR 0xFF]\<rparr>)"
proof -
  let ?step = "tunnel_step (da_to_string sample_dial) (he_from_str ready_env)"
  let ?reach = "reach tunnel_init ?step"
  let ?ds = "\<lparr>ds_stream = 9, ds_buffered = [CHR 0xFF]\<rparr>"
  let ?cl = "\<lparr>tc_client = sample_client, tc_channel = 0, tc_rx = 0\<rparr>"
  have 0: "?reach sample_tunnel"
    by (rule reach_start) (simp add: tunnel_init_def sample_tunnel_def sample_forwarded_free sample_idle)
  obtain d1 where b: "client_begin ''c'' sample_client sample_forwarded = (Some (''a'', 3, 0), d1)"
    using sample_begin by blast
  note begun = client_begin_some [OF b sample_forwarded_free(3)]
  have "?step sample_tunnel (sample_tunnel\<lparr>tu_host := d1, tu_clients := hm_insert ''c'' \<lparr>tc_client = sample_client,
      tc_channel = con_connect_request_tx (sample_container [(3000, sample_forward)]), tc_rx = 0\<rparr> (tu_clients sample_tunnel),
      tu_trace := Registered ''c'' 0 # tu_trace sample_tunnel\<rparr>)"
    by (rule tu_client [where cid = "''a''" and trk = 3]) (use b sample_forwarded_free(3) in \<open>simp_all add: sample_tunnel_def\<close>)
  from tunnel_more [OF 0 this]
  obtain t1 where 1: "?reach t1" "tu_host t1 = d1" "tu_clients t1 = [(''c'', ?cl)]" "tu_wire t1 = (\<lambda>_. [])" "tu_tasks t1 = []"
    "tu_data t1 = []" "tu_log t1 = []" "tu_polling t1 = []"
    by (force simp: sample_tunnel_def sample_container_def)
  let ?r = "\<lparr>ocr_port = 3000, ocr_conn_id = ''c''\<rparr>"
  have q: "mq_items (dc_requests d1 0) = [?r]"
    using begun sample_forwarded_free(2) by (auto simp: sample_container_def sample_client_def)
  have f: "fits (he_to_string ready_env) (\<lambda>_. Some (ConnectRequest 3000 ''c'')) (ConnectRequest (ocr_port ?r) (ocr_conn_id ?r))"
    by (simp add: fits_def MAX_MESSAGE_SIZE_def codec_ok_def ready_env_def sample_env_def utf8_ok_ascii is_ascii_def
      str_chars_def chars_ascii is_white_ascii)
  obtain conn1 d2 where s: "handle_container_messages ''a'' 1 0 1 [LoopRequest 0 ready_env] 0 (sample_conn []) d1 = Some (Running 0, conn1, d2)"
    "dc_pending d2 = dc_pending d1"
    using request_sent [OF q _ f, of "sample_conn []" "''a''" 1 1 0 0] by (auto simp: sample_conn_def control_connection_new_def)
  obtain t2 where 2: "?reach t2" "dc_pending (tu_host t2) = dc_pending d1" "tu_clients t2 = [(''c'', ?cl)]" "tu_wire t2 0 = [ConnectRequest 3000 ''c'']"
    "tu_tasks t2 = []" "tu_data t2 = []" "tu_log t2 = []" "tu_polling t2 = []"
    using tunnel_more [OF 1(1) tu_send [of t1 0 ?r "[]" "''a''" 1 1 0 ready_env 0 "sample_conn []" 0 conn1 d2 "[]" "[]"]] q s 1(2-)
    by simp
  obtain t3 where 3: "?reach t3" "dc_pending (tu_host t3) = dc_pending d1" "tu_clients t3 = [(''c'', ?cl)]"
    "tu_tasks t3 = [(0, 3000, ''c'')]" "tu_data t3 = []" "tu_log t3 = []" "tu_polling t3 = []"
    using tunnel_more [OF 2(1) tu_receive [of t2 0 "ConnectRequest 3000 ''c''" "[]"]] 2(2-) by simp
  have spawn: "spawn_connect_handler sample_dial 3000 ''c'' (V4 [127, 0, 0, 1] 19286) = (Inr (), [DialLocal4 3000, DialLocal6 3000, DialData (V4 [127, 0, 0, 1] 19286), WriteLine [CHR ''C'', newline], FlushLine, CopyBoth], [])"
    by (simp add: spawn_connect_handler_def handle_connect_request_def sample_dial_def dial_local_def)
  let ?dn = "\<lparr>dn_sock = 9, dn_reader = sample_reader, dn_origin = Some (0, 3000, ''c'', sample_dial), dn_payload = [CHR 0xFF, CHR ''h'', CHR ''i'']\<rparr>"
  have r: "clean sample_reader" "stream sample_reader = [CHR ''C'', newline] @ [CHR 0xFF, CHR ''h'', CHR ''i'']"
    by (simp_all add: sample_reader_def clean_def stream_def)
  obtain t4 where 4: "?reach t4" "dc_pending (tu_host t4) = dc_pending d1" "tu_clients t4 = [(''c'', ?cl)]"
    "tu_data t4 = [?dn]" "tu_log t4 = []" "tu_polling t4 = []"
    using tunnel_more [OF 3(1) tu_dial [OF _ _ spawn _ _ _ r, of 0 t3 _ 9]] 3(2-) by (simp add: sockets_def)
  obtain t5 where 5: "?reach t5" "dc_pending (tu_host t5) = dc_pending d1" "tu_clients t5 = [(''c'', ?cl)]" "tu_polling t5 = [(''c'', ?ds)]"
    using tunnel_more [OF 4(1) tu_read [of ?dn t4 "he_from_str ready_env" "''c''" "\<lparr>br_buf = [CHR 0xFF], br_net = [Seg ''hi'']\<rparr>" ?ds]] 4(2-) sample_reader
    by (simp add: MAX_CONN_ID_LENGTH_def)
  have w: "hm_get (pc_map (dc_pending d1)) ''c'' = Some 0" "os_rx (pc_chan (dc_pending d1) 0)"
    using begun register_pending_ready by blast+
  then have p: "resolve_pending ''c'' ?ds (dc_pending (tu_host t5)) = (True, (dc_pending d1)\<lparr>pc_map := hm_remove ''c'' (pc_map (dc_pending d1)),
      pc_chan := (pc_chan (dc_pending d1))(0 := (pc_chan (dc_pending d1) 0)\<lparr>os_value := Some ?ds, os_tx := False\<rparr>)\<rparr>)"
    by (simp add: 5(2) resolve_pending_def take_sender_def oneshot_send_def)
  show ?thesis
    using tunnel_more [OF 5(1) tu_poll [OF _ p]] 5(3,4) w by (intro exI conjI) (force simp: poll_receiver_def)+
qed


end
