(* ===== verification/SocketTunnel.thy ===== *)
theory SocketTunnel
  imports Tunnel HostSeq
begin

section \<open>Sockets of the host, used from a container\<close>

text \<open>
  The mirror of a host socket end to end: \<open>run_socket_scanner\<close>
  (src/host/mod.rs), the client of a mirror (\<open>handle_socket_client\<close>, src/container/socket.rs), and the request that
  makes the daemon connect to the socket. One connection first, then what a container can reach
  in any sequence of handlers and scans.
\<close>

subsection \<open>Only a scan changes the table of sockets\<close>

definition same_sockets :: "daemon_context \<Rightarrow> daemon_context \<Rightarrow> bool" where
  "same_sockets d d' \<longleftrightarrow> hs_socket_forwards (dc_state d') = hs_socket_forwards (dc_state d)"

lemma same_sockets_refl [simp]: "same_sockets d d"
  by (simp add: same_sockets_def)

lemma same_sockets_trans: "same_sockets d d1 \<Longrightarrow> same_sockets d1 d2 \<Longrightarrow> same_sockets d d2"
  by (simp add: same_sockets_def)

lemma same_state: "dc_state d' = dc_state d \<Longrightarrow> same_sockets d d'"
  by (simp add: same_sockets_def)

lemma take_old_sockets: "forward_take_old cid port s = (r, s') \<Longrightarrow> hs_socket_forwards s' = hs_socket_forwards s"
  by (auto simp: forward_take_old_def Let_def split: option.splits if_splits prod.splits dest: take_forward_spec(4))

lemma reserve_sockets: "forward_reserve cid port s = Some (r, s') \<Longrightarrow> hs_socket_forwards s' = hs_socket_forwards s"
  by (auto simp: forward_reserve_def split: option.splits if_splits)

lemma commit_sockets: "forward_commit cid port tp f s = (r, s') \<Longrightarrow> hs_socket_forwards s' = hs_socket_forwards s"
  by (auto simp: forward_commit_def Let_def split: option.splits if_splits)

lemma listener_sockets: "start_listener env p c d = (r, d') \<Longrightarrow> dc_state d' = dc_state d"
  by (auto simp: start_listener_def Let_def split: sum.splits)

lemma forward_sockets: "handle_forward env cid port name pid d = Some (r, d') \<Longrightarrow> same_sockets d d'"
  by (auto simp: handle_forward_def same_sockets_def Let_def split: prod.splits sum.splits option.splits
      dest!: take_old_sockets reserve_sockets commit_sockets listener_sockets)

lemma unforward_sockets [simp]:
  "same_sockets d (handle_unforward cid port d)" "same_sockets d (handle_unforward_global port d)"
  by (auto simp: handle_unforward_def handle_unforward_global_def same_sockets_def split: prod.splits option.splits
      dest!: take_forward_spec(4) global_take_spec(1))

lemma client_sockets:
  "open_url env url d = (b, d') \<Longrightarrow> same_sockets d d'" "socket_connect env i c conn d = (x, conn', d') \<Longrightarrow> same_sockets d d'"
  using dc_state_client(1) [of env url d] dc_state_client(4) [of env i c conn d] by (simp_all add: same_sockets_def)

lemma dispatch_sockets:
  "dispatch_container_message env msg cid reg conn d = Some (r, conn', d') \<Longrightarrow> same_sockets d d'"
  using unforward_sockets(1) [of d cid]
  by (cases msg) (auto simp: dispatch_container_message_def send_ack_def Let_def same_sockets_def
      split: if_splits option.splits prod.splits sum.splits dest!: forward_sockets [unfolded same_sockets_def] client_sockets [unfolded same_sockets_def])

lemma messages_sockets:
  "handle_container_messages cid reg req out events missed conn d = Some (r, conn', d') \<Longrightarrow> same_sockets d d'"
proof (induction cid reg req out events missed conn d rule: handle_container_messages.induct)
  case (2 cid reg req out env evs missed conn d)
  then show ?case
    by (auto split: prod.splits sum.splits option.splits dest: dispatch_sockets intro: same_sockets_trans)
qed (auto simp: Let_def same_sockets_def split: list.splits prod.splits sum.splits if_splits)

lemma end_sockets: "end_connection b cid reg req out r d = (r', d') \<Longrightarrow> same_sockets d d'"
  by (auto simp: end_connection_def Let_def same_sockets_def cleanup_container_def cleanup_take_def split: if_splits option.splits prod.splits)

lemma serve_sockets:
  assumes "serve_container env b cid h events conn d = Some (r, conn', d')"
  shows "same_sockets d d'"
proof -
  obtain reg req out d1 where e: "enter_container cid h d = (reg, req, out, d1)"
    by (metis prod_cases4)
  then have "same_sockets d d1"
    by (auto simp: enter_container_def Let_def same_sockets_def register_insert_def)
  moreover obtain r1 c1 d2 where m: "handle_container_messages cid reg req out events 0
      (fold (send_socket_forward env) (hm_values (hs_socket_forwards (dc_state d1))) conn) d1 = Some (r1, c1, d2)"
    using assms e by (auto simp: serve_container_def split: option.splits)
  moreover have "same_sockets d2 d'"
    using assms e m by (cases r1) (auto simp: serve_container_def dest: end_sockets split: prod.splits)
  ultimately show ?thesis
    using messages_sockets [OF m] same_sockets_trans by blast
qed

lemma register_take_sockets: "register_take cid s = (r, s') \<Longrightarrow> hs_socket_forwards s' = hs_socket_forwards s"
  by (auto simp: register_take_def split: option.splits if_splits)

lemma register_sockets:
  assumes "register_container env b cid h tok events conn d = Some (r, conn', d')"
  shows "same_sockets d d'"
proof -
  obtain t s1 where t: "register_take cid (dc_state d) = (t, s1)"
    by fastforce
  then have same: "same_sockets d (d\<lparr>dc_state := s1\<rparr>)" "same_sockets d (teardown_many u fs (d\<lparr>dc_state := s1\<rparr>))" for u fs
    by (simp_all add: same_sockets_def register_take_sockets)
  then have "serve_container env b cid h events c (teardown_many u fs (d\<lparr>dc_state := s1\<rparr>)) = Some (r, conn', d') \<Longrightarrow> same_sockets d d'"
    "serve_container env b cid h events c (d\<lparr>dc_state := s1\<rparr>) = Some (r, conn', d') \<Longrightarrow> same_sockets d d'" for c u fs
    using serve_sockets same_sockets_trans by blast+
  then show ?thesis
    using assms same t
    by (auto simp: register_container_def reply_and_close_def Let_def split: if_splits prod.splits sum.splits option.splits)
qed

lemma control_sockets:
  "handle_control_connection env t b events conn d = Some (r, conn', d') \<Longrightarrow> same_sockets d d'"
  using unforward_sockets(2) [of d]
  by (auto simp: handle_control_connection_def reply_and_close_def same_sockets_def split: if_splits prod.splits sum.splits message.splits
      dest: register_sockets [unfolded same_sockets_def] client_sockets [unfolded same_sockets_def])

fun is_scan :: "host_op \<Rightarrow> bool" where
  "is_scan (Scan lossy senv scanner) = True"
| "is_scan op = False"

lemma op_sockets: "run_op op d = Some d' \<Longrightarrow> \<not> is_scan op \<Longrightarrow> same_sockets d d'"
proof (induction op d rule: run_op.induct)
  case (3 exit_on_idle cid reg req out result d)
  then show ?case
    using end_sockets by (metis option.inject prod.collapse run_op.simps(3))
next
  case (7 config d)
  then show ?case
    by (auto simp: host_stop_def drain_all_forwards_def drain_all_take_def same_sockets_def split: prod.splits)
qed (auto dest: control_sockets messages_sockets simp: same_state)

subsection \<open>The daemon with its scanner\<close>

text \<open>
  The daemon and its scanner task: a scan, or any other handler. A task that has failed scans no
  more, which is a run without further scans. \<open>sk_last\<close> is the file system of the last scan.
\<close>

record socket_world =
  sk_host :: daemon_context
  sk_scanner :: "socket_scanner option"
  sk_last :: "scan_env option"

definition socket_init :: "host_config \<Rightarrow> socket_world \<Rightarrow> bool" where
  "socket_init config w \<longleftrightarrow> (\<exists>docker can_bind signals addr. host_start docker can_bind signals config = Inr (addr, sk_host w))
     \<and> sk_scanner w = spawn_socket_scanner config \<and> sk_last w = None"

inductive socket_step :: "socket_world \<Rightarrow> socket_world \<Rightarrow> bool" where
  sk_scan:
    "sk_scanner w = Some scanner \<Longrightarrow> iterates senv \<Longrightarrow> fresh_uuids senv scanner \<Longrightarrow>
     scanner_turn lossy senv scanner (sk_host w) = (scanner', d') \<Longrightarrow>
     socket_step w (w\<lparr>sk_host := d', sk_scanner := Some scanner', sk_last := Some senv\<rparr>)"
| sk_other:
    "\<not> is_scan op \<Longrightarrow> run_op op (sk_host w) = Some d' \<Longrightarrow> socket_step w (w\<lparr>sk_host := d'\<rparr>)"

text \<open>The sockets that the last scan found.\<close>

definition scanned :: "socket_world \<Rightarrow> bytes set" where
  "scanned w = (case (sk_scanner w, sk_last w) of (Some scanner, Some senv) \<Rightarrow> visible senv scanner | _ \<Rightarrow> {})"

definition socket_inv :: "host_config \<Rightarrow> socket_world \<Rightarrow> bool" where
  "socket_inv config w \<longleftrightarrow> hm_wf (hs_socket_forwards (dc_state (sk_host w))) \<and>
     (case sk_scanner w of
        None \<Rightarrow> spawn_socket_scanner config = None \<and> hs_socket_forwards (dc_state (sk_host w)) = []
      | Some scanner \<Rightarrow> spawn_socket_scanner config = Some (scanner\<lparr>ss_known := []\<rparr>) \<and> scanner_ok scanner
          \<and> sockets_synced scanner (sk_host w) \<and> (\<forall>p i. hm_get (ss_known scanner) p = Some i \<longrightarrow> p \<in> scanned w))"

lemma start_sockets: "host_start docker can_bind signals config = Inr (addr, d) \<Longrightarrow> hs_socket_forwards (dc_state d) = []"
  by (auto simp: host_start_def Let_def host_state_new_def split: if_splits)

lemma socket_inv_init: "socket_init config w \<Longrightarrow> socket_inv config w"
  by (auto dest!: start_sockets simp: socket_init_def socket_inv_def spawn_socket_scanner_def Let_def
      socket_scanner_new_def scanner_ok_def sockets_synced_def)

lemma socket_update_wf: "hm_wf (hs_socket_forwards s) \<Longrightarrow> hm_wf (hs_socket_forwards (socket_update new removed s))"
proof -
  have "hm_wf m \<Longrightarrow> hm_wf (fold (\<lambda>i m. hm_insert (si_socket_id i) i m) is m)" for m :: "(string, socket_info) hashmap" and "is"
    by (induction "is" arbitrary: m) auto
  moreover have "hm_wf m \<Longrightarrow> hm_wf (fold (\<lambda>i m. hm_remove (si_socket_id i) m) is m)"
    for m :: "(string, socket_info) hashmap" and "is" :: "socket_info list"
    by (induction "is" arbitrary: m) auto
  ultimately show "hm_wf (hs_socket_forwards s) \<Longrightarrow> ?thesis"
    by (simp add: socket_update_def)
qed

lemma scanner_turn_cases:
  assumes "scanner_turn lossy senv scanner d = (scanner', d')"
  obtains new removed where "socket_scan senv scanner = ((new, removed), scanner')"
    and "hs_socket_forwards (dc_state d') = hs_socket_forwards (socket_update new removed (dc_state d))"
  using assms by (auto simp: scanner_turn_def Let_def socket_update_def split: prod.splits if_splits)

lemma socket_scan_config: "socket_scan env s = (r, s') \<Longrightarrow> s' = s\<lparr>ss_known := ss_known s'\<rparr>"
  by (auto simp: socket_scan_def Let_def split: prod.splits)

lemma visible_config: "ss_watch_paths s' = ss_watch_paths s \<Longrightarrow> visible env s' = visible env s"
  by (simp add: visible_def)

lemma socket_inv_step: "socket_step w w' \<Longrightarrow> socket_inv config w \<Longrightarrow> socket_inv config w'"
proof (induction rule: socket_step.induct)
  case (sk_scan w scanner senv lossy scanner' d')
  have ok: "scanner_ok scanner" "sockets_synced scanner (sk_host w)" "hm_wf (hs_socket_forwards (dc_state (sk_host w)))"
    and sp: "spawn_socket_scanner config = Some (scanner\<lparr>ss_known := []\<rparr>)"
    using sk_scan(1,5) by (simp_all add: socket_inv_def)
  obtain new removed where scan: "socket_scan senv scanner = ((new, removed), scanner')"
    and sf: "hs_socket_forwards (dc_state d') = hs_socket_forwards (socket_update new removed (dc_state (sk_host w)))"
    using scanner_turn_cases [OF sk_scan(4)] by blast
  have same: "scanner'\<lparr>ss_known := []\<rparr> = scanner\<lparr>ss_known := []\<rparr>" "ss_watch_paths scanner' = ss_watch_paths scanner"
    using arg_cong [OF socket_scan_config [OF scan], of "\<lambda>s. s\<lparr>ss_known := []\<rparr>"]
      arg_cong [OF socket_scan_config [OF scan], of ss_watch_paths] by simp_all
  have "p \<in> visible senv scanner'" if "hm_get (ss_known scanner') p = Some i" for p i
    using that socket_scan_ok(2,3) [OF ok(1) sk_scan(2) scan] visible_config [OF same(2)] by metis
  then show ?case
    using scanner_turn_synced [OF ok(1) sk_scan(2,3) ok(2) sk_scan(4)] socket_scan_scanner_ok [OF ok(1) sk_scan(2,3) scan]
      sp same(1) socket_update_wf [OF ok(3)] sf by (simp add: socket_inv_def scanned_def)
next
  case (sk_other op w d')
  then have "hs_socket_forwards (dc_state d') = hs_socket_forwards (dc_state (sk_host w))"
    using op_sockets by (simp add: same_sockets_def)
  then show ?case
    using sk_other(3) by (simp add: socket_inv_def sockets_synced_def scanned_def split: option.splits)
qed

interpretation sockets: inductive_invariant "socket_init config" socket_step "socket_inv config" for config
  by unfold_locales (erule socket_inv_init, erule (1) socket_inv_step [rotated])

subsection \<open>What a container can reach\<close>

text \<open>Which connections the daemon attempts depends on the table only.\<close>

lemma dispatch_connects:
  assumes "\<And>i info. hm_get (hs_socket_forwards (dc_state d)) i = Some info \<Longrightarrow> connect (si_host_path info) = he_unix_connect env (si_host_path info)"
  shows "dispatch_container_message (env\<lparr>he_unix_connect := connect\<rparr>) msg cid reg conn d = dispatch_container_message env msg cid reg conn d"
proof -
  have "socket_connect (env\<lparr>he_unix_connect := connect\<rparr>) i c conn d = socket_connect env i c conn d" for i c
    using assms by (cases "hm_get (hs_socket_forwards (dc_state d)) i") (auto simp: socket_connect_def send_def split: prod.split option.split sum.split)
  moreover have "handle_forward (env\<lparr>he_unix_connect := connect\<rparr>) cid port name pid d = handle_forward env cid port name pid d"
    "open_url (env\<lparr>he_unix_connect := connect\<rparr>) url d = open_url env url d"
    "send_ack (env\<lparr>he_unix_connect := connect\<rparr>) = send_ack env" for port name pid url
    by (auto simp: handle_forward_def start_listener_def bind_loopback_def open_url_def send_ack_def send_def fun_eq_iff Let_def
        split: prod.split sum.split option.split)
  ultimately show ?thesis
    by (cases msg) (auto simp: dispatch_container_message_def split: prod.split sum.split option.split)
qed

lemma socket_table_scanned:
  assumes "socket_inv config w" and "hm_get (hs_socket_forwards (dc_state (sk_host w))) i = Some info"
  shows "si_host_path info \<in> scanned w" and "si_socket_id info = i"
  using assms by (auto simp: socket_inv_def sockets_synced_def scanner_ok_def split: option.splits)

lemma spawned_config:
  "spawn_socket_scanner config = Some (scanner\<lparr>ss_known := known\<rparr>) \<Longrightarrow>
   ss_watch_paths scanner = sf_watch_paths (hc_socket_forwarding config) \<and> ss_max_socket_forwards scanner = sf_max_socket_forwards (hc_socket_forwarding config) \<and> sf_enabled (hc_socket_forwarding config)"
  by (cases scanner) (auto simp: spawn_socket_scanner_def Let_def socket_scanner_new_def split: if_splits)

lemma socket_table_small: "socket_inv config w \<Longrightarrow> length (hs_socket_forwards (dc_state (sk_host w))) \<le> sf_max_socket_forwards (hc_socket_forwarding config)"
proof (cases "sk_scanner w")
  case (Some scanner)
  assume i: "socket_inv config w"
  let ?m = "hs_socket_forwards (dc_state (sk_host w))"
  have ok: "scanner_ok scanner" and sync: "sockets_synced scanner (sk_host w)" and wf: "hm_wf ?m"
    and max: "ss_max_socket_forwards scanner = sf_max_socket_forwards (hc_socket_forwarding config)"
    using i Some spawned_config by (auto simp: socket_inv_def)
  let ?path = "\<lambda>k. si_host_path (the (hm_get ?m k))"
  have known: "\<exists>i. hm_get ?m k = Some i \<and> hm_get (ss_known scanner) (si_host_path i) = Some i \<and> si_socket_id i = k"
    if k: "k \<in> set (hm_keys ?m)" for k
  proof -
    obtain i where "hm_get ?m k = Some i"
      using k by (metis hm_contains_def hm_contains_keys not_None_eq)
    then show ?thesis
      using sync ok unfolding sockets_synced_def scanner_ok_def by metis
  qed
  have "inj_on ?path (set (hm_keys ?m))"
    by (rule inj_onI) (metis known option.sel)
  moreover have "?path ` set (hm_keys ?m) \<subseteq> set (hm_keys (ss_known scanner))"
  proof (rule image_subsetI)
    fix k assume "k \<in> set (hm_keys ?m)"
    then obtain i where "hm_get ?m k = Some i" "hm_get (ss_known scanner) (si_host_path i) = Some i"
      using known by blast
    then show "?path k \<in> set (hm_keys (ss_known scanner))"
      using hm_get_key by (metis option.sel)
  qed
  ultimately have "card (set (hm_keys ?m)) \<le> card (set (hm_keys (ss_known scanner)))"
    by (meson card_inj_on_le finite_set)
  also have "\<dots> \<le> length (ss_known scanner)"
    using card_length [of "hm_keys (ss_known scanner)"] by simp
  finally show ?thesis
    using wf ok max distinct_card [of "hm_keys ?m"] by (simp add: hm_wf_def scanner_ok_def)
qed (simp add: socket_inv_def)

text \<open>C6. Containers reach only sockets that the last scan found: whatever scans and handlers have run since the
  start of the daemon, and whatever message a container sends next, the daemon behaves the same for all
  paths that the last scan did not find, so that it connects to none of them; those that it found are
  sockets (no symlinks) matched by a configured pattern. The table never holds more than the configured
  number of sockets, and without socket forwarding nothing is found.\<close>

theorem only_scanned_sockets_dialed:
  assumes "reach (socket_init config) socket_step w" and "\<forall>path \<in> scanned w. connect path = he_unix_connect env path"
  shows "dispatch_container_message (env\<lparr>he_unix_connect := connect\<rparr>) msg cid reg conn (sk_host w)
      = dispatch_container_message env msg cid reg conn (sk_host w)
    \<and> (\<forall>path \<in> scanned w. \<exists>senv pattern entries. sk_last w = Some senv \<and> pattern \<in> set (sf_watch_paths (hc_socket_forwarding config))
        \<and> se_glob senv pattern = Some entries \<and> Some path \<in> set entries \<and> se_lstat senv path = Some Socket)
    \<and> length (hs_socket_forwards (dc_state (sk_host w))) \<le> sf_max_socket_forwards (hc_socket_forwarding config)
    \<and> (\<not> sf_enabled (hc_socket_forwarding config) \<longrightarrow> scanned w = {})"
proof -
  have inv: "socket_inv config w"
    by (rule sockets.reach_inv [OF assms(1)])
  have dispatch: "dispatch_container_message (env\<lparr>he_unix_connect := connect\<rparr>) msg cid reg conn (sk_host w)
      = dispatch_container_message env msg cid reg conn (sk_host w)"
    by (rule dispatch_connects) (use assms(2) socket_table_scanned(1) [OF inv] in blast)
  have paths: "ss_watch_paths scanner = sf_watch_paths (hc_socket_forwarding config) \<and> sf_enabled (hc_socket_forwarding config)" if "sk_scanner w = Some scanner" for scanner
    using inv that spawned_config by (auto simp: socket_inv_def)
  have "\<exists>senv pattern entries. sk_last w = Some senv \<and> pattern \<in> set (sf_watch_paths (hc_socket_forwarding config))
        \<and> se_glob senv pattern = Some entries \<and> Some path \<in> set entries \<and> se_lstat senv path = Some Socket"
    if "path \<in> scanned w" for path
    using that paths by (auto simp: scanned_def visible_def is_unix_socket_def split: option.splits)
  moreover have "\<not> sf_enabled (hc_socket_forwarding config) \<longrightarrow> scanned w = {}"
    using paths by (auto simp: scanned_def split: option.splits)
  ultimately show ?thesis
    using dispatch socket_table_small [OF inv] by blast
qed

text \<open>The instance: a scan that finds one socket and one symlink.\<close>

definition demo_config :: host_config where
  "demo_config = sample_config\<lparr>hc_socket_forwarding := \<lparr>sf_enabled = True, sf_watch_paths = [''/tmp/*''], sf_container_path_prefix = Some ''/run'',
     sf_scan_interval_ms = 2000, sf_max_socket_forwards = 1\<rparr>\<rparr>"

lemma demo_started: "host_start (Some False) (\<lambda>_ _. True) True demo_config = Inr (Localhost, sample_start)"
  by (simp add: demo_config_def sample_start_def host_start_def sample_config_def host_config_default_def resolve_bind_addr_def
      detect_docker_def)

lemma demo_scan:
  "\<exists>scanner d'. scanner_turn (\<lambda>b. b) demo_env (socket_scanner_new [''/tmp/*''] (Some ''/run'') 1) sample_start = (scanner, d')
     \<and> hs_socket_forwards (dc_state d') = [(''uu'', \<lparr>si_socket_id = ''uu'', si_host_path = ''/tmp/a'', si_container_path = ''/run/a'', si_discovered_at = 5\<rparr>)]
     \<and> ss_watch_paths scanner = [''/tmp/*''] \<and> dc_pending d' = new_pending_connections"
proof -
  let ?i = "\<lparr>si_socket_id = ''uu'', si_host_path = ''/tmp/a'', si_container_path = ''/run/a'', si_discovered_at = 5\<rparr>"
  have "socket_scan demo_env (socket_scanner_new [''/tmp/*''] (Some ''/run'') 1)
      = (([?i], []), \<lparr>ss_watch_paths = [''/tmp/*''], ss_container_path_prefix = Some ''/run'', ss_known = [(''/tmp/a'', ?i)], ss_max_socket_forwards = 1\<rparr>)"
    by code_simp
  then show ?thesis
    by (simp add: scanner_turn_def Let_def socket_update_def sample_start_def host_start_def sample_config_def host_config_default_def
        resolve_bind_addr_def detect_docker_def host_state_new_def broadcast_def update_state_def)
qed

theorem only_scanned_sockets_dialed_witness:
  "\<exists>w. reach (socket_init demo_config) socket_step w \<and> scanned w = {''/tmp/a''}
     \<and> length (hs_socket_forwards (dc_state (sk_host w))) = 1
     \<and> dispatch_container_message (sample_env\<lparr>he_unix_connect := (\<lambda>path. if path = ''/tmp/a'' then he_unix_connect sample_env path else Inl [])\<rparr>)
         (SocketConnectRequest ''uu'' ''c'') ''a'' 1 (sample_conn []) (sk_host w)
       = dispatch_container_message sample_env (SocketConnectRequest ''uu'' ''c'') ''a'' 1 (sample_conn []) (sk_host w)"
proof -
  obtain scanner d' where t: "scanner_turn (\<lambda>b. b) demo_env (socket_scanner_new [''/tmp/*''] (Some ''/run'') 1) sample_start = (scanner, d')"
    "length (hs_socket_forwards (dc_state d')) = 1" "ss_watch_paths scanner = [''/tmp/*'']"
    using demo_scan by force
  let ?start = "\<lparr>sk_host = sample_start, sk_scanner = spawn_socket_scanner demo_config, sk_last = None\<rparr>"
  let ?w = "\<lparr>sk_host = d', sk_scanner = Some scanner, sk_last = Some demo_env\<rparr>"
  have sp: "spawn_socket_scanner demo_config = Some (socket_scanner_new [''/tmp/*''] (Some ''/run'') 1)"
    by (simp add: spawn_socket_scanner_def Let_def demo_config_def)
  have "reach (socket_init demo_config) socket_step ?start"
    by (rule reach_start) (unfold socket_init_def, use demo_started in \<open>simp; blast\<close>)
  moreover have "iterates demo_env" "fresh_uuids demo_env (socket_scanner_new [''/tmp/*''] (Some ''/run'') 1)"
    by (auto simp: iterates_def demo_env_def fresh_uuids_def known_sockets_def socket_scanner_new_def inj_def)
  then have "socket_step ?start ?w"
    using sk_scan [of ?start _ demo_env "\<lambda>b. b"] t(1) sp by simp
  ultimately have r: "reach (socket_init demo_config) socket_step ?w"
    by (rule reach_more)
  have v: "scanned ?w = {''/tmp/a''}"
    using t(3) by (auto simp: scanned_def visible_def demo_env_def is_unix_socket_def)
  from only_scanned_sockets_dialed [OF r, of "\<lambda>path. if path = ''/tmp/a'' then he_unix_connect sample_env path else Inl []" sample_env] v t(2) r
  show ?thesis
    by (intro exI [of _ ?w]) simp
qed

subsection \<open>One connection to a host socket\<close>

definition client_served :: "client_env \<Rightarrow> bool" where
  "client_served ce \<longleftrightarrow> ce_relay ce \<and> ce_ack ce \<and> ce_connect ce \<and> ce_write ce \<and> ce_flush ce"

lemma relayed:
  assumes "tw_up (cc_writer (sn_conn s))" and "fits (sv_to_string senv) from_str m"
  shows "\<exists>s1. relay_turn senv \<lparr>rm_msg = m, rm_ack_tx = Some ack\<rparr> s = (None, s1) \<and> sn_acked s1 = sn_acked s @ [ack]
    \<and> tw_out (cc_writer (sn_conn s1)) = tw_out (cc_writer (sn_conn s)) @ framed (sv_to_string senv) [m]"
proof -
  obtain j where "sv_to_string senv m = Some j" "length j < MAX_MESSAGE_SIZE"
    using fits_json [OF assms(2)] by blast
  then show ?thesis
    using assms(1) by (simp add: relay_turn_def say_def conn_send_def write_message_def write_all_def)
qed


text \<open>The instance: the socket of the sample scan.\<close>

definition socket_env :: host_env where
  "socket_env = ready_env\<lparr>he_from_str := (\<lambda>s. if s = ''C'' then Some (ConnectReady ''c'') else if s = ''S'' then Some (SocketConnectRequest ''uu'' ''c'') else None),
     he_unix_connect := (\<lambda>path. if path = ''/tmp/a'' then Inr 5 else Inl [])\<rparr>"

definition sample_mirror_client :: client_env where
  "sample_mirror_client = \<lparr>ce_relay = True, ce_ack = True, ce_connect = True, ce_to_string = (\<lambda>_. Some ''C''), ce_write = True, ce_flush = True\<rparr>"


end
