(* ===== verification/Auth.thy ===== *)
theory Auth
  imports Control RustPath
begin

section \<open>Authentication tokens (src/auth.rs)\<close>

text \<open>
  Generation, storage and resolution of tokens. The files are a map from paths (their components) to
  contents and permission bits, the directories a map to permission bits; what the system
  may refuse, and the random bytes, are the record \<open>auth_env\<close>.
\<close>

definition TOKEN_HEX_LENGTH :: nat where "TOKEN_HEX_LENGTH = 64"
definition TOKEN_BYTE_LENGTH :: nat where "TOKEN_BYTE_LENGTH = 32"
definition TOKEN_FILE_NAME :: string where "TOKEN_FILE_NAME = ''auth-token''"

type_synonym path = "component list"

datatype auth_error =
    AuthIo io_error
  | InvalidToken nat
  | TokenNotFound path
  | NoTokenSource path

record token_fs =
  tf_files :: "(path, string \<times> nat) hashmap"
  tf_dirs :: "(path, nat) hashmap"

record auth_env =
  ae_random :: "8 word list option"
  ae_read :: "path \<Rightarrow> io_error option"
  ae_create_dir :: "io_error option"
  ae_chmod_dir :: "io_error option"
  ae_write :: "(io_error \<times> nat) option"
  ae_chmod_file :: "io_error option"
  ae_file_mode :: nat
  ae_dir_mode :: nat

subsection \<open>Operations\<close>

definition config_dir :: "bytes option \<Rightarrow> auth_error + path" where
  "config_dir home =
     (case home of
        None \<Rightarrow> Inl (AuthIo NotFound)
      | Some h \<Rightarrow> Inr (components (path_join (path_join h ''.config'') ''dbr'')))"

definition token_file_path :: "bytes option \<Rightarrow> auth_error + path" where
  "token_file_path home = res_bind (config_dir home) (\<lambda>dir. Inr (dir @ [Normal TOKEN_FILE_NAME]))"

definition validate_token_format :: "string \<Rightarrow> bool" where
  "validate_token_format token \<longleftrightarrow> length token = TOKEN_HEX_LENGTH \<and> list_all is_ascii_hexdigit token"

definition hex_digit :: "nat \<Rightarrow> char" where
  "hex_digit n = (if n < 10 then char_of (48 + n) else char_of (87 + n))"

definition hex_encode :: "8 word list \<Rightarrow> string" where
  "hex_encode bs = concat (map (\<lambda>b. [hex_digit (unat b div 16), hex_digit (unat b mod 16)]) bs)"

definition generate_token :: "auth_env \<Rightarrow> auth_error + string" where
  "generate_token env =
     (case ae_random env of None \<Rightarrow> Inl (AuthIo OtherIo) | Some bs \<Rightarrow> Inr (hex_encode bs))"

definition read_to_string :: "auth_env \<Rightarrow> path \<Rightarrow> token_fs \<Rightarrow> io_error + string" where
  "read_to_string env p fs =
     (case ae_read env p of
        Some e \<Rightarrow> Inl e
      | None \<Rightarrow>
          (case hm_get (tf_files fs) p of
             None \<Rightarrow> Inl NotFound
           | Some (contents, _) \<Rightarrow> if utf8_ok contents then Inr contents else Inl InvalidData))"

definition read_token_file :: "auth_env \<Rightarrow> path \<Rightarrow> token_fs \<Rightarrow> auth_error + string" where
  "read_token_file env p fs =
     (case read_to_string env p fs of
        Inr contents \<Rightarrow>
          let token = trim contents in
          if \<not> validate_token_format token then Inl (InvalidToken (length token)) else Inr token
      | Inl e \<Rightarrow> if e = NotFound then Inl (TokenNotFound p) else Inl (AuthIo e))"

text \<open>\<open>fs::write\<close> truncates a file or makes one; a failing write leaves a part of the contents.\<close>

definition write_file :: "auth_env \<Rightarrow> path \<Rightarrow> string \<Rightarrow> token_fs \<Rightarrow> (io_error + unit) \<times> token_fs" where
  "write_file env p contents fs =
     (let mode = (case hm_get (tf_files fs) p of Some (_, m) \<Rightarrow> m | None \<Rightarrow> ae_file_mode env) in
      case ae_write env of
        None \<Rightarrow> (Inr (), fs\<lparr>tf_files := hm_insert p (contents, mode) (tf_files fs)\<rparr>)
      | Some (e, n) \<Rightarrow> (Inl e, fs\<lparr>tf_files := hm_insert p (take n contents, mode) (tf_files fs)\<rparr>))"

definition set_file_permissions :: "auth_env \<Rightarrow> path \<Rightarrow> token_fs \<Rightarrow> (io_error + unit) \<times> token_fs" where
  "set_file_permissions env p fs =
     (case ae_chmod_file env of
        Some e \<Rightarrow> (Inl e, fs)
      | None \<Rightarrow>
          (case hm_get (tf_files fs) p of
             None \<Rightarrow> (Inl NotFound, fs)
           | Some (contents, _) \<Rightarrow> (Inr (), fs\<lparr>tf_files := hm_insert p (contents, 6 * 64) (tf_files fs)\<rparr>)))"

text \<open>The directory of the file and those above it are made, and the directory is closed to others.\<close>

definition make_parent :: "auth_env \<Rightarrow> path \<Rightarrow> token_fs \<Rightarrow> (io_error + unit) \<times> token_fs" where
  "make_parent env p fs =
     (case parent_of p of
        None \<Rightarrow> (Inr (), fs)
      | Some parent \<Rightarrow>
          (case ae_create_dir env of
             Some e \<Rightarrow> (Inl e, fs)
           | None \<Rightarrow>
               let made = fold (\<lambda>n dirs. if hm_contains dirs (take n parent) then dirs else hm_insert (take n parent) (ae_dir_mode env) dirs)
                              [1..<Suc (length parent)] (tf_dirs fs);
                   fs1 = fs\<lparr>tf_dirs := made\<rparr>
               in case ae_chmod_dir env of
                    Some e \<Rightarrow> (Inl e, fs1)
                  | None \<Rightarrow> (Inr (), fs1\<lparr>tf_dirs := hm_insert parent (7 * 64) made\<rparr>)))"

definition write_token_file :: "auth_env \<Rightarrow> path \<Rightarrow> string \<Rightarrow> token_fs \<Rightarrow> (auth_error + unit) \<times> token_fs" where
  "write_token_file env p token fs =
     (if \<not> validate_token_format token then (Inl (InvalidToken (length token)), fs)
      else (case make_parent env p fs of
              (Inl e, fs1) \<Rightarrow> (Inl (AuthIo e), fs1)
            | (Inr _, fs1) \<Rightarrow>
                (case write_file env p (token @ [newline]) fs1 of
                   (Inl e, fs2) \<Rightarrow> (Inl (AuthIo e), fs2)
                 | (Inr _, fs2) \<Rightarrow>
                     (case set_file_permissions env p fs2 of
                        (Inl e, fs3) \<Rightarrow> (Inl (AuthIo e), fs3)
                      | (Inr _, fs3) \<Rightarrow> (Inr (), fs3)))))"

definition ensure_token :: "auth_env \<Rightarrow> path \<Rightarrow> token_fs \<Rightarrow> (auth_error + string) \<times> token_fs" where
  "ensure_token env p fs =
     (case read_token_file env p fs of
        Inr token \<Rightarrow> (Inr token, fs)
      | Inl (TokenNotFound _) \<Rightarrow>
          (case generate_token env of
             Inl e \<Rightarrow> (Inl e, fs)
           | Inr token \<Rightarrow>
               (case write_token_file env p token fs of
                  (Inl e, fs1) \<Rightarrow> (Inl e, fs1)
                | (Inr _, fs1) \<Rightarrow> (Inr token, fs1)))
      | Inl e \<Rightarrow> (Inl e, fs))"

definition checked_token :: "string \<Rightarrow> auth_error + string" where
  "checked_token text =
     (let token = trim text in if \<not> validate_token_format token then Inl (InvalidToken (length token)) else Inr token)"

definition non_blank :: "string option \<Rightarrow> string option" where
  "non_blank v = (case v of Some t \<Rightarrow> if trim t \<noteq> [] then Some t else None | None \<Rightarrow> None)"

text \<open>\<open>env_token\<close> and \<open>env_file\<close> are the values of the two environment variables.\<close>

definition resolve_token ::
  "auth_env \<Rightarrow> token_fs \<Rightarrow> string option \<Rightarrow> bytes option \<Rightarrow> string option \<Rightarrow> bytes option \<Rightarrow> path \<Rightarrow> auth_error + string" where
  "resolve_token env fs env_token env_file cli_token cli_token_file default_file =
     (case cli_token of
        Some token \<Rightarrow> checked_token token
      | None \<Rightarrow>
          (case cli_token_file of
             Some p \<Rightarrow> read_token_file env (components p) fs
           | None \<Rightarrow>
               (case non_blank env_token of
                  Some token \<Rightarrow> checked_token token
                | None \<Rightarrow>
                    (case env_file of
                       Some (c # cs) \<Rightarrow> read_token_file env (components (c # cs)) fs
                     | _ \<Rightarrow>
                         (case read_token_file env default_file fs of
                            Inr token \<Rightarrow> Inr token
                          | Inl (TokenNotFound _) \<Rightarrow> Inl (NoTokenSource default_file)
                          | Inl e \<Rightarrow> Inl e)))))"

subsection \<open>Tokens\<close>

lemma hex_digit_ok: "n < 16 \<Longrightarrow> is_ascii_hexdigit (hex_digit n)"
  by (simp add: hex_digit_def is_ascii_hexdigit_def is_ascii_digit_def)

lemma hex_digit_byte: "n < 16 \<Longrightarrow> byte_of (hex_digit n) = (if n < 10 then 48 + n else 87 + n)"
  by (simp add: hex_digit_def)

lemma hex_digit_inj:
  assumes "m < 16" and "n < 16"
  shows "hex_digit m = hex_digit n \<longleftrightarrow> m = n"
proof
  assume "hex_digit m = hex_digit n"
  then have "byte_of (hex_digit m) = byte_of (hex_digit n)"
    by simp
  then show "m = n"
    unfolding hex_digit_byte [OF assms(1)] hex_digit_byte [OF assms(2)] by (simp split: if_splits)
qed simp

lemma hex_encode_length: "length (hex_encode bs) = 2 * length bs"
  by (induction bs) (simp_all add: hex_encode_def)

lemma nibbles: "unat (b :: 8 word) div 16 < 16" "unat b mod 16 < 16"
  using unsigned_less [of b, where ?'a = nat] by (simp_all add: less_mult_imp_div_less)

lemma hex_encode_hex: "list_all is_ascii_hexdigit (hex_encode bs)"
  by (induction bs) (auto simp: hex_encode_def hex_digit_ok nibbles)

lemma hex_encode_inj: "hex_encode as = hex_encode bs \<Longrightarrow> as = bs"
proof (induction as arbitrary: bs)
  case Nil
  then show ?case
    using hex_encode_length [of bs] by (simp add: hex_encode_def)
next
  case (Cons a as)
  then obtain b bs' where bs: "bs = b # bs'"
    using hex_encode_length [of "a # as"] hex_encode_length [of bs] by (cases bs) auto
  have "unat a div 16 = unat b div 16" "unat a mod 16 = unat b mod 16" "hex_encode as = hex_encode bs'"
    using Cons.prems by (auto simp: bs hex_encode_def hex_digit_inj nibbles)
  then have "unat a = unat b"
    by (metis div_mod_decomp)
  then show ?case
    using Cons.IH [of bs'] \<open>hex_encode as = hex_encode bs'\<close> by (simp add: bs word_unat_eq_iff)
qed

lemma generated_valid: "generate_token env = Inr token \<Longrightarrow> ae_random env = Some bs \<Longrightarrow> length bs = TOKEN_BYTE_LENGTH \<Longrightarrow>
    validate_token_format token"
  using hex_encode_hex hex_encode_length
  by (auto simp: generate_token_def validate_token_format_def TOKEN_BYTE_LENGTH_def TOKEN_HEX_LENGTH_def)

lemma hexdigit_plain: "is_ascii_hexdigit c \<Longrightarrow> is_ascii c \<and> \<not> is_white [c]"
  by (auto simp: is_ascii_hexdigit_def is_ascii_digit_def is_ascii_def is_white_ascii)

lemma token_plain: "validate_token_format token \<Longrightarrow> \<forall>c \<in> set token. is_ascii c \<and> \<not> is_white [c]"
  using hexdigit_plain by (auto simp: validate_token_format_def list_all_iff)

lemma trim_token: "validate_token_format token \<Longrightarrow> trim (token @ [newline]) = token"
  using trim_ascii [OF token_plain, of token "[]" "[newline]"] by simp

lemma utf8_token: "validate_token_format token \<Longrightarrow> utf8_ok (token @ [newline])"
  using token_plain [of token] by (intro utf8_ok_ascii) (auto simp: is_ascii_def)

lemma make_parent_files: "make_parent env p fs = (r, fs1) \<Longrightarrow> tf_files fs1 = tf_files fs"
  by (auto simp: make_parent_def Let_def split: option.splits)

lemma make_parent_mode: "make_parent env p fs = (Inr (), fs1) \<Longrightarrow> parent_of p = Some d \<Longrightarrow> hm_get (tf_dirs fs1) d = Some (7 * 64)"
  by (auto simp: make_parent_def Let_def split: option.splits)

lemma write_token_ok:
  assumes "write_token_file env p token fs = (Inr (), fs1)"
  shows "hm_get (tf_files fs1) p = Some (token @ [newline], 6 * 64)" and "validate_token_format token"
    and "parent_of p = Some d \<Longrightarrow> hm_get (tf_dirs fs1) d = Some (7 * 64)"
proof -
  obtain g where g: "make_parent env p fs = (Inr (), g)" and v: "validate_token_format token"
    and w: "fst (write_file env p (token @ [newline]) g) = Inr ()"
    and c: "set_file_permissions env p (snd (write_file env p (token @ [newline]) g)) = (Inr (), fs1)"
    using assms by (auto simp: write_token_file_def split: if_splits prod.splits sum.splits)
  have h: "tf_files (snd (write_file env p (token @ [newline]) g)) =
      hm_insert p (token @ [newline], case hm_get (tf_files g) p of Some (_, m) \<Rightarrow> m | None \<Rightarrow> ae_file_mode env) (tf_files g)
      \<and> tf_dirs (snd (write_file env p (token @ [newline]) g)) = tf_dirs g"
    using w by (auto simp: write_file_def Let_def split: option.splits)
  then show "hm_get (tf_files fs1) p = Some (token @ [newline], 6 * 64)"
    using c by (auto simp: set_file_permissions_def split: option.splits)
  show "validate_token_format token"
    by (rule v)
  show "parent_of p = Some d \<Longrightarrow> hm_get (tf_dirs fs1) d = Some (7 * 64)"
    using make_parent_mode [OF g] c h by (auto simp: set_file_permissions_def split: option.splits)
qed

lemma read_written:
  assumes "hm_get (tf_files fs) p = Some (token @ [newline], m)" and "validate_token_format token" and "ae_read env p = None"
  shows "read_token_file env p fs = Inr token"
  using assms trim_token utf8_token by (simp add: read_token_file_def read_to_string_def)

subsection \<open>Properties\<close>

text \<open>C27. The token of the host is stable: when it is first made it is the hexadecimal text of the random
  bytes, well-formed, stored with mode 0600 in a directory of mode 0700, and every later start that can read the
  file returns the same token and changes nothing; different random bytes give different tokens.\<close>

theorem ensure_token_stable:
  assumes "ensure_token env p fs = (Inr token, fs1)" and "\<And>bs. ae_random env = Some bs \<Longrightarrow> length bs = TOKEN_BYTE_LENGTH"
  shows "validate_token_format token
    \<and> (\<forall>env'. ae_read env p = None \<longrightarrow> ae_read env' p = None \<longrightarrow> ensure_token env' p fs1 = (Inr token, fs1))
    \<and> (hm_get (tf_files fs) p = None \<longrightarrow> (\<exists>bs. ae_random env = Some bs \<and> token = hex_encode bs \<and> (\<forall>bs'. hex_encode bs' = token \<longrightarrow> bs' = bs))
          \<and> hm_get (tf_files fs1) p = Some (token @ [newline], 6 * 64)
          \<and> (\<forall>d. parent_of p = Some d \<longrightarrow> hm_get (tf_dirs fs1) d = Some (7 * 64)))"
proof (cases "read_token_file env p fs")
  case (Inr t)
  then have t: "t = token" "fs1 = fs"
    using assms(1) by (simp_all add: ensure_token_def)
  obtain contents m where stored: "hm_get (tf_files fs) p = Some (contents, m)" and "utf8_ok contents"
    and tok: "token = trim contents" "validate_token_format token"
    using Inr t by (auto simp: read_token_file_def read_to_string_def Let_def split: sum.splits option.splits if_splits)
  then have "ae_read env' p = None \<Longrightarrow> read_token_file env' p fs = Inr token" for env'
    by (simp add: read_token_file_def read_to_string_def)
  then show ?thesis
    using t stored tok by (simp add: ensure_token_def)
next
  case (Inl e)
  obtain q where e: "e = TokenNotFound q"
    using assms(1) Inl by (cases e) (auto simp: ensure_token_def)
  have gen: "generate_token env = Inr token" and w: "write_token_file env p token fs = (Inr (), fs1)"
    using assms(1) Inl e by (auto simp: ensure_token_def split: sum.splits prod.splits)
  obtain bs where bs: "ae_random env = Some bs" "token = hex_encode bs"
    using gen by (auto simp: generate_token_def split: option.splits)
  note ok = write_token_ok [OF w]
  have "ae_read env' p = None \<Longrightarrow> ensure_token env' p fs1 = (Inr token, fs1)" for env'
    using read_written [OF ok(1,2)] by (simp add: ensure_token_def)
  moreover have "\<forall>bs'. hex_encode bs' = token \<longrightarrow> bs' = bs"
    using hex_encode_inj bs(2) by blast
  ultimately show ?thesis
    using ok bs by blast
qed

text \<open>The token that is resolved is well-formed, and the sources have a fixed order: a token of the command
  line decides alone, then the file it names, then the variable with a token, then the one
  with a file, then the default file; a source that is bad is an error and never passes to the next.\<close>

theorem resolve_token_order:
  "(\<forall>token. resolve_token env fs env_token env_file cli_token cli_file default_file = Inr token \<longrightarrow> validate_token_format token)
   \<and> (\<forall>t. cli_token = Some t \<longrightarrow> resolve_token env fs env_token env_file cli_token cli_file default_file =
          (if validate_token_format (trim t) then Inr (trim t) else Inl (InvalidToken (length (trim t)))))
   \<and> (\<forall>f. cli_token = None \<longrightarrow> cli_file = Some f \<longrightarrow>
          resolve_token env fs env_token env_file cli_token cli_file default_file = read_token_file env (components f) fs)
   \<and> (\<forall>t. cli_token = None \<longrightarrow> cli_file = None \<longrightarrow> env_token = Some t \<longrightarrow> trim t \<noteq> [] \<longrightarrow>
          resolve_token env fs env_token env_file cli_token cli_file default_file =
          (if validate_token_format (trim t) then Inr (trim t) else Inl (InvalidToken (length (trim t)))))
   \<and> (\<forall>f. cli_token = None \<longrightarrow> cli_file = None \<longrightarrow> non_blank env_token = None \<longrightarrow> env_file = Some f \<longrightarrow> f \<noteq> [] \<longrightarrow>
          resolve_token env fs env_token env_file cli_token cli_file default_file = read_token_file env (components f) fs)"
proof -
  have r: "read_token_file env q fs = Inr t \<Longrightarrow> validate_token_format t" for q t
    by (auto simp: read_token_file_def Let_def split: sum.splits if_splits)
  show ?thesis
    by (auto simp: resolve_token_def checked_token_def non_blank_def Let_def r
        split: option.splits list.splits sum.splits auth_error.splits if_splits)
qed

text \<open>
  A failure in between is not undone: when the permissions cannot be set the token stays in a file with the
  mode of the process, and later starts accept it; when the write breaks off they fail.
\<close>

theorem interrupted_write:
  assumes "validate_token_format token" and "ae_create_dir env = None" and "ae_chmod_dir env = None"
    and "hm_get (tf_files fs) p = None" and "ae_read env' p = None"
  shows "ae_write env = None \<longrightarrow> ae_chmod_file env = Some e \<longrightarrow>
      (\<exists>fs1. write_token_file env p token fs = (Inl (AuthIo e), fs1) \<and> hm_get (tf_files fs1) p = Some (token @ [newline], ae_file_mode env)
         \<and> ensure_token env' p fs1 = (Inr token, fs1))"
    and "ae_write env = Some (e, n) \<longrightarrow> n < TOKEN_HEX_LENGTH \<longrightarrow>
      (\<exists>fs1. write_token_file env p token fs = (Inl (AuthIo e), fs1) \<and> ensure_token env' p fs1 = (Inl (InvalidToken n), fs1))"
proof -
  have parent_made: "\<exists>g. make_parent env p fs = (Inr (), g)"
    using assms(2,3) by (simp add: make_parent_def Let_def split: option.split)
  obtain g where g: "make_parent env p fs = (Inr (), g)"
    using parent_made by blast
  have files: "hm_get (tf_files g) p = None"
    using make_parent_files [OF g] assms(4) by simp
  show "ae_write env = None \<longrightarrow> ae_chmod_file env = Some e \<longrightarrow>
      (\<exists>fs1. write_token_file env p token fs = (Inl (AuthIo e), fs1) \<and> hm_get (tf_files fs1) p = Some (token @ [newline], ae_file_mode env)
         \<and> ensure_token env' p fs1 = (Inr token, fs1))"
    using read_written [OF _ assms(1,5)] assms(1) g files
    by (auto simp: write_token_file_def write_file_def set_file_permissions_def ensure_token_def)
  have "read_token_file env' p (g\<lparr>tf_files := hm_insert p (take n (token @ [newline]), ae_file_mode env) (tf_files g)\<rparr>) = Inl (InvalidToken n)"
    if "n < TOKEN_HEX_LENGTH"
  proof -
    have len: "length token = TOKEN_HEX_LENGTH"
      using assms(1) by (simp add: validate_token_format_def)
    then have t: "take n (token @ [newline]) = take n token"
      using that by simp
    have plain: "\<forall>c \<in> set (take n token). is_ascii c \<and> \<not> is_white [c]"
      using token_plain [OF assms(1)] by (meson in_set_takeD)
    then have "trim (take n token) = take n token" "utf8_ok (take n token)"
      by (auto intro: trim_no_white utf8_ok_ascii)
    then show ?thesis
      using assms(5) t that len by (simp add: read_token_file_def read_to_string_def validate_token_format_def)
  qed
  then show "ae_write env = Some (e, n) \<longrightarrow> n < TOKEN_HEX_LENGTH \<longrightarrow>
      (\<exists>fs1. write_token_file env p token fs = (Inl (AuthIo e), fs1) \<and> ensure_token env' p fs1 = (Inl (InvalidToken n), fs1))"
    using assms(1) g files by (auto simp: write_token_file_def write_file_def ensure_token_def)
qed

definition sample_auth_env :: auth_env where
  "sample_auth_env =
     \<lparr>ae_random = Some (replicate 32 0xA7), ae_read = (\<lambda>_. None), ae_create_dir = None, ae_chmod_dir = None, ae_write = None,
      ae_chmod_file = None, ae_file_mode = 6 * 64 + 4 * 8 + 4, ae_dir_mode = 7 * 64 + 5 * 8 + 5\<rparr>"

theorem ensure_token_stable_witness:
  "\<exists>fs1. ensure_token sample_auth_env [RootDir, Normal ''t''] \<lparr>tf_files = [], tf_dirs = []\<rparr> = (Inr (hex_encode (replicate 32 0xA7)), fs1)
     \<and> ensure_token sample_auth_env [RootDir, Normal ''t''] fs1 = (Inr (hex_encode (replicate 32 0xA7)), fs1)"
proof -
  let ?p = "[RootDir, Normal ''t'']" and ?fs = "\<lparr>tf_files = [], tf_dirs = []\<rparr>"
  obtain token where token: "token = hex_encode (replicate 32 0xA7)"
    by simp
  have gen: "generate_token sample_auth_env = Inr token"
    by (simp add: generate_token_def sample_auth_env_def token)
  have v: "validate_token_format token"
    by (rule generated_valid [OF gen, of "replicate 32 0xA7"]) (simp_all add: sample_auth_env_def TOKEN_BYTE_LENGTH_def)
  have "read_token_file sample_auth_env ?p ?fs = Inl (TokenNotFound ?p)"
    by (simp add: read_token_file_def read_to_string_def sample_auth_env_def)
  moreover have "fst (write_token_file sample_auth_env ?p token ?fs) = Inr ()"
    using v by (simp add: write_token_file_def make_parent_def parent_of_def write_file_def set_file_permissions_def
        sample_auth_env_def Let_def)
  ultimately have "fst (ensure_token sample_auth_env ?p ?fs) = Inr token"
    using gen by (cases "write_token_file sample_auth_env ?p token ?fs") (simp add: ensure_token_def)
  then obtain fs1 where run: "ensure_token sample_auth_env ?p ?fs = (Inr token, fs1)"
    by (cases "ensure_token sample_auth_env ?p ?fs") simp
  have len: "length bs = TOKEN_BYTE_LENGTH" if "ae_random sample_auth_env = Some bs" for bs
    using that by (auto simp: sample_auth_env_def TOKEN_BYTE_LENGTH_def)
  have "ae_read sample_auth_env ?p = None"
    by (simp add: sample_auth_env_def)
  then have "ensure_token sample_auth_env ?p fs1 = (Inr token, fs1)"
    using ensure_token_stable [OF run len, THEN conjunct2, THEN conjunct1] by blast
  with run show ?thesis
    unfolding token by blast
qed

theorem resolve_token_order_witness:
  "resolve_token sample_auth_env \<lparr>tf_files = [], tf_dirs = []\<rparr> (Some ''bad'') None None None [RootDir, Normal ''t''] = Inl (InvalidToken 3)"
proof -
  have t: "trim ''bad'' = ''bad''"
    by (rule trim_no_white) (simp add: is_ascii_def is_white_ascii)
  then have "\<not> validate_token_format (trim ''bad'')" "trim ''bad'' \<noteq> []"
    by (simp_all add: validate_token_format_def TOKEN_HEX_LENGTH_def)
  then show ?thesis
    using resolve_token_order [of sample_auth_env "\<lparr>tf_files = [], tf_dirs = []\<rparr>" "Some ''bad''" None None None "[RootDir, Normal ''t'']",
      THEN conjunct2, THEN conjunct2, THEN conjunct2, THEN conjunct1, THEN spec, of "''bad''"] t
    by simp
qed

end
