(* ===== verification/Paste.thy ===== *)
theory Paste
  imports Clipboard RustPath
begin

section \<open>Pasting clipboard images (src/clipboard_client.rs)\<close>

text \<open>
  The client around the transfer of theory Clipboard: where the images are saved, how their
  paths are quoted, and what is typed into tmux. What the file system, the network and tmux
  answer is the record \<open>paste_env\<close>; the commands given to tmux are recorded in order.
\<close>

definition TRANSFER_TIMEOUT :: nat where "TRANSFER_TIMEOUT = 30"
definition TMUX_TIMEOUT :: nat where "TMUX_TIMEOUT = 5"

record saved_images =
  sv_directory :: bytes
  sv_paths :: "bytes list"

datatype entry_kind = RealDir | SymlinkEntry | OtherEntry

datatype tmux_answer = TmuxTimeout | TmuxSpawn string | TmuxExit bool string string

record paste_env =
  pv_cwd :: "io_error + bytes"
  pv_kind :: "component list \<Rightarrow> io_error + entry_kind"
  pv_mkdir :: "component list \<Rightarrow> io_error option"
  pv_tempdir :: "io_error + string"
  pv_save :: "nat \<Rightarrow> io_error option"
  pv_tmux_var :: "bytes option"
  pv_tmux :: "string list \<Rightarrow> tmux_answer"
  pv_connect :: "io_error + buf_reader \<times> tcp_writer"
  pv_in_time :: bool
  pv_to_string :: json_printer
  pv_from_str :: json_parser

subsection \<open>Paths\<close>

text \<open>\<open>char::is_control\<close>: the code points below 32 and from 127 to 159.\<close>

definition char_is_control :: "bytes \<Rightarrow> bool" where
  "char_is_control c =
     (case c of
        [b] \<Rightarrow> byte_of b < 32 \<or> byte_of b = 127
      | [b, b2] \<Rightarrow> byte_of b = 0xC2 \<and> byte_of b2 < 160
      | _ \<Rightarrow> False)"

definition quote_char :: "char \<Rightarrow> string" where
  "quote_char c = (if c = CHR 0x27 then [CHR 0x27, CHR 0x5C, CHR 0x27, CHR 0x27] else [c])"

definition quote_path :: "bytes \<Rightarrow> paste_error + string" where
  "quote_path path =
     (case chars path of
        None \<Rightarrow> Inl (InvalidPath ''path is not UTF-8'')
      | Some cs \<Rightarrow>
          if list_ex char_is_control cs then Inl (InvalidPath ''path contains control characters'')
          else Inr ([CHR 0x27] @ concat (map quote_char path) @ [CHR 0x27]))"

definition absolute_output_dir :: "paste_env \<Rightarrow> bytes \<Rightarrow> paste_error + bytes" where
  "absolute_output_dir env path =
     res_bind (if is_absolute path then Inr path
               else (case pv_cwd env of Inl e \<Rightarrow> Inl (PasteIo e) | Inr cwd \<Rightarrow> Inr (path_join cwd path)))
       (\<lambda>path. res_bind (quote_path path) (\<lambda>_.
          if ParentDir \<in> set (components path) then Inl (InvalidPath ''parent directory components are not supported'')
          else Inr path))"

subsection \<open>Saving the images\<close>

text \<open>The directories above the output directory and itself: made when missing, refused when they are not real.\<close>

fun check_dirs :: "paste_env \<Rightarrow> component list \<Rightarrow> component list \<Rightarrow> paste_error + unit" where
  "check_dirs env current [] = Inr ()"
| "check_dirs env current (c # cs) =
     (case pv_kind env (current @ [c]) of
        Inr RealDir \<Rightarrow> check_dirs env (current @ [c]) cs
      | Inr _ \<Rightarrow> Inl (InvalidPath ''output directory contains a symlink or non-directory'')
      | Inl e \<Rightarrow>
          if e = NotFound then
            (case pv_mkdir env (current @ [c]) of
               Some e \<Rightarrow> Inl (PasteIo e)
             | None \<Rightarrow> check_dirs env (current @ [c]) cs)
          else Inl (PasteIo e))"

definition image_name :: "nat \<Rightarrow> nat \<Rightarrow> string \<Rightarrow> string" where
  "image_name count index extension =
     (if count = 1 then ''clipboard.'' @ extension
      else ''clipboard-'' @ show_nat (index + 1) @ ''.'' @ extension)"

fun extension_of :: "clipboard_format \<Rightarrow> string option" where
  "extension_of Png = Some ''png''"
| "extension_of Jpeg = Some ''jpg''"
| "extension_of Auto = None"

fun save_each :: "paste_env \<Rightarrow> bytes \<Rightarrow> nat \<Rightarrow> nat \<Rightarrow> (clipboard_format \<times> bytes) list \<Rightarrow> (bytes \<times> bytes) list
    \<Rightarrow> paste_error + (bytes \<times> bytes) list" where
  "save_each env transfer_dir count index [] saved = Inr saved"
| "save_each env transfer_dir count index ((format, bs) # images) saved =
     (case extension_of format of
        None \<Rightarrow> Inl (InvalidResponse ''unspecified image format'')
      | Some extension \<Rightarrow>
          let path = path_join transfer_dir (image_name count index extension) in
          (case pv_save env index of
             Some e \<Rightarrow> Inl (PasteIo e)
           | None \<Rightarrow> save_each env transfer_dir count (index + 1) images (saved @ [(path, bs)])))"

text \<open>
  The result, and the files that are left: none after an error, because the temporary directory
  removes them.
\<close>

definition save_images ::
  "paste_env \<Rightarrow> bytes \<Rightarrow> (clipboard_format \<times> bytes) list \<Rightarrow> (paste_error + saved_images) \<times> (bytes \<times> bytes) list" where
  "save_images env dir images =
     (case check_dirs env [] (components dir) of
        Inl e \<Rightarrow> (Inl e, [])
      | Inr _ \<Rightarrow>
          (case pv_tempdir env of
             Inl e \<Rightarrow> (Inl (PasteIo e), [])
           | Inr name \<Rightarrow>
               let transfer_dir = path_join dir (''image-'' @ name) in
               (case save_each env transfer_dir (length images) 0 images [] of
                  Inl e \<Rightarrow> (Inl e, [])
                | Inr saved \<Rightarrow> (Inr \<lparr>sv_directory = transfer_dir, sv_paths = map fst saved\<rparr>, saved))))"

subsection \<open>tmux\<close>

definition tmux :: "paste_env \<Rightarrow> string list \<Rightarrow> string + string" where
  "tmux env args =
     (case pv_tmux env args of
        TmuxTimeout \<Rightarrow> Inl ''tmux timed out''
      | TmuxSpawn e \<Rightarrow> Inl e
      | TmuxExit success out err \<Rightarrow> if \<not> success then Inl (trim err) else Inr out)"

definition pane_query :: "string \<Rightarrow> string list" where
  "pane_query target = [''display-message'', ''-p'', ''-t'', target, [CHR 0x23, CHR 0x7B] @ ''pane_id'' @ [CHR 0x7D]]"

definition validate_tmux :: "paste_env \<Rightarrow> string \<Rightarrow> (paste_error + unit) \<times> string list list" where
  "validate_tmux env target =
     (if \<not> starts_with target [CHR 0x25] \<or> length target < 2 \<or> \<not> list_all is_ascii_digit (drop 1 target)
      then (Inl (Tmux ''use an exact pane ID such as %1''), [])
      else if pv_tmux_var env = None \<or> pv_tmux_var env = Some []
      then (Inl (Tmux ''TMUX must identify the destination server''), [])
      else ((case tmux env (pane_query target) of
               Inl e \<Rightarrow> Inl (Tmux e)
             | Inr pane \<Rightarrow> if trim pane \<noteq> target then Inl (Tmux ''target pane did not match'') else Inr ()), [pane_query target]))"

subsection \<open>The command\<close>

definition transfer :: "paste_env \<Rightarrow> clipboard_format \<Rightarrow> string \<Rightarrow> paste_error + (clipboard_format \<times> bytes) list" where
  "transfer env format auth_token =
     (if \<not> pv_in_time env then Inl PasteTimeout
      else (case pv_connect env of
              Inl e \<Rightarrow> Inl (PasteIo e)
            | Inr (r, w) \<Rightarrow>
                (case write_message (pv_to_string env) w (ClipboardRead format (ClipboardToken auth_token)) of
                   (Inl e, _) \<Rightarrow> Inl (PasteProtocol e)
                 | (Inr _, _) \<Rightarrow> fst (receive_images (pv_from_str env) r format))))"

fun quote_all :: "bytes list \<Rightarrow> paste_error + string" where
  "quote_all [] = Inr []"
| "quote_all (p # ps) = res_bind (quote_path p) (\<lambda>q. res_bind (quote_all ps) (\<lambda>rest. Inr (q @ '' '' @ rest)))"

definition send_keys :: "string \<Rightarrow> string \<Rightarrow> string list" where
  "send_keys target quoted = [''send-keys'', ''-l'', ''-t'', target, ''--'', quoted]"

text \<open>The result, the files left behind and the commands given to tmux.\<close>

definition paste ::
  "paste_env \<Rightarrow> string \<Rightarrow> clipboard_format \<Rightarrow> bytes \<Rightarrow> string option
   \<Rightarrow> (paste_error + saved_images) \<times> (bytes \<times> bytes) list \<times> string list list" where
  "paste env auth_token format output_dir tmux_target =
     (case (case tmux_target of Some target \<Rightarrow> validate_tmux env target | None \<Rightarrow> (Inr (), [])) of
        (Inl e, cmds) \<Rightarrow> (Inl e, [], cmds)
      | (Inr _, cmds) \<Rightarrow>
          (case res_bind (absolute_output_dir env output_dir) (\<lambda>dir. res_bind (transfer env format auth_token) (\<lambda>images. Inr (dir, images))) of
             Inl e \<Rightarrow> (Inl e, [], cmds)
           | Inr (dir, images) \<Rightarrow>
               (case save_images env dir images of
                  (Inl e, files) \<Rightarrow> (Inl e, files, cmds)
                | (Inr saved, files) \<Rightarrow>
                    (case tmux_target of
                       None \<Rightarrow> (Inr saved, files, cmds)
                     | Some target \<Rightarrow>
                         (case quote_all (sv_paths saved) of
                            Inl e \<Rightarrow> (Inl e, files, cmds)
                          | Inr quoted \<Rightarrow>
                              ((case tmux env (send_keys target quoted) of
                                  Inl reason \<Rightarrow> Inl (TmuxPaste (sv_directory saved) reason)
                                | Inr _ \<Rightarrow> Inr saved), files, cmds @ [send_keys target quoted]))))))"

subsection \<open>What a shell reads\<close>

text \<open>
  The words of a command line of a POSIX shell, where it has only quoted strings, escaped characters and
  blanks: any other character outside quotes might mean something to the shell, and gives \<open>None\<close>.
\<close>

fun shell_words :: "bool \<Rightarrow> string option \<Rightarrow> string \<Rightarrow> string list option" where
  "shell_words True w [] = None"
| "shell_words True w (c # cs) =
     (if c = CHR 0x27 then shell_words False w cs
      else shell_words True (Some ((case w of Some u \<Rightarrow> u | None \<Rightarrow> []) @ [c])) cs)"
| "shell_words False w [] = Some (case w of Some u \<Rightarrow> [u] | None \<Rightarrow> [])"
| "shell_words False w (c # cs) =
     (if c = CHR 0x27 then shell_words True (Some (case w of Some u \<Rightarrow> u | None \<Rightarrow> [])) cs
      else if c = CHR 0x20 then
        map_option ((@) (case w of Some u \<Rightarrow> [u] | None \<Rightarrow> [])) (shell_words False None cs)
      else if c = CHR 0x5C then
        (case cs of
           [] \<Rightarrow> None
         | d # ds \<Rightarrow> shell_words False (Some ((case w of Some u \<Rightarrow> u | None \<Rightarrow> []) @ [d])) ds)
      else None)"

lemma shell_quoted:
  "shell_words True (Some w) (concat (map quote_char p) @ CHR 0x27 # rest) = shell_words False (Some (w @ p)) rest"
  by (induction p arbitrary: w) (simp_all add: quote_char_def)

lemma quote_path_result: "quote_path p = Inr q \<Longrightarrow> q = [CHR 0x27] @ concat (map quote_char p) @ [CHR 0x27]
    \<and> (\<exists>cs. chars p = Some cs \<and> \<not> list_ex char_is_control cs)"
  by (auto simp: quote_path_def split: option.splits if_splits)

lemma quoted_words: "quote_path p = Inr q \<Longrightarrow> shell_words False None (q @ '' '' @ rest) = map_option ((#) p) (shell_words False None rest)"
proof -
  assume "quote_path p = Inr q"
  then have q: "q @ '' '' @ rest = CHR 0x27 # concat (map quote_char p) @ CHR 0x27 # '' '' @ rest"
    using quote_path_result [of p q] by simp
  show ?thesis
    unfolding q using shell_quoted [of "[]" p "'' '' @ rest"] by (cases "shell_words False None rest") simp_all
qed

lemma quote_all_words: "quote_all ps = Inr t \<Longrightarrow> shell_words False None t = Some ps"
proof (induction ps arbitrary: t)
  case (Cons p ps)
  then obtain q rest where q: "quote_path p = Inr q" and rest: "quote_all ps = Inr rest" and t: "t = q @ '' '' @ rest"
    by (auto simp: res_bind_eq_Inr)
  show ?case
    unfolding t using quoted_words [OF q, of rest] Cons.IH [OF rest] by simp
qed simp

lemma utf8_first_high:
  assumes "utf8_first (a # r) \<noteq> 0" and "\<not> byte_of a < 128"
  shows "\<forall>b \<in> set (take (utf8_first (a # r) - 1) r). is_cont b"
proof -
  consider (two) "194 \<le> byte_of a" "byte_of a \<le> 223" | (three) "224 \<le> byte_of a" "byte_of a \<le> 239"
    | (four) "240 \<le> byte_of a" "byte_of a \<le> 244" | (none) "byte_of a < 194 \<or> 244 < byte_of a"
    by linarith
  then show ?thesis
  proof cases
    case two
    then show ?thesis
      using assms by (cases r) (auto simp: Let_def split: if_splits)
  next
    case three
    obtain b c r2 where r: "r = b # c # r2"
      using assms three by (cases r; cases "tl r") (auto simp: Let_def)
    show ?thesis
      using assms three by (auto simp: r Let_def numeral_2_eq_2 split: if_splits)
  next
    case four
    obtain b c d r2 where r: "r = b # c # d # r2"
      using assms four by (cases r; cases "tl r"; cases "tl (tl r)") (auto simp: Let_def)
    show ?thesis
      using assms four by (auto simp: r Let_def numeral_3_eq_3 split: if_splits)
  next
    case none
    then show ?thesis
      using assms by (auto simp: Let_def)
  qed
qed

text \<open>A character below 32 is never typed: no key ends the line.\<close>

lemma chars_control: "chars p = Some cs \<Longrightarrow> \<not> list_ex char_is_control cs \<Longrightarrow> c \<in> set p \<Longrightarrow> 32 \<le> byte_of c \<and> byte_of c \<noteq> 127"
proof (induction p arbitrary: cs rule: chars.induct)
  case (1 s)
  then have ne: "s \<noteq> []"
    by auto
  with "1.prems"(1) have n: "utf8_first s \<noteq> 0"
    by (auto simp: chars.simps [of s] split: if_splits)
  with ne "1.prems"(1) obtain ds where ds: "chars (drop (utf8_first s) s) = Some ds" and cs: "cs = take (utf8_first s) s # ds"
    by (auto simp: chars.simps [of s])
  have "c \<in> set (take (utf8_first s) s) \<or> c \<in> set (drop (utf8_first s) s)"
    using "1.prems"(3) by (metis append_take_drop_id set_append UnE)
  then show ?case
  proof
    assume "c \<in> set (drop (utf8_first s) s)"
    then show ?thesis
      using "1.IH" [OF ne n ds] "1.prems"(2) cs by simp
  next
    assume c: "c \<in> set (take (utf8_first s) s)"
    obtain a r where s: "s = a # r"
      using ne by (cases s) auto
    show ?thesis
    proof (cases "byte_of a < 128")
      case True
      then have "utf8_first s = 1"
        by (simp add: s)
      then show ?thesis
        using c "1.prems"(2) cs by (auto simp: s char_is_control_def)
    next
      case False
      have "c = a \<or> is_cont c"
        using utf8_first_high [of a r] False n c s by (cases "utf8_first s") auto
      then show ?thesis
        using False by (auto simp: is_cont_def)
    qed
  qed
qed

lemma quote_all_typed: "quote_all ps = Inr t \<Longrightarrow> c \<in> set t \<Longrightarrow> 32 \<le> byte_of c \<and> byte_of c \<noteq> 127"
proof (induction ps arbitrary: t)
  case (Cons p ps)
  then obtain q rest where q: "quote_path p = Inr q" and rest: "quote_all ps = Inr rest" and t: "t = q @ '' '' @ rest"
    by (auto simp: res_bind_eq_Inr)
  have "c \<in> set q \<Longrightarrow> c \<in> set p \<or> c \<in> {CHR 0x27, CHR 0x5C}"
    using quote_path_result [OF q] by (auto simp: quote_char_def split: if_splits)
  then have "c \<in> set q \<Longrightarrow> 32 \<le> byte_of c \<and> byte_of c \<noteq> 127"
    using quote_path_result [OF q] chars_control by auto
  then show ?case
    using Cons.IH [OF rest] Cons.prems(2) t by auto
qed simp

subsection \<open>What is saved\<close>

definition printable :: "string \<Rightarrow> bool" where
  "printable s \<longleftrightarrow> (\<forall>c \<in> set s. is_ascii c \<and> 32 \<le> byte_of c \<and> byte_of c \<noteq> 127)"

lemma printable_append: "printable (s @ t) \<longleftrightarrow> printable s \<and> printable t"
  by (auto simp: printable_def)

lemma printable_show_nat: "printable (show_nat n)"
  using show_nat_digits [of n] by (auto simp: printable_def is_ascii_digit_def is_ascii_def)

lemma quote_append: "quote_path p = Inr q \<Longrightarrow> printable t \<Longrightarrow> \<exists>q'. quote_path (p @ t) = Inr q'"
proof -
  assume q: "quote_path p = Inr q" and t: "printable t"
  obtain cs where cs: "chars p = Some cs" "\<not> list_ex char_is_control cs"
    using quote_path_result [OF q] by blast
  have "chars t = Some (map (\<lambda>c. [c]) t)"
    using t by (intro chars_ascii) (simp add: printable_def)
  then have "chars (p @ t) = Some (cs @ map (\<lambda>c. [c]) t)"
    using chars_append [OF cs(1), of t] by simp
  moreover have "\<not> list_ex char_is_control (map (\<lambda>c. [c]) t)"
    using t by (auto simp: list_ex_iff printable_def char_is_control_def)
  ultimately show ?thesis
    using cs(2) by (auto simp: quote_path_def)
qed

lemma quote_join: "quote_path p = Inr q \<Longrightarrow> printable t \<Longrightarrow> \<not> is_absolute t \<Longrightarrow> \<exists>q'. quote_path (path_join p t) = Inr q'"
  using quote_append [of p q t] quote_append [of p q "[slash] @ t"]
  by (auto simp: path_join_def printable_append) (auto simp: printable_def is_ascii_def)

lemma image_name_ok: "extension_of format = Some extension \<Longrightarrow> printable (image_name count index extension)
    \<and> \<not> is_absolute (image_name count index extension)"
  using printable_show_nat [of "index + 1"]
  by (cases format) (auto simp: image_name_def printable_append is_absolute_def, auto simp: printable_def is_ascii_def)

lemma takeWhile_digits: "takeWhile is_ascii_digit (show_nat n @ ''.'' @ t) = show_nat n"
  using show_nat_digits [of n] by (subst takeWhile_append2) (auto simp: is_ascii_digit_def)

lemma show_nat_inj: "show_nat m = show_nat n \<Longrightarrow> m = n"
  by (metis digits_val_show_nat option.inject)

lemma image_name_inj: "count \<noteq> 1 \<Longrightarrow> image_name count i e = image_name count j e' \<Longrightarrow> i = j"
proof -
  assume "count \<noteq> 1" and "image_name count i e = image_name count j e'"
  then have "show_nat (i + 1) @ ''.'' @ e = show_nat (j + 1) @ ''.'' @ e'"
    by (simp add: image_name_def)
  then have "takeWhile is_ascii_digit (show_nat (i + 1) @ ''.'' @ e) = takeWhile is_ascii_digit (show_nat (j + 1) @ ''.'' @ e')"
    by (rule arg_cong)
  then show "i = j"
    using show_nat_inj [of "i + 1" "j + 1"] by (simp only: takeWhile_digits) simp
qed

lemma path_join_inj: "\<not> is_absolute s \<Longrightarrow> \<not> is_absolute t \<Longrightarrow> path_join p s = path_join p t \<Longrightarrow> s = t"
  by (auto simp: path_join_def split: if_splits)

definition named_in :: "bytes \<Rightarrow> nat \<Rightarrow> nat \<Rightarrow> bytes \<Rightarrow> bool" where
  "named_in td count i path \<longleftrightarrow> (\<exists>format extension. extension_of format = Some extension \<and> path = path_join td (image_name count i extension))"

lemma save_each_ok:
  "save_each env td count index images saved = Inr result \<Longrightarrow>
   \<exists>new. result = saved @ new \<and> map snd new = map snd images \<and> length new = length images
     \<and> (\<forall>i < length new. named_in td count (index + i) (fst (new ! i)))"
proof (induction images arbitrary: index saved)
  case (Cons image images)
  obtain format bs where im: "image = (format, bs)"
    by (cases image)
  obtain extension where e: "extension_of format = Some extension"
    using Cons.prems im by (cases "extension_of format") auto
  let ?path = "path_join td (image_name count index extension)"
  have "save_each env td count (index + 1) images (saved @ [(?path, bs)]) = Inr result"
    using Cons.prems im e by (simp add: Let_def split: option.splits)
  from Cons.IH [OF this] obtain new where new: "result = (saved @ [(?path, bs)]) @ new" "map snd new = map snd images"
    "length new = length images" "\<forall>i < length new. named_in td count (index + 1 + i) (fst (new ! i))"
    by blast
  have "named_in td count (index + i) (fst (((?path, bs) # new) ! i))" if "i < length ((?path, bs) # new)" for i
    using that new(4) e by (cases i) (auto simp: named_in_def)
  then show ?case
    using new im by (intro exI [of _ "(?path, bs) # new"]) simp
qed simp

lemma named_distinct: "\<forall>i < length files. named_in td (length files) i (fst (files ! i)) \<Longrightarrow> distinct (map fst files)"
proof (rule distinct_conv_nth [THEN iffD2], intro allI impI)
  fix i j assume names: "\<forall>i < length files. named_in td (length files) i (fst (files ! i))"
    and i: "i < length (map fst files)" and j: "j < length (map fst files)" and ij: "i \<noteq> j"
  obtain f e where ni: "extension_of f = Some e" "fst (files ! i) = path_join td (image_name (length files) i e)"
    using names i by (auto simp: named_in_def)
  obtain f' e' where nj: "extension_of f' = Some e'" "fst (files ! j) = path_join td (image_name (length files) j e')"
    using names j by (auto simp: named_in_def)
  have "length files \<noteq> 1"
    using i j ij by auto
  then have "image_name (length files) i e \<noteq> image_name (length files) j e'"
    using image_name_inj [of "length files" i e j e'] ij by blast
  then show "map fst files ! i \<noteq> map fst files ! j"
    using ni nj i j path_join_inj image_name_ok [OF ni(1), of "length files" i] image_name_ok [OF nj(1), of "length files" j]
    by (metis nth_map length_map)
qed

lemma quote_all_ok: "\<forall>p \<in> set ps. \<exists>q. quote_path p = Inr q \<Longrightarrow> \<exists>t. quote_all ps = Inr t"
  by (induction ps) auto

lemma save_images_ok:
  assumes "save_images env dir images = (Inr saved, files)" and "quote_path dir = Inr q" and "\<And>name. pv_tempdir env = Inr name \<Longrightarrow> printable name"
  shows "sv_paths saved = map fst files" and "map snd files = map snd images" and "distinct (map fst files)"
    and "\<exists>t. quote_all (map fst files) = Inr t"
proof -
  obtain name where name: "pv_tempdir env = Inr name"
    and s: "save_each env (path_join dir (''image-'' @ name)) (length images) 0 images [] = Inr files"
    and saved: "sv_paths saved = map fst files"
    using assms(1) by (auto simp: save_images_def Let_def split: sum.splits)
  show "sv_paths saved = map fst files"
    by (rule saved)
  let ?td = "path_join dir (''image-'' @ name)"
  have ok: "map snd files = map snd images" "length files = length images"
    "\<forall>i < length files. named_in ?td (length images) i (fst (files ! i))"
    using save_each_ok [OF s] by auto
  then show "map snd files = map snd images" "distinct (map fst files)"
    using named_distinct [of files ?td] by simp_all
  have "printable (''image-'' @ name)"
    using assms(3) [OF name] by (auto simp: printable_append, auto simp: printable_def is_ascii_def)
  then obtain qt where qt: "quote_path ?td = Inr qt"
    using quote_join [OF assms(2), of "''image-'' @ name"] by (auto simp: is_absolute_def)
  have "\<exists>q. quote_path p = Inr q" if p: "p \<in> set (map fst files)" for p
  proof -
    obtain i where "i < length files" "p = fst (files ! i)"
      using p unfolding in_set_conv_nth by auto
    then have "named_in ?td (length images) i p"
      using ok(3) by blast
    then show ?thesis
      using quote_join [OF qt] image_name_ok by (auto simp: named_in_def)
  qed
  then show "\<exists>t. quote_all (map fst files) = Inr t"
    by (intro quote_all_ok) blast
qed

subsection \<open>Properties\<close>

lemma validate_tmux_cmds: "validate_tmux env target = (r, cmds) \<Longrightarrow> set cmds \<subseteq> {pane_query target}
    \<and> (cmds \<noteq> [] \<or> r = Inr () \<longrightarrow> starts_with target [CHR 0x25] \<and> 2 \<le> length target \<and> list_all is_ascii_digit (drop 1 target))"
  by (auto simp: validate_tmux_def split: if_splits sum.splits)


definition sample_paste :: paste_env where
  "sample_paste =
     \<lparr>pv_cwd = Inr ''/'', pv_kind = (\<lambda>_. Inr RealDir), pv_mkdir = (\<lambda>_. None), pv_tempdir = Inr ''ab'', pv_save = (\<lambda>_. None),
      pv_tmux_var = Some ''/tmp/tmux'', pv_tmux = (\<lambda>_. TmuxExit True ''%1'' []),
      pv_connect = Inr (\<lparr>br_buf = [], br_net = [Seg (image_frames tiny_json [\<lparr>ci_format = Png, ci_bytes = tiny_png\<rparr>])]\<rparr>, \<lparr>tw_out = [], tw_up = True\<rparr>),
      pv_in_time = True, pv_to_string = (\<lambda>_. Some ''{}''), pv_from_str = tiny_parse\<rparr>"

lemma sample_transfer: "transfer sample_paste Auto ''t'' = Inr [(Png, tiny_png)]"
proof -
  let ?img = "\<lparr>ci_format = Png, ci_bytes = tiny_png\<rparr>"
  have "acceptable Auto [?img]"
    using capture_acceptable [OF tiny_capture] by simp
  moreover have "image_frames tiny_json [?img] \<noteq> []"
    by (simp add: image_frames_def)
  ultimately have "fst (receive_images tiny_parse \<lparr>br_buf = [], br_net = [Seg (image_frames tiny_json [?img])]\<rparr> Auto) = Inr [(Png, tiny_png)]"
    using receive_images_frames [of Auto "[?img]" tiny_json tiny_parse "\<lparr>br_buf = [], br_net = [Seg (image_frames tiny_json [?img])]\<rparr>"] tiny_codec
    by (simp add: clean_def stream_def)
  then show ?thesis
    by (simp add: transfer_def sample_paste_def write_message_def write_all_def MAX_MESSAGE_SIZE_def)
qed

definition sample_png_path :: bytes where
  "sample_png_path = ''/o/image-ab/clipboard.png''"

lemma sample_pasted:
  "\<exists>cmds. paste sample_paste ''t'' Auto ''/o'' (Some ''%1'') =
     (Inr \<lparr>sv_directory = ''/o/image-ab'', sv_paths = [sample_png_path]\<rparr>, [(sample_png_path, tiny_png)], cmds)
   \<and> send_keys ''%1'' ([CHR 0x27] @ sample_png_path @ [CHR 0x27] @ '' '') \<in> set cmds"
proof -
  have t: "trim ''%1'' = ''%1''"
    by (rule trim_no_white) (simp add: is_ascii_def is_white_ascii)
  have v: "validate_tmux sample_paste ''%1'' = (Inr (), [pane_query ''%1''])"
    using t by (simp add: validate_tmux_def tmux_def sample_paste_def is_ascii_digit_def)
  have d: "absolute_output_dir sample_paste ''/o'' = Inr ''/o''"
    by (simp add: absolute_output_dir_def quote_path_def chars_ascii is_ascii_def char_is_control_def is_absolute_def components_def)
  have s: "save_images sample_paste ''/o'' [(Png, tiny_png)]
      = (Inr \<lparr>sv_directory = ''/o/image-ab'', sv_paths = [sample_png_path]\<rparr>, [(sample_png_path, tiny_png)])"
    by (simp add: save_images_def sample_paste_def components_def is_absolute_def path_join_def image_name_def sample_png_path_def)
  have q: "quote_path sample_png_path = Inr ([CHR 0x27] @ sample_png_path @ [CHR 0x27])"
    by (simp add: quote_path_def sample_png_path_def chars_ascii is_ascii_def char_is_control_def quote_char_def)
  have k: "tmux sample_paste args = Inr ''%1''" for args
    by (simp add: tmux_def sample_paste_def)
  show ?thesis
    by (simp add: paste_def v d s q k sample_transfer)
qed


lemma paste_cases:
  assumes "paste env auth_token format output_dir target = (r, files, cmds)"
  obtains (early) e where "r = Inl e" "files = []"
  | (saved) dir images saved where "absolute_output_dir env output_dir = Inr dir" "transfer env format auth_token = Inr images"
      "save_images env dir images = (Inr saved, files)"
      "r = Inr saved \<or> (\<exists>d reason. r = Inl (TmuxPaste d reason)) \<or> (\<exists>e. quote_all (sv_paths saved) = Inl e)"
proof -
  obtain v cmds0 where v: "(case target of Some t \<Rightarrow> validate_tmux env t | None \<Rightarrow> (Inr (), [])) = (v, cmds0)"
    by (cases "case target of Some t \<Rightarrow> validate_tmux env t | None \<Rightarrow> (Inr (), [])")
  show thesis
  proof (cases v)
    case (Inl e)
    then show thesis
      using assms early by (auto simp: paste_def v)
  next
    case ok: (Inr u)
    show thesis
    proof (cases "res_bind (absolute_output_dir env output_dir) (\<lambda>dir. res_bind (transfer env format auth_token) (\<lambda>images. Inr (dir, images)))")
      case (Inl e)
      then show thesis
        using assms early ok by (auto simp: paste_def v)
    next
      case (Inr di)
      obtain dir images where di: "di = (dir, images)" "absolute_output_dir env output_dir = Inr dir" "transfer env format auth_token = Inr images"
        using Inr by (auto simp: res_bind_eq_Inr)
      obtain sr sfiles where s: "save_images env dir images = (sr, sfiles)"
        by (cases "save_images env dir images")
      show thesis
      proof (cases sr)
        case (Inl e)
        then have "sfiles = []"
          using s by (auto simp: save_images_def Let_def split: sum.splits)
        then show thesis
          using assms early ok Inr di s Inl by (auto simp: paste_def v)
      next
        case sv: (Inr sv)
        then have "sfiles = files"
          using assms ok Inr di s by (auto simp: paste_def v split: option.splits sum.splits)
        moreover have "r = Inr sv \<or> (\<exists>d reason. r = Inl (TmuxPaste d reason)) \<or> (\<exists>e. quote_all (sv_paths sv) = Inl e)"
          using assms ok Inr di s sv by (auto simp: paste_def v split: option.splits sum.splits)
        ultimately show thesis
          using saved [of dir images sv] di s sv by simp
      qed
    qed
  qed
qed



end
