(* ===== verification/Cli.thy ===== *)
theory Cli
  imports ContainerRun Auth HostProps Paste
begin

section \<open>The command line (src/main.rs, src/host/ensure.rs)\<close>

text \<open>
  The commands of the binary: how each resolves its host and its token, what it sends and what it
  answers, and how the two daemons are configured. The parsed arguments, the environment and
  the answers of the network are arguments; a command yields its result, the state of its connection and
  the lines that it prints. The text of an error that shows an address, a message or a system error
  is cut to its fixed part.
\<close>

datatype cli_error =
    Connection string
  | CliControl control_error
  | RegistrationRejected
  | Json

datatype exit_code = ExitSuccess | ExitFailure | ExitWith nat

subsection \<open>Host and token\<close>

definition named_host :: "resolve_env \<Rightarrow> string \<Rightarrow> string option" where
  "named_host env h = (if is_ip_addr (re_v6 env) h then Some h else lookup_first env (h @ '':0''))"

definition resolve_cli_host :: "resolve_env \<Rightarrow> string option \<Rightarrow> string option \<Rightarrow> string" where
  "resolve_cli_host env host host_var =
     (case Option.bind host (named_host env) of
        Some ip \<Rightarrow> ip
      | None \<Rightarrow>
          (case Option.bind (given host_var) (named_host env) of
             Some ip \<Rightarrow> ip
           | None \<Rightarrow>
               (case lookup_first env ''host.docker.internal:0'' of
                  Some ip \<Rightarrow> ip
                | None \<Rightarrow> ''127.0.0.1'')))"

record auth_sources =
  as_env :: auth_env
  as_fs :: token_fs
  as_home :: "bytes option"
  as_token_var :: "string option"
  as_file_var :: "bytes option"

definition resolve_from :: "auth_sources \<Rightarrow> string option \<Rightarrow> bytes option \<Rightarrow> path \<Rightarrow> auth_error + string" where
  "resolve_from src = resolve_token (as_env src) (as_fs src) (as_token_var src) (as_file_var src)"

definition resolve_cli_auth_token :: "auth_sources \<Rightarrow> string option \<Rightarrow> bytes option \<Rightarrow> string" where
  "resolve_cli_auth_token src auth_token auth_token_file =
     (case token_file_path (as_home src) of
        Inl _ \<Rightarrow> []
      | Inr default_path \<Rightarrow>
          (case resolve_from src auth_token auth_token_file default_path of Inr token \<Rightarrow> token | Inl _ \<Rightarrow> []))"

subsection \<open>One-shot commands\<close>

definition register_cli_client ::
  "json_printer \<Rightarrow> json_parser \<Rightarrow> string \<Rightarrow> control_connection \<Rightarrow> (cli_error + unit) \<times> control_connection" where
  "register_cli_client to_string from_str auth_token conn =
     (case conn_send to_string (Register ''cli-manual'' ''cli'' auth_token) conn of
        (Inl e, conn1) \<Rightarrow> (Inl (CliControl e), conn1)
      | (Inr _, conn1) \<Rightarrow>
          (case conn_recv from_str conn1 of
             (Inl e, conn2) \<Rightarrow> (Inl (CliControl e), conn2)
           | (Inr (RegisterAck True), conn2) \<Rightarrow> (Inr (), conn2)
           | (Inr _, conn2) \<Rightarrow> (Inl RegistrationRejected, conn2)))"

definition pad_right :: "nat \<Rightarrow> string \<Rightarrow> string" where
  "pad_right n s = s @ replicate (n - length (str_chars s)) (CHR '' '')"

definition pad_left :: "nat \<Rightarrow> string \<Rightarrow> string" where
  "pad_left n s = replicate (n - length (str_chars s)) (CHR '' '') @ s"

definition format_since :: "u64 \<Rightarrow> string \<Rightarrow> string" where
  "format_since now since =
     (case parse_u64 since of
        None \<Rightarrow> since
      | Some epoch_secs \<Rightarrow>
          if now < epoch_secs then since
          else let elapsed = unat (now - epoch_secs) in
            if elapsed < 60 then show_nat elapsed @ ''s ago''
            else if elapsed < 3600 then show_nat (elapsed div 60) @ ''m ago''
            else if elapsed < 86400 then show_nat (elapsed div 3600) @ ''h ago''
            else show_nat (elapsed div 86400) @ ''d ago'')"

definition forward_row :: "u64 \<Rightarrow> forward_info \<Rightarrow> string" where
  "forward_row now row =
     pad_right 20 (fi_hostname row) @ '' '' @ pad_left 5 (show_nat (unat (fi_port row))) @ ''   ''
       @ pad_left 9 (show_nat (unat (fi_host_port row))) @ ''  ''
       @ pad_right 12 (case fi_process_name row of Some name \<Rightarrow> name | None \<Rightarrow> ''-'') @ '' '' @ format_since now (fi_since row)"

definition print_forward_table :: "u64 \<Rightarrow> forward_info list \<Rightarrow> string list" where
  "print_forward_table now forwards =
     (pad_right 20 ''Container'' @ '' '' @ pad_left 5 ''Port'' @ ''   '' @ pad_left 9 ''Host Port'' @ ''  ''
        @ pad_right 12 ''Process'' @ '' Since'') # map (forward_row now) forwards"

definition print_socket_forward_table :: "socket_forward_info list \<Rightarrow> string list" where
  "print_socket_forward_table socket_forwards =
     (pad_right 36 ''Socket ID'' @ '' '' @ pad_right 40 ''Host Path'' @ '' Container Path'')
       # map (\<lambda>sf. pad_right 36 (sfi_socket_id sf) @ '' '' @ pad_right 40 (sfi_host_path sf) @ '' '' @ sfi_container_path sf) socket_forwards"

text \<open>\<open>pretty\<close> is the JSON text of a response, \<open>None\<close> an error of the serializer.\<close>

definition status_lines ::
  "(forward_info list \<Rightarrow> socket_forward_info list \<Rightarrow> string option) \<Rightarrow> u64 \<Rightarrow> bool \<Rightarrow> forward_info list \<Rightarrow> socket_forward_info list
   \<Rightarrow> cli_error + string list" where
  "status_lines pretty now json forwards socket_forwards =
     (if json then (case pretty forwards socket_forwards of None \<Rightarrow> Inl Json | Some text \<Rightarrow> Inr [text])
      else if forwards = [] \<and> socket_forwards = [] then Inr [''No active forwards.'']
      else Inr ((if forwards \<noteq> [] then print_forward_table now forwards else [])
             @ (if socket_forwards \<noteq> [] then (if forwards \<noteq> [] then [[]] else []) @ print_socket_forward_table socket_forwards else [])))"

definition connect_failed :: "cli_error" where
  "connect_failed = Connection ''could not connect to host daemon''"

definition run_status ::
  "json_printer \<Rightarrow> json_parser \<Rightarrow> (forward_info list \<Rightarrow> socket_forward_info list \<Rightarrow> string option) \<Rightarrow> u64 \<Rightarrow> bool
   \<Rightarrow> io_error + control_connection \<Rightarrow> cli_error + string list" where
  "run_status to_string from_str pretty now json connect =
     (case connect of
        Inl _ \<Rightarrow> Inl connect_failed
      | Inr conn \<Rightarrow>
          (case conn_send to_string ListRequest conn of
             (Inl e, _) \<Rightarrow> Inl (CliControl e)
           | (Inr _, conn1) \<Rightarrow>
               (case conn_recv from_str conn1 of
                  (Inl e, _) \<Rightarrow> Inl (CliControl e)
                | (Inr (ListResponse forwards socket_forwards), _) \<Rightarrow> status_lines pretty now json forwards socket_forwards
                | (Inr _, _) \<Rightarrow> Inl (Connection ''unexpected response from host daemon''))))"

definition run_unforward :: "json_printer \<Rightarrow> u16 \<Rightarrow> io_error + control_connection \<Rightarrow> (cli_error + unit) \<times> control_connection option" where
  "run_unforward to_string port connect =
     (case connect of
        Inl _ \<Rightarrow> (Inl connect_failed, None)
      | Inr conn \<Rightarrow>
          (case conn_send to_string (Unforward port) conn of
             (Inl e, conn1) \<Rightarrow> (Inl (CliControl e), Some conn1)
           | (Inr _, conn1) \<Rightarrow> (Inr (), Some conn1)))"

subsection \<open>Manual forwards\<close>

datatype forward_event = CtrlC nat | HostSpoke

text \<open>The loop that keeps a manual forward: its result if it has one, and the connection.\<close>

fun hold_forward ::
  "json_printer \<Rightarrow> json_parser \<Rightarrow> u16 \<Rightarrow> forward_event list \<Rightarrow> control_connection \<Rightarrow> (cli_error + unit) option \<times> control_connection" where
  "hold_forward to_string from_str port [] conn = (None, conn)"
| "hold_forward to_string from_str port (CtrlC turns # evs) conn =
     (Some (Inr ()), snd (conn_send to_string (Unforward port) (conn_recv_dropped turns conn)))"
| "hold_forward to_string from_str port (HostSpoke # evs) conn =
     (case conn_recv from_str conn of
        (Inl e, conn1) \<Rightarrow> (Some (Inl (Connection ''lost connection to host daemon'')), conn1)
      | (Inr Ping, conn1) \<Rightarrow> hold_forward to_string from_str port evs (snd (conn_send to_string Pong conn1))
      | (Inr (ConnectRequest p conn_id), conn1) \<Rightarrow>
          hold_forward to_string from_str port evs
            (snd (conn_send to_string (ConnectFailed conn_id ''manual forward does not support proxying'') conn1))
      | (Inr _, conn1) \<Rightarrow> hold_forward to_string from_str port evs conn1)"

definition run_forward ::
  "json_printer \<Rightarrow> json_parser \<Rightarrow> string \<Rightarrow> u16 \<Rightarrow> forward_event list \<Rightarrow> io_error + control_connection
   \<Rightarrow> (cli_error + unit) option \<times> control_connection option" where
  "run_forward to_string from_str auth_token port events connect =
     (case connect of
        Inl _ \<Rightarrow> (Some (Inl connect_failed), None)
      | Inr conn \<Rightarrow>
          (case register_cli_client to_string from_str auth_token conn of
             (Inl e, conn1) \<Rightarrow> (Some (Inl e), Some conn1)
           | (Inr _, conn1) \<Rightarrow>
               (case conn_send to_string (Forward port Tcp None None) conn1 of
                  (Inl e, conn2) \<Rightarrow> (Some (Inl (CliControl e)), Some conn2)
                | (Inr _, conn2) \<Rightarrow>
                    (case conn_recv from_str conn2 of
                       (Inl e, conn3) \<Rightarrow> (Some (Inl (CliControl e)), Some conn3)
                     | (Inr (ForwardAck p success host_port), conn3) \<Rightarrow>
                         if success then (case hold_forward to_string from_str port events conn3 of (res, conn4) \<Rightarrow> (res, Some conn4))
                         else (Some (Inl (Connection ''host daemon failed to forward port'')), Some conn3)
                     | (Inr _, conn3) \<Rightarrow> (Some (Inl (Connection ''unexpected response'')), Some conn3)))))"

subsection \<open>The daemons\<close>

record host_args =
  ha_bind_addr :: "ip option"
  ha_no_docker_detect :: bool
  ha_control_port :: u16
  ha_data_port :: u16
  ha_exit_on_idle :: bool
  ha_browser_cmd :: "string option"
  ha_auth_token :: "string option"
  ha_auth_token_file :: "bytes option"
  ha_no_auth :: bool
  ha_allow_clipboard :: bool
  ha_no_clipboard :: bool
  ha_socket_watch_paths :: "string list"
  ha_socket_container_path_prefix :: "string option"
  ha_socket_scan_interval_ms :: "u64 option"
  ha_no_socket_forwarding :: bool

definition host_token :: "auth_sources \<Rightarrow> host_args \<Rightarrow> (exit_code + string option) \<times> token_fs" where
  "host_token src args =
     (if ha_no_auth args then (Inr None, as_fs src)
      else (case token_file_path (as_home src) of
              Inl _ \<Rightarrow> (Inl ExitFailure, as_fs src)
            | Inr default_path \<Rightarrow>
                (case resolve_from src (ha_auth_token args) (ha_auth_token_file args) default_path of
                   Inr token \<Rightarrow> (Inr (Some token), as_fs src)
                 | Inl (NoTokenSource _) \<Rightarrow>
                     (case ensure_token (as_env src) default_path (as_fs src) of
                        (Inr token, fs) \<Rightarrow> (Inr (Some token), fs)
                      | (Inl _, fs) \<Rightarrow> (Inl ExitFailure, fs))
                 | Inl _ \<Rightarrow> (Inl ExitFailure, as_fs src))))"

definition host_socket_forwarding :: "host_args \<Rightarrow> config \<Rightarrow> socket_forwarding_config" where
  "host_socket_forwarding args cfg =
     (if ha_no_socket_forwarding args then socket_forwarding_default\<lparr>sf_enabled := False\<rparr>
      else let sf = cf_socket_forwarding cfg;
               sf = (if ha_socket_watch_paths args \<noteq> [] then sf\<lparr>sf_watch_paths := ha_socket_watch_paths args, sf_enabled := True\<rparr> else sf);
               sf = (if ha_socket_container_path_prefix args \<noteq> None
                     then sf\<lparr>sf_container_path_prefix := ha_socket_container_path_prefix args\<rparr> else sf)
           in (case ha_socket_scan_interval_ms args of Some interval \<Rightarrow> sf\<lparr>sf_scan_interval_ms := interval\<rparr> | None \<Rightarrow> sf))"

definition host_daemon_config ::
  "auth_sources \<Rightarrow> config_error + config \<Rightarrow> host_args \<Rightarrow> (exit_code + host_config) \<times> token_fs" where
  "host_daemon_config src loaded args =
     (case loaded of
        Inl _ \<Rightarrow> (Inl ExitFailure, as_fs src)
      | Inr cfg \<Rightarrow>
          (case host_token src args of
             (Inl code, fs) \<Rightarrow> (Inl code, fs)
           | (Inr token, fs) \<Rightarrow>
               (Inr (host_config_default
                       \<lparr>hc_control_port := ha_control_port args, hc_data_port := ha_data_port args, hc_bind_addr := ha_bind_addr args,
                        hc_no_docker_detect := ha_no_docker_detect args, hc_exit_on_idle := ha_exit_on_idle args,
                        hc_browser_cmd := ha_browser_cmd args, hc_auth_token := token,
                        hc_allow_clipboard := \<not> ha_no_clipboard args \<and> (ha_allow_clipboard args \<or> cf_clipboard_enabled cfg),
                        hc_socket_forwarding := host_socket_forwarding args cfg\<rparr>), fs)))"

record container_args =
  ca_host_addr :: "string option"
  ca_scan_interval :: u64
  ca_exclude_ports :: "u16 list"
  ca_auth_token :: "string option"
  ca_auth_token_file :: "bytes option"

definition DEFAULT_CONTAINER_TOKEN_PATH :: bytes where
  "DEFAULT_CONTAINER_TOKEN_PATH = ''/run/secrets/dbr-auth-token''"

definition container_token :: "auth_sources \<Rightarrow> string option \<Rightarrow> bytes option \<Rightarrow> exit_code + string" where
  "container_token src auth_token auth_token_file =
     (let fallback = (case token_file_path (as_home src) of
                        Inl _ \<Rightarrow> Inr []
                      | Inr dp \<Rightarrow> (case resolve_from src None None dp of Inr token \<Rightarrow> Inr token | Inl _ \<Rightarrow> Inr []))
      in case resolve_from src auth_token auth_token_file (components DEFAULT_CONTAINER_TOKEN_PATH) of
           Inr token \<Rightarrow> Inr token
         | Inl (NoTokenSource _) \<Rightarrow> fallback
         | Inl (TokenNotFound _) \<Rightarrow> fallback
         | Inl _ \<Rightarrow> Inl ExitFailure)"

definition container_config :: "container_args \<Rightarrow> config \<Rightarrow> config" where
  "container_config args cfg =
     (let c1 = (if ca_host_addr args \<noteq> None then cfg\<lparr>cf_host_addr := ca_host_addr args\<rparr> else cfg);
          c2 = c1\<lparr>cf_scan_interval_ms := ca_scan_interval args\<rparr>
      in if ca_exclude_ports args \<noteq> [] then c2\<lparr>cf_exclude_ports := ca_exclude_ports args\<rparr> else c2)"

definition daemon_exit :: "container_error + unit \<Rightarrow> exit_code" where
  "daemon_exit res =
     (case res of
        Inr _ \<Rightarrow> ExitSuccess
      | Inl AuthenticationFailed \<Rightarrow> ExitWith EXIT_PERMANENT_FAILURE
      | Inl _ \<Rightarrow> ExitFailure)"

text \<open>\<open>None\<close> is a daemon that is still running when the attempts are used up.\<close>

definition container_daemon_command ::
  "auth_sources \<Rightarrow> resolve_env \<Rightarrow> config_error + config \<Rightarrow> container_args \<Rightarrow> attempt list \<Rightarrow> file_system \<Rightarrow> exit_code option" where
  "container_daemon_command src env loaded args attempts fs =
     (case loaded of
        Inl _ \<Rightarrow> Some ExitFailure
      | Inr cfg \<Rightarrow>
          (case container_token src (ca_auth_token args) (ca_auth_token_file args) of
             Inl code \<Rightarrow> Some code
           | Inr token \<Rightarrow>
               (case fst (container_daemon env (container_config args cfg) token attempts fs) of
                  run_result.Finished res \<Rightarrow> Some (daemon_exit res)
                | _ \<Rightarrow> None)))"

subsection \<open>Pasting\<close>

record paste_args =
  pa_format :: clipboard_format
  pa_host :: "string option"
  pa_data_port :: "u16 option"
  pa_output_dir :: "bytes option"
  pa_tmux_target :: "string option"
  pa_auth_token :: "string option"
  pa_auth_token_file :: "bytes option"

text \<open>Only a container token that is missing sends the search on to the default file.\<close>

definition paste_token :: "auth_sources \<Rightarrow> paste_args \<Rightarrow> auth_error + string" where
  "paste_token src args =
     (case resolve_from src (pa_auth_token args) (pa_auth_token_file args) (components DEFAULT_CONTAINER_TOKEN_PATH) of
        Inl (NoTokenSource _) \<Rightarrow> res_bind (token_file_path (as_home src)) (resolve_from src None None)
      | other \<Rightarrow> other)"

definition paste_output_dir :: "bytes option \<Rightarrow> paste_args \<Rightarrow> bytes option" where
  "paste_output_dir home_os args =
     (case pa_output_dir args of
        Some d \<Rightarrow> Some d
      | None \<Rightarrow> map_option (\<lambda>h. path_join h ''.cache/dbr/paste'') home_os)"

text \<open>
  The exit code, the lines printed, the files left and the commands given to tmux. The
  environment of the paste is that of a connection to the address and port; \<open>home_os\<close> is HOME as the
  system has it.
\<close>

definition paste_command ::
  "auth_sources \<Rightarrow> resolve_env \<Rightarrow> config_error + config \<Rightarrow> bytes option \<Rightarrow> (string \<Rightarrow> u16 \<Rightarrow> paste_env) \<Rightarrow> paste_args
   \<Rightarrow> exit_code \<times> bytes list \<times> (bytes \<times> bytes) list \<times> string list list" where
  "paste_command src renv loaded home_os env_at args =
     (let failed = (ExitFailure, [], [], []) in
      case loaded of
        Inl _ \<Rightarrow> failed
      | Inr cfg \<Rightarrow>
          let cfg = (if pa_host args \<noteq> None then cfg\<lparr>cf_host_addr := pa_host args\<rparr> else cfg) in
          (case paste_token src args of
             Inl _ \<Rightarrow> failed
           | Inr token \<Rightarrow>
               (case resolve_host_addr renv (cf_host_addr cfg) of
                  Inl _ \<Rightarrow> failed
                | Inr host \<Rightarrow>
                    if \<not> is_ip_addr (re_v6 renv) host then failed
                    else (case paste_output_dir home_os args of
                            None \<Rightarrow> failed
                          | Some dir \<Rightarrow>
                              (case paste (env_at host (case pa_data_port args of Some p \<Rightarrow> p | None \<Rightarrow> cf_data_port cfg))
                                      token (pa_format args) dir (pa_tmux_target args) of
                                 (Inl _, files, cmds) \<Rightarrow> (ExitFailure, [], files, cmds)
                               | (Inr saved, files, cmds) \<Rightarrow> (ExitSuccess, sv_paths saved, files, cmds))))))"

definition invoked_as_dbr_open :: "bytes option \<Rightarrow> bool" where
  "invoked_as_dbr_open arg0 = (case Option.bind arg0 file_name of Some name \<Rightarrow> name = ''dbr-open'' | None \<Rightarrow> False)"

text \<open>The control port of \<open>dbr open\<close> is the flag or its default, that of \<open>dbr-open\<close> the one of the configuration.\<close>

definition open_control_port :: "bool \<Rightarrow> u16 option \<Rightarrow> config_error + config \<Rightarrow> u16" where
  "open_control_port hardlink flag loaded =
     (if hardlink then cf_control_port (case loaded of Inr cfg \<Rightarrow> cfg | Inl _ \<Rightarrow> config_default)
      else (case flag of Some port \<Rightarrow> port | None \<Rightarrow> DEFAULT_CONTROL_PORT))"

subsection \<open>The PID file\<close>

definition pid_file_path :: "bytes option \<Rightarrow> io_error + bytes" where
  "pid_file_path home =
     (case home of
        None \<Rightarrow> Inl NotFound
      | Some h \<Rightarrow> Inr (path_join (path_join (path_join h ''.config'') ''dbr'') ''daemon.pid''))"

definition log_file_path :: "bytes option \<Rightarrow> io_error + bytes" where
  "log_file_path home =
     (case pid_file_path home of
        Inl e \<Rightarrow> Inl e
      | Inr p \<Rightarrow> Inr (path_join (take (length p - length ''/daemon.pid'') p) ''daemon.log''))"

text \<open>What the system refuses about the PID file; a failing write leaves a part of it. The file is its contents, if it exists.\<close>

record pid_env =
  pi_create_dir :: "io_error option"
  pi_write :: "(io_error \<times> nat) option"
  pi_remove :: "io_error option"

definition write_pid_file :: "pid_env \<Rightarrow> bytes option \<Rightarrow> u32 \<Rightarrow> string option \<Rightarrow> (io_error + unit) \<times> string option" where
  "write_pid_file env home pid pid_file =
     (case pid_file_path home of
        Inl e \<Rightarrow> (Inl e, pid_file)
      | Inr _ \<Rightarrow>
          (case pi_create_dir env of
             Some e \<Rightarrow> (Inl e, pid_file)
           | None \<Rightarrow>
               (case pi_write env of
                  None \<Rightarrow> (Inr (), Some (show_nat (unat pid)))
                | Some (e, n) \<Rightarrow> (Inl e, Some (take n (show_nat (unat pid)))))))"

definition remove_pid_file :: "pid_env \<Rightarrow> bytes option \<Rightarrow> string option \<Rightarrow> (io_error + unit) \<times> string option" where
  "remove_pid_file env home pid_file =
     (case pid_file_path home of
        Inl e \<Rightarrow> (Inl e, pid_file)
      | Inr _ \<Rightarrow>
          (case pi_remove env of
             Some e \<Rightarrow> (if e = NotFound then Inr () else Inl e, pid_file)
           | None \<Rightarrow> (Inr (), None)))"

subsection \<open>Starting and stopping the host daemon\<close>

definition SPAWN_TIMEOUT :: nat where "SPAWN_TIMEOUT = 5000"
definition POLL_INTERVAL :: nat where "POLL_INTERVAL = 200"

datatype ensure_error =
    PortConflict u16
  | SpawnFailed string
  | SpawnTimeout nat
  | EnsureIo io_error
  | NotRunning u16

text \<open>A connection to the control port, if there is one, and whether its answer comes in time.\<close>

type_synonym probe = "(control_connection \<times> bool) option"

definition answers_pong :: "json_printer \<Rightarrow> json_parser \<Rightarrow> control_connection \<times> bool \<Rightarrow> bool" where
  "answers_pong to_string from_str p =
     (case p of (conn, in_time) \<Rightarrow>
        (case conn_send to_string Ping conn of
           (Inl _, _) \<Rightarrow> False
         | (Inr _, conn1) \<Rightarrow> in_time \<and> fst (conn_recv from_str conn1) = Inr Pong))"

definition auth_flags :: "bool \<Rightarrow> string option \<Rightarrow> string option \<Rightarrow> bytes option \<Rightarrow> bytes list" where
  "auth_flags no_auth auth_token spawn_token auth_token_file =
     (if no_auth then [''--no-auth'']
      else case auth_token of
             Some token \<Rightarrow> [''--auth-token'', token]
           | None \<Rightarrow>
               (case spawn_token of
                  Some token \<Rightarrow> [''--auth-token'', token]
                | None \<Rightarrow> (case auth_token_file of Some f \<Rightarrow> [''--auth-token-file'', f] | None \<Rightarrow> [])))"

definition spawn_args :: "u16 \<Rightarrow> u16 \<Rightarrow> bytes list \<Rightarrow> bytes \<Rightarrow> bytes list" where
  "spawn_args control_port data_port flags log_path =
     [''host-daemon'', ''--control-port'', show_nat (unat control_port), ''--data-port'', show_nat (unat data_port)]
     @ flags @ [''--log-file'', log_path]"

text \<open>
  Each poll comes with the milliseconds since the start when it is over. \<open>None\<close> is a wait that
  goes on when the polls are used up.
\<close>

fun await_daemon :: "json_printer \<Rightarrow> json_parser \<Rightarrow> nat \<Rightarrow> (nat \<times> probe) list \<Rightarrow> (ensure_error + unit) option" where
  "await_daemon to_string from_str now [] = (if now \<ge> SPAWN_TIMEOUT then Some (Inl (SpawnTimeout 5)) else None)"
| "await_daemon to_string from_str now ((later, p) # polls) =
     (if now \<ge> SPAWN_TIMEOUT then Some (Inl (SpawnTimeout 5))
      else (case p of
              Some c \<Rightarrow> if answers_pong to_string from_str c then Some (Inr ()) else await_daemon to_string from_str later polls
            | None \<Rightarrow> await_daemon to_string from_str later polls))"

record ensure_env =
  ee_to_string :: json_printer
  ee_from_str :: json_parser
  ee_probe :: probe
  ee_exe :: "string option"
  ee_spawn :: "u32 option"
  ee_pid_env :: pid_env
  ee_polls :: "(nat \<times> probe) list"

definition ensure_spawn_token :: "auth_sources \<Rightarrow> bool \<Rightarrow> string option \<Rightarrow> bytes option \<Rightarrow> (ensure_error + string option) \<times> token_fs" where
  "ensure_spawn_token src no_auth auth_token auth_token_file =
     (if no_auth \<or> auth_token \<noteq> None \<or> auth_token_file \<noteq> None then (Inr None, as_fs src)
      else (case token_file_path (as_home src) of
              Inl _ \<Rightarrow> (Inl (SpawnFailed ''auth''), as_fs src)
            | Inr default_path \<Rightarrow>
                (case ensure_token (as_env src) default_path (as_fs src) of
                   (Inr token, fs) \<Rightarrow> (Inr (Some token), fs)
                 | (Inl _, fs) \<Rightarrow> (Inl (SpawnFailed ''auth''), fs))))"

text \<open>
  The result, the arguments of the process that was spawned, if any, the token files and the PID file. A PID
  file that cannot be written is no error.
\<close>

definition run_ensure ::
  "ensure_env \<Rightarrow> auth_sources \<Rightarrow> u16 \<Rightarrow> u16 \<Rightarrow> bool \<Rightarrow> string option \<Rightarrow> bytes option \<Rightarrow> string option
   \<Rightarrow> (ensure_error + unit) option \<times> bytes list option \<times> token_fs \<times> string option" where
  "run_ensure env src control_port data_port no_auth auth_token auth_token_file pid_file =
     (case ee_probe env of
        Some p \<Rightarrow>
          (if answers_pong (ee_to_string env) (ee_from_str env) p then Some (Inr ()) else Some (Inl (PortConflict control_port)), None, as_fs src, pid_file)
      | None \<Rightarrow>
          (case ensure_spawn_token src no_auth auth_token auth_token_file of
             (Inl e, fs) \<Rightarrow> (Some (Inl e), None, fs, pid_file)
           | (Inr spawn_token, fs) \<Rightarrow>
               if ee_exe env = None then (Some (Inl (SpawnFailed ''exe'')), None, fs, pid_file)
               else (case log_file_path (as_home src) of
                       Inl e \<Rightarrow> (Some (Inl (EnsureIo e)), None, fs, pid_file)
                     | Inr log_path \<Rightarrow>
                         (case ee_spawn env of
                            None \<Rightarrow> (Some (Inl (SpawnFailed ''spawn'')), None, fs, pid_file)
                          | Some pid \<Rightarrow>
                              (await_daemon (ee_to_string env) (ee_from_str env) 0 (ee_polls env),
                               Some (spawn_args control_port data_port (auth_flags no_auth auth_token spawn_token auth_token_file) log_path),
                               fs, snd (write_pid_file (ee_pid_env env) (as_home src) pid pid_file))))))"

text \<open>The answer of the daemon is read and ignored, and so is a failure to remove the PID file.\<close>

definition run_stop ::
  "json_printer \<Rightarrow> json_parser \<Rightarrow> pid_env \<Rightarrow> bytes option \<Rightarrow> u16 \<Rightarrow> string \<Rightarrow> io_error + control_connection \<Rightarrow> string option
   \<Rightarrow> (ensure_error + unit) \<times> control_connection option \<times> string option" where
  "run_stop to_string from_str penv home control_port auth_token connect pid_file =
     (case connect of
        Inl _ \<Rightarrow> (Inl (NotRunning control_port), None, pid_file)
      | Inr conn \<Rightarrow>
          (case conn_send to_string (Shutdown auth_token) conn of
             (Inl _, conn1) \<Rightarrow> (Inl (NotRunning control_port), Some conn1, pid_file)
           | (Inr _, conn1) \<Rightarrow> (Inr (), Some (snd (conn_recv from_str conn1)), snd (remove_pid_file penv home pid_file))))"

text \<open>The result of the stop is ignored.\<close>

definition run_restart ::
  "ensure_env \<Rightarrow> auth_sources \<Rightarrow> u16 \<Rightarrow> u16 \<Rightarrow> bool \<Rightarrow> string option \<Rightarrow> bytes option \<Rightarrow> io_error + control_connection \<Rightarrow> string option
   \<Rightarrow> ((ensure_error + unit) option \<times> bytes list option \<times> token_fs \<times> string option) \<times> control_connection option" where
  "run_restart env src control_port data_port no_auth auth_token auth_token_file stop_connect pid_file =
     (case run_stop (ee_to_string env) (ee_from_str env) (ee_pid_env env) (as_home src) control_port
             (resolve_cli_auth_token src auth_token auth_token_file) stop_connect pid_file of
        (_, conn, pid_file1) \<Rightarrow> (run_ensure env src control_port data_port no_auth auth_token auth_token_file pid_file1, conn))"

subsection \<open>Properties\<close>

lemma resolved_valid: "resolve_from src a b p = Inr token \<Longrightarrow> validate_token_format token"
  by (auto simp: resolve_from_def resolve_token_def checked_token_def read_token_file_def Let_def
      split: option.splits list.splits sum.splits auth_error.splits if_splits)

lemma ensured_valid: "ensure_token env p fs = (Inr token, fs1) \<Longrightarrow> validate_token_format token"
  by (auto simp: ensure_token_def read_token_file_def Let_def dest: write_token_ok(2)
      split: sum.splits auth_error.splits prod.splits if_splits)

lemma ensured_read:
  assumes "ensure_token env p fs = (Inr token, fs1)" and "ae_read env p = None" and "ae_read env' p = None"
  shows "read_token_file env' p fs1 = Inr token"
proof (cases "read_token_file env p fs")
  case (Inr t)
  then have "t = token" "fs1 = fs"
    using assms(1) by (simp_all add: ensure_token_def)
  then show ?thesis
    using Inr assms(2,3) by (simp add: read_token_file_def read_to_string_def split: option.splits)
next
  case (Inl e)
  then have "write_token_file env p token fs = (Inr (), fs1)"
    using assms(1) by (cases e) (auto simp: ensure_token_def split: sum.splits prod.splits)
  then show ?thesis
    using read_written [OF write_token_ok(1,2) assms(3)] by blast
qed

text \<open>A host daemon that the command line starts is never open by accident: unless authentication is switched
  off on the command line it has a well-formed token; the clipboard is on only if the
  command line or the file asks for it and the command line does not forbid it; sockets are not forwarded
  when the command line forbids it.\<close>

theorem host_daemon_closed_by_default:
  assumes "fst (host_daemon_config src loaded args) = Inr hc"
  shows "(if ha_no_auth args then hc_auth_token hc = None
          else \<exists>token. hc_auth_token hc = Some token \<and> validate_token_format token)
    \<and> (hc_allow_clipboard hc \<longrightarrow> \<not> ha_no_clipboard args \<and> (ha_allow_clipboard args \<or> (\<exists>cfg. loaded = Inr cfg \<and> cf_clipboard_enabled cfg)))
    \<and> (ha_no_socket_forwarding args \<longrightarrow> spawn_socket_scanner hc = None)"
proof -
  obtain cfg token fs where cfg: "loaded = Inr cfg" and t: "host_token src args = (Inr token, fs)"
    and sf: "hc_socket_forwarding hc = host_socket_forwarding args cfg" and hc: "hc_auth_token hc = token"
    "hc_allow_clipboard hc = (\<not> ha_no_clipboard args \<and> (ha_allow_clipboard args \<or> cf_clipboard_enabled cfg))"
    using assms by (auto simp: host_daemon_config_def split: sum.splits prod.splits)
  have "if ha_no_auth args then token = None else \<exists>t. token = Some t \<and> validate_token_format t"
    using t by (auto simp: host_token_def dest: resolved_valid ensured_valid split: if_splits sum.splits auth_error.splits prod.splits)
  then show ?thesis
    using cfg sf hc by (auto simp: host_socket_forwarding_def spawn_socket_scanner_def)
qed

text \<open>C39. \<open>dbr stop\<close> says that the daemon stopped, and removes its PID file, whenever its message could be sent: a daemon that reads the message
  closes the connection in any case, and shuts down only if its token is the one sent.\<close>

theorem stop_reported:
  assumes "fits to_string (he_from_str env) (Shutdown tok)" and "tw_up (cc_writer conn)" and "tw_out (cc_writer conn) = []"
    and "run_stop to_string from_str penv home port tok (Inr conn) pid_file = (res, Some conn1, pid_file1)" and "ahead (cc_reader hconn) (tw_out (cc_writer conn1))"
  shows "res = Inr () \<and> (home \<noteq> None \<and> pi_remove penv = None \<longrightarrow> pid_file1 = None)
    \<and> (\<exists>hconn1. handle_control_connection env False b events hconn d =
          Some (Closed (Inr ()), hconn1, d\<lparr>dc_shutdown := dc_shutdown d \<or> auth_ok (dc_auth_token d) tok\<rparr>))"
proof -
  obtain j where j: "to_string (Shutdown tok) = Some j" "length j < MAX_MESSAGE_SIZE" and codec: "codec_ok to_string (he_from_str env) (Shutdown tok)"
    using assms(1) fits_json [OF assms(1)] by (auto simp: fits_def)
  then have "conn_send to_string (Shutdown tok) conn = (Inr (), conn\<lparr>cc_writer := (cc_writer conn)\<lparr>tw_out := j @ [newline]\<rparr>\<rparr>)"
    using assms(2,3) by (simp add: conn_send_def write_message_def write_all_def)
  then have "res = Inr ()" and out: "tw_out (cc_writer conn1) = j @ newline # []" and "pid_file1 = snd (remove_pid_file penv home pid_file)"
    using assms(4) by (auto simp: run_stop_def conn_recv_def split: prod.splits)
  then have "home \<noteq> None \<and> pi_remove penv = None \<longrightarrow> pid_file1 = None"
    by (auto simp: remove_pid_file_def pid_file_path_def)
  obtain r where "read_message (he_from_str env) (cc_reader hconn) = (Inr (Shutdown tok), r)"
    using read_message_fits [OF codec j] assms(5) out by metis
  then show ?thesis
    using \<open>res = Inr ()\<close> \<open>home \<noteq> None \<and> pi_remove penv = None \<longrightarrow> pid_file1 = None\<close> by (cases "auth_ok (dc_auth_token d) tok") (simp_all add: handle_control_connection_def conn_recv_def)
qed

text \<open>The arguments carry the authentication: the switch, the token of the user or a well-formed one, or the file.\<close>

definition names_auth :: "bool \<Rightarrow> string option \<Rightarrow> bytes option \<Rightarrow> bytes list \<Rightarrow> bool" where
  "names_auth no_auth auth_token auth_token_file args \<longleftrightarrow>
     (if no_auth then ''--no-auth'' \<in> set args
      else (\<exists>token. (auth_token = Some token \<or> auth_token = None \<and> auth_token_file = None \<and> validate_token_format token)
              \<and> (\<exists>a b. args = a @ [''--auth-token'', token] @ b))
         \<or> (\<exists>f. auth_token_file = Some f \<and> (\<exists>a b. args = a @ [''--auth-token-file'', f] @ b)))"

text \<open>C29. \<open>dbr ensure\<close> starts a daemon only when nothing listens on the control port, succeeds only when a daemon
  answered a ping, and never starts one that is open without \<open>--no-auth\<close>: unless the user names a token or
  a file, a well-formed token is passed on.\<close>

theorem ensure_idempotent:
  assumes "run_ensure env src control_port data_port no_auth auth_token auth_token_file pid_file = (res, spawned, fs, pid_file1)"
  shows "(ee_probe env \<noteq> None \<longrightarrow> spawned = None \<and> fs = as_fs src \<and> pid_file1 = pid_file \<and> res \<in> {Some (Inr ()), Some (Inl (PortConflict control_port))})
    \<and> (res = Some (Inr ()) \<longrightarrow> (\<exists>p \<in> set (map snd (ee_polls env)) \<union> {ee_probe env}.
          \<exists>c. p = Some c \<and> answers_pong (ee_to_string env) (ee_from_str env) c))
    \<and> (\<forall>args. spawned = Some args \<longrightarrow> names_auth no_auth auth_token auth_token_file args)"
proof -
  have awaited: "await_daemon to_string from_str now polls = Some (Inr ()) \<Longrightarrow>
      \<exists>p \<in> set (map snd polls). \<exists>c. p = Some c \<and> answers_pong to_string from_str c" for to_string from_str now polls
    by (induction to_string from_str now polls rule: await_daemon.induct) (auto split: if_splits option.splits)
  have args: "names_auth no_auth auth_token auth_token_file args"
    if e: "ensure_spawn_token src no_auth auth_token auth_token_file = (Inr st, fs1)"
      and a: "args = spawn_args control_port data_port (auth_flags no_auth auth_token st auth_token_file) log_path" for st fs1 log_path args
  proof -
    have named: "(\<exists>token. (auth_token = Some token \<or> auth_token = None \<and> auth_token_file = None \<and> validate_token_format token)
          \<and> auth_flags no_auth auth_token st auth_token_file = [''--auth-token'', token])
      \<or> (\<exists>f. auth_token_file = Some f \<and> auth_flags no_auth auth_token st auth_token_file = [''--auth-token-file'', f])" if "\<not> no_auth"
      using e that by (cases auth_token; cases auth_token_file)
        (auto simp: ensure_spawn_token_def auth_flags_def dest: ensured_valid split: sum.splits prod.splits)
    obtain x y where "args = x @ auth_flags no_auth auth_token st auth_token_file @ y"
      unfolding a spawn_args_def by blast
    then have "\<not> no_auth \<Longrightarrow> (\<exists>token. (auth_token = Some token \<or> auth_token = None \<and> auth_token_file = None \<and> validate_token_format token)
          \<and> (\<exists>a b. args = a @ [''--auth-token'', token] @ b))
      \<or> (\<exists>f. auth_token_file = Some f \<and> (\<exists>a b. args = a @ [''--auth-token-file'', f] @ b))"
      using named by metis
    moreover have "no_auth \<Longrightarrow> ''--no-auth'' \<in> set args"
      unfolding a by (simp add: spawn_args_def auth_flags_def)
    ultimately show ?thesis
      unfolding names_auth_def if_bool_eq_conj by blast
  qed
  show ?thesis
  proof (cases "ee_probe env")
    case (Some p)
    then show ?thesis
      using assms by (cases p) (auto simp: run_ensure_def split: if_splits)
  next
    case None
    then show ?thesis
      using assms awaited [of "ee_to_string env" "ee_from_str env" 0 "ee_polls env"] args
      by (auto simp: run_ensure_def split: prod.splits sum.splits option.splits if_splits)
  qed
qed

text \<open>\<open>dbr ensure\<close> returns: when every poll comes after a sleep of 200 ms it has a result after the twenty-fifth,
  whatever happens later.\<close>

theorem ensure_gives_up:
  assumes "25 \<le> length polls" and "\<And>i. i < length polls \<Longrightarrow> (i + 1) * POLL_INTERVAL \<le> fst (polls ! i)"
  shows "\<exists>res. \<forall>others. await_daemon to_string from_str 0 (polls @ others) = Some res"
proof -
  have late: "await_daemon to_string from_str now rest = Some (Inl (SpawnTimeout 5))" if "SPAWN_TIMEOUT \<le> now" for now rest
    using that by (cases rest) auto
  have settled: "polls \<noteq> [] \<Longrightarrow> SPAWN_TIMEOUT \<le> fst (last polls) \<Longrightarrow>
      \<exists>res. \<forall>others. await_daemon to_string from_str now (polls @ others) = Some res" for now polls
  proof (induction polls arbitrary: now)
    case (Cons x polls)
    obtain t p where x: "x = (t, p)"
      by fastforce
    have "\<exists>res. \<forall>others. await_daemon to_string from_str t (polls @ others) = Some res"
    proof (cases "polls = []")
      case False
      then show ?thesis
        using Cons.IH [of t] Cons.prems(2) by simp
    qed (use Cons.prems(2) x late in simp)
    then obtain res where "await_daemon to_string from_str t (polls @ others) = Some res" for others
      by blast
    then show ?case
      by (cases "SPAWN_TIMEOUT \<le> now"; cases p) (auto simp: x)
  qed simp
  have "polls \<noteq> []" and "(length polls - 1) < length polls"
    using assms(1) by auto
  then have "length polls * POLL_INTERVAL \<le> fst (last polls)"
    using assms(2) [of "length polls - 1"] by (simp add: last_conv_nth)
  then have "SPAWN_TIMEOUT \<le> fst (last polls)"
    using assms(1) by (simp add: SPAWN_TIMEOUT_def POLL_INTERVAL_def)
  with \<open>polls \<noteq> []\<close> show ?thesis
    by (rule settled)
qed

text \<open>The exit code 2, which tells a supervisor not to start the daemon again, is used only when the host
  answered a registration with a refusal.\<close>

theorem permanent_failure_exit:
  assumes "container_daemon_command src env loaded args attempts fs = Some (ExitWith n)"
  shows "n = EXIT_PERMANENT_FAILURE \<and> (\<exists>token. container_token src (ca_auth_token args) (ca_auth_token_file args) = Inr token
      \<and> (\<exists>a \<in> set attempts. refused_by_host token a))"
proof -
  have tok: "container_token src a b \<noteq> Inl (ExitWith k)" for a b k
    by (auto simp: container_token_def Let_def split: sum.splits auth_error.splits)
  obtain cfg token res r where token: "container_token src (ca_auth_token args) (ca_auth_token_file args) = Inr token"
    and run: "container_daemon env (container_config args cfg) token attempts fs = (run_result.Finished res, r)"
    and n: "daemon_exit res = ExitWith n"
    using assms tok by (auto simp: container_daemon_command_def split: sum.splits run_result.splits)
      (metis prod.collapse)+
  have res: "res = Inl AuthenticationFailed" "n = EXIT_PERMANENT_FAILURE"
    using n by (auto simp: daemon_exit_def split: sum.splits container_error.splits)
  have resolve: "resolve_host_addr env h \<noteq> Inl AuthenticationFailed" and parse: "parse_addr v6 h' q \<noteq> Inl AuthenticationFailed" for h v6 h' q
    by (simp_all add: resolve_host_addr_def parse_addr_def split: option.split)
  have no_auth_failure: "run_setup env c \<noteq> Inl AuthenticationFailed" for c
    using resolve parse by (auto simp: run_setup_def res_bind_def Let_def split: sum.split)
  let ?r0 = "\<lparr>cr_backoff = backoff_new 100 5000, cr_last_forwarded = [], cr_fs = fs\<rparr>"
  have "\<exists>plan :: run_plan. run_loop (rp_params plan) token attempts ?r0 = (run_result.Finished res, r)"
    using run res no_auth_failure by (cases "run_setup env (container_config args cfg)") (auto simp: container_daemon_def Let_def)
  then obtain plan :: run_plan where loop: "run_loop (rp_params plan) token attempts ?r0 = (run_result.Finished res, r)"
    by blast
  have "backoff_ok (cr_backoff ?r0)"
    by (simp add: backoff_ok_def backoff_new_def)
  then have "\<exists>a \<in> set attempts. refused_by_host token a"
    using run_loop_ok [OF loop] by (simp add: res)
  with token res(2) show ?thesis
    by blast
qed

text \<open>C28. The commands of one user agree on the token: once \<open>dbr ensure\<close> has made or found it, the daemon that it
  spawns and the later commands without a token of their own resolve the same one, so the
  daemon lets them in.\<close>

theorem commands_share_the_token:
  assumes "ensure_spawn_token src False None None = (Inr (Some token), fs)"
    and "non_blank (as_token_var src) = None" and "as_file_var src = None \<or> as_file_var src = Some []"
    and "\<And>p. ae_read (as_env src) p = None" and "\<not> ha_no_auth args" and "ha_auth_token args = Some token"
  shows "host_token (src\<lparr>as_fs := fs\<rparr>) args = (Inr (Some token), fs)
    \<and> resolve_cli_auth_token (src\<lparr>as_fs := fs\<rparr>) None None = token \<and> auth_ok (Some token) token"
proof -
  obtain p where p: "token_file_path (as_home src) = Inr p" and made: "ensure_token (as_env src) p (as_fs src) = (Inr token, fs)"
    using assms(1) by (auto simp: ensure_spawn_token_def split: sum.splits prod.splits)
  have valid: "validate_token_format token"
    by (rule ensured_valid [OF made])
  have trimmed: "trim token = token"
    using trim_ascii [OF token_plain [OF valid], of "[]" "[]"] by simp
  have "read_token_file (as_env src) p fs = Inr token"
    by (rule ensured_read [OF made assms(4) assms(4)])
  then show ?thesis
    using assms p valid trimmed
    by (auto simp: host_token_def resolve_cli_auth_token_def resolve_from_def resolve_token_def checked_token_def auth_ok_def)
qed

subsection \<open>Witnesses\<close>

definition sample_sources :: auth_sources where
  "sample_sources =
     \<lparr>as_env = sample_auth_env, as_fs = \<lparr>tf_files = [], tf_dirs = []\<rparr>, as_home = Some ''/h'', as_token_var = None, as_file_var = None\<rparr>"

definition sample_host_args :: "string \<Rightarrow> host_args" where
  "sample_host_args token =
     \<lparr>ha_bind_addr = None, ha_no_docker_detect = False, ha_control_port = 19285, ha_data_port = 19286, ha_exit_on_idle = False,
      ha_browser_cmd = None, ha_auth_token = Some token, ha_auth_token_file = None, ha_no_auth = False, ha_allow_clipboard = True,
      ha_no_clipboard = True, ha_socket_watch_paths = [''/run/*.sock''], ha_socket_container_path_prefix = None,
      ha_socket_scan_interval_ms = None, ha_no_socket_forwarding = True\<rparr>"

lemma sample_ensured: "\<exists>token fs. ensure_spawn_token sample_sources False None None = (Inr (Some token), fs)"
proof -
  obtain p where p: "token_file_path (Some ''/h'') = Inr p"
    by (simp add: token_file_path_def config_dir_def)
  obtain token where gen: "generate_token sample_auth_env = Inr token"
    by (simp add: generate_token_def sample_auth_env_def)
  have valid: "validate_token_format token"
    by (rule generated_valid [OF gen, of "replicate 32 0xA7"]) (simp_all add: sample_auth_env_def TOKEN_BYTE_LENGTH_def)
  have "fst (write_token_file sample_auth_env p token \<lparr>tf_files = [], tf_dirs = []\<rparr>) = Inr ()"
    using valid by (simp add: write_token_file_def make_parent_def write_file_def set_file_permissions_def
        sample_auth_env_def Let_def split: option.split)
  then have "fst (ensure_token sample_auth_env p \<lparr>tf_files = [], tf_dirs = []\<rparr>) = Inr token"
    using gen by (cases "write_token_file sample_auth_env p token \<lparr>tf_files = [], tf_dirs = []\<rparr>")
      (simp add: ensure_token_def read_token_file_def read_to_string_def sample_auth_env_def)
  then show ?thesis
    using p by (cases "ensure_token sample_auth_env p \<lparr>tf_files = [], tf_dirs = []\<rparr>") (simp add: ensure_spawn_token_def sample_sources_def)
qed

theorem commands_share_the_token_witness:
  "\<exists>token fs. host_token (sample_sources\<lparr>as_fs := fs\<rparr>) (sample_host_args token) = (Inr (Some token), fs)
     \<and> resolve_cli_auth_token (sample_sources\<lparr>as_fs := fs\<rparr>) None None = token"
proof -
  obtain token fs where e: "ensure_spawn_token sample_sources False None None = (Inr (Some token), fs)"
    using sample_ensured by blast
  show ?thesis
    using commands_share_the_token [OF e, of "sample_host_args token"]
    by (auto simp: sample_sources_def non_blank_def sample_auth_env_def sample_host_args_def)
qed

theorem host_daemon_closed_by_default_witness:
  "\<exists>token hc. fst (host_daemon_config sample_sources (Inr config_default) (sample_host_args token)) = Inr hc
     \<and> hc_auth_token hc = Some token \<and> \<not> hc_allow_clipboard hc \<and> spawn_socket_scanner hc = None"
proof -
  obtain token fs where e: "ensure_spawn_token sample_sources False None None = (Inr (Some token), fs)"
    using sample_ensured by blast
  obtain p where p: "token_file_path (Some ''/h'') = Inr p"
    by (simp add: token_file_path_def config_dir_def)
  have valid: "validate_token_format token"
    using e by (auto simp: ensure_spawn_token_def dest: ensured_valid split: if_splits sum.splits prod.splits)
  have "trim token = token"
    using trim_ascii [OF token_plain [OF valid], of "[]" "[]"] by simp
  then have "host_token sample_sources (sample_host_args token) = (Inr (Some token), as_fs sample_sources)"
    using p valid by (simp add: host_token_def resolve_from_def resolve_token_def checked_token_def sample_sources_def sample_host_args_def)
  then obtain hc where run: "fst (host_daemon_config sample_sources (Inr config_default) (sample_host_args token)) = Inr hc"
    and "hc_auth_token hc = Some token"
    by (simp add: host_daemon_config_def)
  then show ?thesis
    using host_daemon_closed_by_default [OF run] by (auto simp: sample_host_args_def)
qed

definition sample_pid_env :: pid_env where
  "sample_pid_env = \<lparr>pi_create_dir = None, pi_write = None, pi_remove = None\<rparr>"

theorem stop_reported_witness:
  "\<exists>conn1 hconn1. run_stop (\<lambda>_. Some ''S'') (\<lambda>_. None) sample_pid_env (Some ''/h'') 19285 ''u'' (Inr (control_connection_new [])) (Some ''7'')
       = (Inr (), Some conn1, None)
     \<and> handle_control_connection (sample_env\<lparr>he_from_str := (\<lambda>_. Some (Shutdown ''u''))\<rparr>) False False [] (sample_conn ''S'') sample_start
         = Some (Closed (Inr ()), hconn1, sample_start)"
proof -
  let ?s = "\<lambda>_ :: message. Some ''S''" and ?p = "\<lambda>_ :: string. Some (Shutdown ''u'')"
  obtain conn1 where run: "run_stop ?s (\<lambda>_. None) sample_pid_env (Some ''/h'') 19285 ''u'' (Inr (control_connection_new [])) (Some ''7'') = (Inr (), Some conn1, None)"
    and out: "tw_out (cc_writer conn1) = [CHR ''S'', newline]"
    by (simp add: run_stop_def conn_send_def write_message_def write_all_def control_connection_new_def MAX_MESSAGE_SIZE_def
        conn_recv_def remove_pid_file_def pid_file_path_def sample_pid_env_def split: prod.split)
  have s: "\<forall>c \<in> set ''S''. is_ascii c"
    by (simp add: is_ascii_def)
  have f: "fits ?s (he_from_str (sample_env\<lparr>he_from_str := ?p\<rparr>)) (Shutdown ''u'')"
    using s [THEN utf8_ok_ascii] s [THEN chars_ascii]
    by (simp add: fits_def codec_ok_def MAX_MESSAGE_SIZE_def str_chars_def is_white_ascii)
  have "clean (cc_reader (sample_conn ''S''))" "stream (cc_reader (sample_conn ''S'')) = [CHR ''S'', newline]"
    by (simp_all add: sample_conn_def control_connection_new_def sample_line_def clean_def stream_def)
  then have a: "ahead (cc_reader (sample_conn ''S'')) (tw_out (cc_writer conn1))"
    unfolding ahead_def out by (intro conjI aligned_ascii) (simp_all add: is_ascii_def)
  have d: "dc_auth_token sample_start = Some ''t''"
    by (simp add: sample_start_def host_start_def sample_config_def host_config_default_def resolve_bind_addr_def detect_docker_def)
  show ?thesis
    using stop_reported [OF f _ _ run a, of False "[]" sample_start] d run
    by (auto simp: control_connection_new_def auth_ok_def)
qed

definition sample_ensure :: ensure_env where
  "sample_ensure =
     \<lparr>ee_to_string = (\<lambda>_. Some ''{}''), ee_from_str = (\<lambda>_. Some Pong), ee_probe = None, ee_exe = Some ''dbr'', ee_spawn = Some 7, ee_pid_env = sample_pid_env,
      ee_polls = [(200, None), (400, Some (control_connection_new [Seg (''{}'' @ [newline])], True))]\<rparr>"

theorem ensure_idempotent_witness:
  "\<exists>args. run_ensure sample_ensure sample_sources 19285 19286 False (Some ''t'') None None = (Some (Inr ()), Some args, as_fs sample_sources, Some (show_nat 7))
     \<and> names_auth False (Some ''t'') None args"
proof -
  have line: "read_line \<lparr>br_buf = [], br_net = [Seg (''{}'' @ [newline])]\<rparr> [] = (Inr (''{}'' @ [newline]), \<lparr>br_buf = [], br_net = []\<rparr>)"
    by (subst read_line.simps) (simp add: fill_buf_def consume_def utf8_ok_ascii is_ascii_def)
  have "answers_pong (\<lambda>_. Some ''{}'') (\<lambda>_. Some Pong) (control_connection_new [Seg (''{}'' @ [newline])], True)"
    unfolding answers_pong_def control_connection_new_def conn_send_def conn_recv_def read_message_def
    by (simp add: write_message_def write_all_def MAX_MESSAGE_SIZE_def line [simplified])
  then obtain args where run: "run_ensure sample_ensure sample_sources 19285 19286 False (Some ''t'') None None = (Some (Inr ()), Some args, as_fs sample_sources, Some (show_nat 7))"
    by (simp add: run_ensure_def sample_ensure_def ensure_spawn_token_def SPAWN_TIMEOUT_def
        log_file_path_def pid_file_path_def write_pid_file_def sample_pid_env_def sample_sources_def)
  show ?thesis
    using run ensure_idempotent [OF run, THEN conjunct2, THEN conjunct2] by blast
qed

theorem ensure_gives_up_witness:
  "\<exists>res. \<forall>others. await_daemon (\<lambda>_. None) (\<lambda>_. None) 0 (map (\<lambda>i. ((i + 1) * 200, None)) [0..<25] @ others) = Some res"
  by (rule ensure_gives_up) (simp_all add: POLL_INTERVAL_def)

definition sample_container_args :: container_args where
  "sample_container_args =
     \<lparr>ca_host_addr = Some ''1.2.3.4'', ca_scan_interval = 1000, ca_exclude_ports = [], ca_auth_token = None, ca_auth_token_file = None\<rparr>"

theorem permanent_failure_exit_witness:
  "\<exists>token. container_daemon_command sample_sources sample_resolve (Inr config_default) sample_container_args [sample_attempt True] sample_fs
       = Some (ExitWith 2)
     \<and> container_token sample_sources None None = Inr token \<and> refused_by_host token (sample_attempt True)"
proof -
  have "resolve_from sample_sources None None p = Inl (NoTokenSource p)" for p
    by (simp add: resolve_from_def resolve_token_def non_blank_def sample_sources_def read_token_file_def read_to_string_def sample_auth_env_def)
  then obtain token where t: "container_token sample_sources None None = Inr token"
    by (cases "token_file_path (as_home sample_sources)") (simp_all add: container_token_def)
  have ip: "parse_ipv4 ''1.2.3.4'' = Some [1, 2, 3, 4]"
    by (simp add: parse_ipv4_def parse_octet_def digit_val_def is_ascii_digit_def)
  obtain plan :: run_plan where "run_setup sample_resolve (container_config sample_container_args config_default) = Inr plan"
    using ip by (auto simp: run_setup_def resolve_host_addr_def container_config_def sample_container_args_def is_ip_addr_def
        parse_addr_def parse_socket_addr_def host_and_port_split parse_port_show port_filter_new_def config_default_def Let_def)
  then have run: "container_daemon_command sample_sources sample_resolve (Inr config_default) sample_container_args [sample_attempt True] sample_fs
      = Some (ExitWith 2)"
    using t by (simp add: container_daemon_command_def sample_container_args_def container_daemon_def sample_refused daemon_exit_def
        EXIT_PERMANENT_FAILURE_def)
  show ?thesis
    using permanent_failure_exit [OF run] t run by (auto simp: sample_container_args_def)
qed

end
