(* ===== verification/Daemon.thy ===== *)
theory Daemon
  imports HostProps Cli
begin

section \<open>The host daemon from start to stop\<close>

text \<open>
  The main loop of \<open>run\<close> in \<open>host/mod.rs\<close>: the handlers that it spawns, as operations of theory HostSeq, until a
  signal comes or the request for a shutdown is taken from its channel; then the teardown and
  the removal of the PID file. What ends the daemon, and what is left after it.
\<close>

datatype daemon_event = Turn host_op | Requested | Interrupted | Terminated

text \<open>
  The result says whether the loop was left. The channel of the request has an item once \<open>dc_shutdown\<close> is set;
  before that, its branch is not ready. \<open>None\<close> is a port search that never returns.
\<close>

fun daemon_loop :: "daemon_event list \<Rightarrow> daemon_context \<Rightarrow> (bool \<times> daemon_context) option" where
  "daemon_loop [] d = Some (False, d)"
| "daemon_loop (Turn op # evs) d = (case run_op op d of None \<Rightarrow> None | Some d1 \<Rightarrow> daemon_loop evs d1)"
| "daemon_loop (Requested # evs) d = (if dc_shutdown d then Some (True, d) else daemon_loop evs d)"
| "daemon_loop (Interrupted # evs) d = Some (True, d)"
| "daemon_loop (Terminated # evs) d = Some (True, d)"

definition daemon_run ::
  "bool option \<Rightarrow> (ip \<Rightarrow> u16 \<Rightarrow> bool) \<Rightarrow> bool \<Rightarrow> pid_env \<Rightarrow> bytes option \<Rightarrow> host_config \<Rightarrow> daemon_event list \<Rightarrow> string option
   \<Rightarrow> (host_error + bool \<times> daemon_context \<times> string option) option" where
  "daemon_run docker_info can_bind signals penv home config events pid_file =
     (case host_start docker_info can_bind signals config of
        Inl e \<Rightarrow> Some (Inl e)
      | Inr (_, d) \<Rightarrow>
          (case daemon_loop events d of
             None \<Rightarrow> None
           | Some (False, d1) \<Rightarrow> Some (Inr (False, d1, pid_file))
           | Some (True, d1) \<Rightarrow> Some (Inr (True, host_stop config d1, snd (remove_pid_file penv home pid_file)))))"

subsection \<open>What the handlers leave alone\<close>

text \<open>The token, and the request for a shutdown.\<close>

definition gate :: "daemon_context \<Rightarrow> string option \<times> bool" where
  "gate d = (dc_auth_token d, dc_shutdown d)"

lemma gate_effects [simp]:
  "gate (log_effects es d) = gate d" "gate (teardown_one port f d) = gate d" "gate (teardown_many t fs d) = gate d"
  "gate (update_tracker g trk d) = gate d" "gate (update_state h d) = gate d" "gate (try_send m out d) = gate d"
  by (simp_all add: gate_def log_effects_def teardown_one_def teardown_many_def update_tracker_def update_state_def try_send_def Let_def)

lemma gate_fields [simp]:
  "gate (d\<lparr>dc_state := s\<rparr>) = gate d" "gate (d\<lparr>dc_pending := p\<rparr>) = gate d" "gate (d\<lparr>dc_browser := b\<rparr>) = gate d"
  "gate (d\<lparr>dc_requests := q\<rparr>) = gate d" "gate (d\<lparr>dc_outbound := o1\<rparr>) = gate d" "gate (d\<lparr>dc_next := n\<rparr>) = gate d"
  "gate (d\<lparr>dc_trackers := t\<rparr>) = gate d" "gate (d\<lparr>dc_next_registration_id := r\<rparr>) = gate d"
  by (simp_all add: gate_def)

lemma gate_broadcast [simp]: "gate (broadcast m senders d) = gate d"
  unfolding broadcast_def by (induction senders arbitrary: d) simp_all

lemma gate_broadcasts [simp]: "gate (fold (\<lambda>i. broadcast (m i) senders) is d) = gate d"
  by (induction "is" arbitrary: d) simp_all

lemma gate_listener: "start_listener env p c d = (r, d') \<Longrightarrow> gate d' = gate d"
  by (auto simp: start_listener_def Let_def split: sum.splits)

lemma gate_forward: "handle_forward env cid port name pid d = Some (r, d') \<Longrightarrow> gate d' = gate d"
  by (auto simp: handle_forward_def Let_def dest!: gate_listener split: prod.splits sum.splits option.splits)

lemma gate_unforward [simp]: "gate (handle_unforward cid port d) = gate d" "gate (handle_unforward_global port d) = gate d"
  by (auto simp: handle_unforward_def handle_unforward_global_def split: prod.split option.split)

lemma gate_client [simp]:
  "gate (snd (open_url env url d)) = gate d" "gate (snd (snd (socket_connect env i cn conn d))) = gate d"
  "gate (snd (client_begin conn_id client d)) = gate d" "gate (snd (client_end copy conn_id trk rx w ended d)) = gate d"
  "gate (snd (scanner_turn lossy senv scanner d)) = gate d" "gate (snd (cleanup_container cid reg d)) = gate d"
  "gate (snd (snd (handle_data_connection env show_error capture others late timed_out stopped sock rd w d))) = gate d"
  by (auto simp: handle_data_connection_def open_url_def socket_connect_def client_begin_def client_end_def scanner_turn_def cleanup_container_def Let_def
      split: prod.split sum.split option.split message.split)

lemma gate_dispatch:
  assumes "dispatch_container_message env msg cid reg conn d = Some (r, conn', d')"
  shows "gate d' = gate d"
proof -
  have ack: "send_ack env m b conn d1 = (r, conn', d') \<Longrightarrow> d' = d1" for m b d1
    by (auto simp: send_ack_def split: prod.splits sum.splits)
  show ?thesis
  proof (cases msg)
    case (Forward port protocol name pid)
    show ?thesis
      using assms gate_forward [of env cid port name pid d] unfolding Forward dispatch_container_message_def
      by (auto dest!: ack split: if_splits option.splits prod.splits sum.splits)
  next
    case (OpenUrl url)
    obtain success d1 where u: "open_url env url d = (success, d1)"
      by fastforce
    then have "gate d1 = gate d"
      using gate_client(1) [of env url d] by simp
    then show ?thesis
      using assms OpenUrl u by (auto simp: dispatch_container_message_def dest!: ack)
  next
    case (SocketConnectRequest i cn)
    then have "d' = snd (snd (socket_connect env i cn conn d))"
      using assms by (auto simp: dispatch_container_message_def split: prod.splits)
    then show ?thesis
      by simp
  qed (use assms in \<open>auto simp: dispatch_container_message_def Let_def dest!: ack split: if_splits\<close>)
qed

lemma gate_messages:
  "handle_container_messages cid reg req out events missed conn d = Some (r, conn', d') \<Longrightarrow> gate d' = gate d"
proof (induction cid reg req out events missed conn d rule: handle_container_messages.induct)
  case (2 cid reg req out env evs missed conn d)
  obtain m conn1 where m: "conn_recv (he_from_str env) conn = (m, conn1)"
    by fastforce
  show ?case
  proof (cases m)
    case (Inr msg)
    obtain b conn2 d1 where q: "dispatch_container_message env msg cid reg conn1 d = Some (b, conn2, d1)"
      using "2.prems" m Inr by (cases "dispatch_container_message env msg cid reg conn1 d") auto
    show ?thesis
    proof (cases b)
      case (Inl e)
      then show ?thesis
        using "2.prems" m \<open>m = Inr msg\<close> q gate_dispatch [OF q] by simp
    next
      case (Inr pong)
      then show ?thesis
        using "2.IH" [OF m [symmetric] \<open>m = Inr msg\<close> q refl Inr refl] "2.prems" m \<open>m = Inr msg\<close> q gate_dispatch [OF q] by simp
    qed
  qed (use "2.prems" m in simp)
qed (auto simp: Let_def split: list.splits sum.splits prod.splits if_splits)

lemma gate_end: "gate (snd (end_connection idle cid reg req out r d)) = (dc_auth_token d, dc_shutdown d)
    \<or> idle \<and> gate (snd (end_connection idle cid reg req out r d)) = (dc_auth_token d, True)"
proof -
  define d1 where "d1 = d\<lparr>dc_requests := (dc_requests d)(req := (dc_requests d req)\<lparr>mq_open := False\<rparr>),
      dc_outbound := (dc_outbound d)(out := (dc_outbound d out)\<lparr>mq_open := False\<rparr>)\<rparr>"
  define d2 where "d2 = snd (cleanup_container cid reg d1)"
  have "gate d2 = (dc_auth_token d, dc_shutdown d)"
    unfolding d2_def gate_client(6) by (simp add: d1_def gate_def)
  then show ?thesis
    by (auto simp: end_connection_def Let_def d1_def [symmetric] d2_def [symmetric] gate_def)
qed

text \<open>An operation asks for the shutdown: a message with the right token, or the last container of a daemon that exits when idle.\<close>

fun op_stops :: "string option \<Rightarrow> host_op \<Rightarrow> bool" where
  "op_stops tok (host_op.Connection env timed_out exit_on_idle events conn) \<longleftrightarrow>
     exit_on_idle \<or> (\<exists>t. fst (conn_recv (he_from_str env) conn) = Inr (Shutdown t) \<and> auth_ok tok t)"
| "op_stops tok (EndConnection exit_on_idle cid reg req out result) \<longleftrightarrow> exit_on_idle"
| "op_stops tok op \<longleftrightarrow> False"

definition kept :: "bool \<Rightarrow> daemon_context \<Rightarrow> daemon_context \<Rightarrow> bool" where
  "kept may_stop d d' \<longleftrightarrow> gate d' = gate d \<or> may_stop \<and> gate d' = (dc_auth_token d, True)"

lemma kept_same [simp]: "gate d' = gate d \<Longrightarrow> kept b d d'"
  by (simp add: kept_def)

lemma kept_register:
  assumes "register_container env idle cid h tok events conn d = Some (r, conn', d')"
  shows "kept idle d d'"
proof -
  have serve: "kept idle d2 d3" if "serve_container env idle cid h events conn1 d2 = Some (r, conn', d3)" for conn1 d2 d3
  proof -
    obtain reg req out d4 where e: "enter_container cid h d2 = (reg, req, out, d4)"
      by (cases "enter_container cid h d2") auto
    then have g: "gate d4 = gate d2"
      by (auto simp: enter_container_def Let_def)
    show ?thesis
      using that e g gate_end [of idle cid reg req out]
      by (auto simp: serve_container_def kept_def gate_def dest!: gate_messages split: option.splits loop_result.splits prod.splits)
        (metis Pair_inject gate_def snd_conv)+
  qed
  show ?thesis
  proof (cases "register_take cid (dc_state d)")
    case (Pair x s1)
    show ?thesis
    proof (cases x)
      case (Inl e)
      then show ?thesis
        using assms Pair by (auto simp: register_container_def reply_and_close_def split: if_splits prod.splits)
    next
      case (Inr old)
      define d2 where "d2 = (case old of Some forwards \<Rightarrow> teardown_many DEFAULT_DRAIN_TIMEOUT forwards (d\<lparr>dc_state := s1\<rparr>)
        | None \<Rightarrow> d\<lparr>dc_state := s1\<rparr>)"
      have g: "gate d2 = gate d"
        by (simp add: d2_def split: option.split)
      consider "d' = d" | "d' = d2" | conn1 where "serve_container env idle cid h events conn1 d2 = Some (r, conn', d')"
        using assms Pair Inr unfolding register_container_def reply_and_close_def Let_def
        by (auto simp: d2_def [symmetric] split: if_splits prod.splits sum.splits)
      then show ?thesis
      proof cases
        case (3 conn1)
        then show ?thesis
          using serve [OF 3] g by (simp add: kept_def gate_def)
      qed (use g in simp_all)
    qed
  qed
qed

lemma kept_control:
  assumes "handle_control_connection env timed_out idle events conn d = Some (r, conn', d')"
  shows "kept (idle \<or> (\<exists>t. fst (conn_recv (he_from_str env) conn) = Inr (Shutdown t) \<and> auth_ok (dc_auth_token d) t)) d d'"
proof -
  obtain m conn1 where m: "conn_recv (he_from_str env) conn = (m, conn1)"
    by fastforce
  consider e where "timed_out \<or> m = Inl e" | msg where "\<not> timed_out" "m = Inr msg"
    by (cases m) auto
  then show ?thesis
  proof cases
    case 1
    then show ?thesis
      using assms m by (cases timed_out) (auto simp: handle_control_connection_def)
  next
    case 2
    show ?thesis
    proof (cases msg)
      case (Register cid h tok)
      then show ?thesis
        using kept_register [of env idle cid h tok events conn1 d r conn' d'] assms m 2
        by (auto simp: handle_control_connection_def kept_def)
    next
      case (OpenUrl url)
      obtain success d1 where u: "open_url env url d = (success, d1)"
        by fastforce
      then have "gate d1 = gate d"
        using gate_client(1) [of env url d] by simp
      then show ?thesis
        using assms OpenUrl u m 2 by (auto simp: handle_control_connection_def reply_and_close_def split: prod.splits)
    next
      case (Shutdown tok)
      then show ?thesis
        using assms m 2 by (auto simp: handle_control_connection_def kept_def gate_def split: if_splits)
    qed (use assms m 2 in \<open>auto simp: handle_control_connection_def reply_and_close_def split: prod.splits\<close>)
  qed
qed

lemma kept_op: "run_op op d = Some d' \<Longrightarrow> kept (op_stops (dc_auth_token d) op) d d'"
proof (cases op)
  case (Connection env timed_out idle events conn)
  assume "run_op op d = Some d'"
  then show ?thesis
    using kept_control [of env timed_out idle events conn d] Connection by fastforce
next
  case (EndConnection idle cid reg req out result)
  assume "run_op op d = Some d'"
  then show ?thesis
    using gate_end [of idle cid reg req out result d] EndConnection by (auto simp: kept_def gate_def)
next
  case (Stop config)
  assume "run_op op d = Some d'"
  then show ?thesis
    using Stop by (auto simp: host_stop_def drain_all_forwards_def split: prod.splits)
qed (auto dest: gate_messages)

lemma loop_gate:
  "daemon_loop evs d = Some (left, d') \<Longrightarrow> dc_auth_token d' = dc_auth_token d
   \<and> (dc_shutdown d' \<longrightarrow> dc_shutdown d \<or> (\<exists>op. Turn op \<in> set evs \<and> op_stops (dc_auth_token d) op))
   \<and> (left \<longrightarrow> dc_shutdown d' \<or> Interrupted \<in> set evs \<or> Terminated \<in> set evs)"
proof (induction evs d rule: daemon_loop.induct)
  case (2 op evs d)
  obtain d1 where d1: "run_op op d = Some d1"
    using "2.prems" by (cases "run_op op d") auto
  show ?case
    using "2.IH" [OF d1] "2.prems" d1 kept_op [OF d1] by (auto simp: kept_def gate_def)
qed (auto split: if_splits)

subsection \<open>Properties\<close>

lemma stop_shuts_down:
  assumes "fwd (dc_state d) cid port = Some f"
  shows "ShutdownSent (fs_listener f) \<in> set (dc_effects (host_stop config d))"
proof -
  obtain c where c: "hm_get (hs_containers (dc_state d)) cid = Some c" "hm_get (con_forwards c) port = Some f"
    using assms by (auto simp: fwd_def split: option.splits)
  then have "(cid, c) \<in> set (hs_containers (dc_state d))" "(port, f) \<in> set (con_forwards c)"
    by (blast dest: hm_get_value)+
  then have "(port, f) \<in> set (fst (drain_all_take (dc_state d)))"
    by (force simp: drain_all_take_def)
  then show ?thesis
    by (force simp: host_stop_def drain_all_forwards_def teardown_many_def log_effects_def Let_def split: prod.split)
qed



end
