(* ===== verification/Args.thy ===== *)
theory Args
  imports Daemon
begin

section \<open>The arguments of the command line (src/cli.rs)\<close>

text \<open>
  \<open>cli.rs\<close> declares the arguments, and clap reads them. Its splitting of the command line into flags,
  options with their values and operands is a parameter (\<open>raw_args\<close> is its result), and so are its
  parsers of numbers and addresses. What the declarations say of an argument is as documented for clap: a
  long option is the name of its field with hyphens, an option that is not a list may be given
  once, \<open>default_value\<close> stands for an option that is absent, \<open>value_delimiter\<close> splits the values of a list, a
  \<open>bool\<close> is a flag, and \<open>conflicts_with_all\<close> refuses the flags together.
\<close>

record raw_args =
  ra_flags :: "string list"
  ra_values :: "(string \<times> bytes) list"
  ra_operands :: "bytes list"

record value_parsers =
  vp_ip :: "bytes \<Rightarrow> ip option"
  vp_u16 :: "bytes \<Rightarrow> u16 option"
  vp_u64 :: "bytes \<Rightarrow> u64 option"

datatype arg_error = UnknownArgument | ArgumentConflict | InvalidArgument string | MissingArgument string

definition flag :: "string \<Rightarrow> raw_args \<Rightarrow> bool" where
  "flag name raw \<longleftrightarrow> name \<in> set (ra_flags raw)"

definition values_of :: "string \<Rightarrow> raw_args \<Rightarrow> bytes list" where
  "values_of name raw = map snd (filter (\<lambda>(n, _). n = name) (ra_values raw))"

definition text_value :: "bytes \<Rightarrow> string option" where
  "text_value v = (if utf8_ok v then Some v else None)"

definition path_value :: "bytes \<Rightarrow> bytes option" where
  "path_value v = (if v = [] then None else Some v)"

fun parse_all :: "(bytes \<Rightarrow> 'a option) \<Rightarrow> string \<Rightarrow> bytes list \<Rightarrow> arg_error + 'a list" where
  "parse_all parse name [] = Inr []"
| "parse_all parse name (v # vs) =
     (case parse v of
        None \<Rightarrow> Inl (InvalidArgument name)
      | Some x \<Rightarrow> res_bind (parse_all parse name vs) (\<lambda>xs. Inr (x # xs)))"

definition optional :: "(bytes \<Rightarrow> 'a option) \<Rightarrow> string \<Rightarrow> raw_args \<Rightarrow> arg_error + 'a option" where
  "optional parse name raw =
     (case values_of name raw of
        [] \<Rightarrow> Inr None
      | [v] \<Rightarrow> (case parse v of Some x \<Rightarrow> Inr (Some x) | None \<Rightarrow> Inl (InvalidArgument name))
      | _ \<Rightarrow> Inl ArgumentConflict)"

definition defaulted :: "(bytes \<Rightarrow> 'a option) \<Rightarrow> string \<Rightarrow> 'a \<Rightarrow> raw_args \<Rightarrow> arg_error + 'a" where
  "defaulted parse name d raw =
     res_bind (optional parse name raw) (\<lambda>v. Inr (case v of Some x \<Rightarrow> x | None \<Rightarrow> d))"

fun split_commas :: "bytes \<Rightarrow> bytes list" where
  "split_commas [] = [[]]"
| "split_commas (c # cs) =
     (if c = CHR '','' then [] # split_commas cs
      else (case split_commas cs of [] \<Rightarrow> [[c]] | w # ws \<Rightarrow> (c # w) # ws))"

definition comma_list :: "(bytes \<Rightarrow> 'a option) \<Rightarrow> string \<Rightarrow> raw_args \<Rightarrow> arg_error + 'a list" where
  "comma_list parse name raw = parse_all parse name (concat (map split_commas (values_of name raw)))"

definition operand :: "(bytes \<Rightarrow> 'a option) \<Rightarrow> string \<Rightarrow> raw_args \<Rightarrow> arg_error + 'a" where
  "operand parse name raw =
     (case ra_operands raw of
        [] \<Rightarrow> Inl (MissingArgument name)
      | v # _ \<Rightarrow> (case parse v of Some x \<Rightarrow> Inr x | None \<Rightarrow> Inl (InvalidArgument name)))"

text \<open>The arguments of a subcommand: its flags, its options, the number of its operands.\<close>

definition check_known :: "string list \<Rightarrow> string list \<Rightarrow> nat \<Rightarrow> raw_args \<Rightarrow> arg_error + unit" where
  "check_known flags opts operands raw =
     (if \<not> (set (ra_flags raw) \<subseteq> set flags \<and> fst ` set (ra_values raw) \<subseteq> set opts \<and> length (ra_operands raw) \<le> operands)
      then Inl UnknownArgument
      else if \<not> distinct (ra_flags raw) then Inl ArgumentConflict
      else Inr ())"

subsection \<open>The subcommands\<close>

record host_daemon_args = host_args +
  hd_log_level :: string
  hd_log_format :: string
  hd_log_file :: "string option"

definition host_daemon_flags :: "string list" where
  "host_daemon_flags =
     [''no-docker-detect'', ''exit-on-idle'', ''no-auth'', ''allow-clipboard'', ''no-clipboard'', ''no-socket-forwarding'']"

definition host_daemon_options :: "string list" where
  "host_daemon_options =
     [''bind-addr'', ''control-port'', ''data-port'', ''log-level'', ''log-format'', ''log-file'', ''browser-cmd'', ''auth-token'',
      ''auth-token-file'', ''socket-watch-paths'', ''socket-container-path-prefix'', ''socket-scan-interval-ms'']"

definition parse_host_daemon :: "value_parsers \<Rightarrow> raw_args \<Rightarrow> arg_error + host_daemon_args" where
  "parse_host_daemon vp raw =
     res_bind (check_known host_daemon_flags host_daemon_options 0 raw) (\<lambda>_.
     res_bind (optional (vp_ip vp) ''bind-addr'' raw) (\<lambda>bind_addr.
     res_bind (defaulted (vp_u16 vp) ''control-port'' DEFAULT_CONTROL_PORT raw) (\<lambda>control_port.
     res_bind (defaulted (vp_u16 vp) ''data-port'' DEFAULT_DATA_PORT raw) (\<lambda>data_port.
     res_bind (defaulted text_value ''log-level'' DEFAULT_LOG_LEVEL raw) (\<lambda>log_level.
     res_bind (defaulted text_value ''log-format'' DEFAULT_LOG_FORMAT raw) (\<lambda>log_format.
     res_bind (optional text_value ''log-file'' raw) (\<lambda>log_file.
     res_bind (optional text_value ''browser-cmd'' raw) (\<lambda>browser_cmd.
     res_bind (optional text_value ''auth-token'' raw) (\<lambda>auth_token.
     res_bind (optional text_value ''auth-token-file'' raw) (\<lambda>auth_token_file.
     res_bind (comma_list text_value ''socket-watch-paths'' raw) (\<lambda>socket_watch_paths.
     res_bind (optional text_value ''socket-container-path-prefix'' raw) (\<lambda>socket_container_path_prefix.
     res_bind (optional (vp_u64 vp) ''socket-scan-interval-ms'' raw) (\<lambda>socket_scan_interval_ms.
     if flag ''allow-clipboard'' raw \<and> (flag ''no-auth'' raw \<or> flag ''no-clipboard'' raw) then Inl ArgumentConflict
     else Inr \<lparr>ha_bind_addr = bind_addr, ha_no_docker_detect = flag ''no-docker-detect'' raw, ha_control_port = control_port,
       ha_data_port = data_port, ha_exit_on_idle = flag ''exit-on-idle'' raw, ha_browser_cmd = browser_cmd, ha_auth_token = auth_token,
       ha_auth_token_file = auth_token_file, ha_no_auth = flag ''no-auth'' raw, ha_allow_clipboard = flag ''allow-clipboard'' raw,
       ha_no_clipboard = flag ''no-clipboard'' raw, ha_socket_watch_paths = socket_watch_paths,
       ha_socket_container_path_prefix = socket_container_path_prefix, ha_socket_scan_interval_ms = socket_scan_interval_ms,
       ha_no_socket_forwarding = flag ''no-socket-forwarding'' raw,
       hd_log_level = log_level, hd_log_format = log_format, hd_log_file = log_file\<rparr>)))))))))))))"

definition format_value :: "bytes \<Rightarrow> clipboard_format option" where
  "format_value v = (if v = ''auto'' then Some Auto else if v = ''png'' then Some Png else if v = ''jpeg'' then Some Jpeg else None)"

definition parse_paste :: "value_parsers \<Rightarrow> raw_args \<Rightarrow> arg_error + paste_args" where
  "parse_paste vp raw =
     res_bind (check_known [] [''format'', ''host'', ''data-port'', ''output-dir'', ''tmux-target'', ''auth-token'', ''auth-token-file''] 0 raw) (\<lambda>_.
     res_bind (defaulted format_value ''format'' Auto raw) (\<lambda>format.
     res_bind (optional text_value ''host'' raw) (\<lambda>host.
     res_bind (optional (vp_u16 vp) ''data-port'' raw) (\<lambda>data_port.
     res_bind (optional path_value ''output-dir'' raw) (\<lambda>output_dir.
     res_bind (optional text_value ''tmux-target'' raw) (\<lambda>tmux_target.
     res_bind (optional text_value ''auth-token'' raw) (\<lambda>auth_token.
     res_bind (optional text_value ''auth-token-file'' raw) (\<lambda>auth_token_file.
     Inr \<lparr>pa_format = format, pa_host = host, pa_data_port = data_port, pa_output_dir = output_dir, pa_tmux_target = tmux_target,
       pa_auth_token = auth_token, pa_auth_token_file = auth_token_file\<rparr>))))))))"

record container_daemon_args = container_args +
  cd_log_level :: string
  cd_log_format :: string
  cd_log_file :: "string option"

definition parse_container_daemon :: "value_parsers \<Rightarrow> raw_args \<Rightarrow> arg_error + container_daemon_args" where
  "parse_container_daemon vp raw =
     res_bind (check_known [] [''host-addr'', ''scan-interval'', ''exclude-ports'', ''log-level'', ''log-format'', ''log-file'', ''auth-token'',
       ''auth-token-file''] 0 raw) (\<lambda>_.
     res_bind (optional text_value ''host-addr'' raw) (\<lambda>host_addr.
     res_bind (defaulted (vp_u64 vp) ''scan-interval'' DEFAULT_SCAN_INTERVAL_MS raw) (\<lambda>scan_interval.
     res_bind (comma_list (vp_u16 vp) ''exclude-ports'' raw) (\<lambda>exclude_ports.
     res_bind (defaulted text_value ''log-level'' DEFAULT_LOG_LEVEL raw) (\<lambda>log_level.
     res_bind (defaulted text_value ''log-format'' DEFAULT_LOG_FORMAT raw) (\<lambda>log_format.
     res_bind (optional text_value ''log-file'' raw) (\<lambda>log_file.
     res_bind (optional text_value ''auth-token'' raw) (\<lambda>auth_token.
     res_bind (optional text_value ''auth-token-file'' raw) (\<lambda>auth_token_file.
     Inr \<lparr>ca_host_addr = host_addr, ca_scan_interval = scan_interval, ca_exclude_ports = exclude_ports, ca_auth_token = auth_token,
       ca_auth_token_file = auth_token_file, cd_log_level = log_level, cd_log_format = log_format, cd_log_file = log_file\<rparr>)))))))))"

record status_args =
  st_control_port :: u16
  st_host :: "string option"
  st_json :: bool
  st_auth_token :: "string option"
  st_auth_token_file :: "string option"

definition parse_status :: "value_parsers \<Rightarrow> raw_args \<Rightarrow> arg_error + status_args" where
  "parse_status vp raw =
     res_bind (check_known [''json''] [''control-port'', ''host'', ''auth-token'', ''auth-token-file''] 0 raw) (\<lambda>_.
     res_bind (defaulted (vp_u16 vp) ''control-port'' DEFAULT_CONTROL_PORT raw) (\<lambda>control_port.
     res_bind (optional text_value ''host'' raw) (\<lambda>host.
     res_bind (optional text_value ''auth-token'' raw) (\<lambda>auth_token.
     res_bind (optional text_value ''auth-token-file'' raw) (\<lambda>auth_token_file.
     Inr \<lparr>st_control_port = control_port, st_host = host, st_json = flag ''json'' raw, st_auth_token = auth_token, st_auth_token_file = auth_token_file\<rparr>)))))"

record forward_args =
  fw_port :: u16
  fw_control_port :: u16
  fw_host :: "string option"
  fw_auth_token :: "string option"
  fw_auth_token_file :: "string option"

definition parse_forward :: "value_parsers \<Rightarrow> raw_args \<Rightarrow> arg_error + forward_args" where
  "parse_forward vp raw =
     res_bind (check_known [] [''control-port'', ''host'', ''auth-token'', ''auth-token-file''] 1 raw) (\<lambda>_.
     res_bind (operand (vp_u16 vp) ''port'' raw) (\<lambda>port.
     res_bind (defaulted (vp_u16 vp) ''control-port'' DEFAULT_CONTROL_PORT raw) (\<lambda>control_port.
     res_bind (optional text_value ''host'' raw) (\<lambda>host.
     res_bind (optional text_value ''auth-token'' raw) (\<lambda>auth_token.
     res_bind (optional text_value ''auth-token-file'' raw) (\<lambda>auth_token_file.
     Inr \<lparr>fw_port = port, fw_control_port = control_port, fw_host = host, fw_auth_token = auth_token, fw_auth_token_file = auth_token_file\<rparr>))))))"

record unforward_args =
  uf_port :: u16
  uf_control_port :: u16
  uf_host :: "string option"
  uf_auth_token :: "string option"
  uf_auth_token_file :: "string option"

definition parse_unforward :: "value_parsers \<Rightarrow> raw_args \<Rightarrow> arg_error + unforward_args" where
  "parse_unforward vp raw =
     res_bind (check_known [] [''control-port'', ''host'', ''auth-token'', ''auth-token-file''] 1 raw) (\<lambda>_.
     res_bind (operand (vp_u16 vp) ''port'' raw) (\<lambda>port.
     res_bind (defaulted (vp_u16 vp) ''control-port'' DEFAULT_CONTROL_PORT raw) (\<lambda>control_port.
     res_bind (optional text_value ''host'' raw) (\<lambda>host.
     res_bind (optional text_value ''auth-token'' raw) (\<lambda>auth_token.
     res_bind (optional text_value ''auth-token-file'' raw) (\<lambda>auth_token_file.
     Inr \<lparr>uf_port = port, uf_control_port = control_port, uf_host = host, uf_auth_token = auth_token, uf_auth_token_file = auth_token_file\<rparr>))))))"

record open_args =
  op_url :: string
  op_control_port :: u16
  op_auth_token :: "string option"
  op_auth_token_file :: "string option"

definition parse_open :: "value_parsers \<Rightarrow> raw_args \<Rightarrow> arg_error + open_args" where
  "parse_open vp raw =
     res_bind (check_known [] [''control-port'', ''auth-token'', ''auth-token-file''] 1 raw) (\<lambda>_.
     res_bind (operand text_value ''url'' raw) (\<lambda>url.
     res_bind (defaulted (vp_u16 vp) ''control-port'' DEFAULT_CONTROL_PORT raw) (\<lambda>control_port.
     res_bind (optional text_value ''auth-token'' raw) (\<lambda>auth_token.
     res_bind (optional text_value ''auth-token-file'' raw) (\<lambda>auth_token_file.
     Inr \<lparr>op_url = url, op_control_port = control_port, op_auth_token = auth_token, op_auth_token_file = auth_token_file\<rparr>)))))"

record ensure_args =
  en_control_port :: u16
  en_data_port :: u16
  en_host :: "string option"
  en_auth_token :: "string option"
  en_auth_token_file :: "string option"
  en_no_auth :: bool

definition parse_ensure :: "value_parsers \<Rightarrow> raw_args \<Rightarrow> arg_error + ensure_args" where
  "parse_ensure vp raw =
     res_bind (check_known [''no-auth''] [''control-port'', ''data-port'', ''host'', ''auth-token'', ''auth-token-file''] 0 raw) (\<lambda>_.
     res_bind (defaulted (vp_u16 vp) ''control-port'' DEFAULT_CONTROL_PORT raw) (\<lambda>control_port.
     res_bind (defaulted (vp_u16 vp) ''data-port'' DEFAULT_DATA_PORT raw) (\<lambda>data_port.
     res_bind (optional text_value ''host'' raw) (\<lambda>host.
     res_bind (optional text_value ''auth-token'' raw) (\<lambda>auth_token.
     res_bind (optional text_value ''auth-token-file'' raw) (\<lambda>auth_token_file.
     Inr \<lparr>en_control_port = control_port, en_data_port = data_port, en_host = host, en_auth_token = auth_token, en_auth_token_file = auth_token_file, en_no_auth = flag ''no-auth'' raw\<rparr>))))))"

record stop_args =
  sp_control_port :: u16
  sp_host :: "string option"
  sp_auth_token :: "string option"
  sp_auth_token_file :: "string option"

definition parse_stop :: "value_parsers \<Rightarrow> raw_args \<Rightarrow> arg_error + stop_args" where
  "parse_stop vp raw =
     res_bind (check_known [] [''control-port'', ''host'', ''auth-token'', ''auth-token-file''] 0 raw) (\<lambda>_.
     res_bind (defaulted (vp_u16 vp) ''control-port'' DEFAULT_CONTROL_PORT raw) (\<lambda>control_port.
     res_bind (optional text_value ''host'' raw) (\<lambda>host.
     res_bind (optional text_value ''auth-token'' raw) (\<lambda>auth_token.
     res_bind (optional text_value ''auth-token-file'' raw) (\<lambda>auth_token_file.
     Inr \<lparr>sp_control_port = control_port, sp_host = host, sp_auth_token = auth_token, sp_auth_token_file = auth_token_file\<rparr>)))))"

record restart_args =
  rs_control_port :: u16
  rs_data_port :: u16
  rs_host :: "string option"
  rs_auth_token :: "string option"
  rs_auth_token_file :: "string option"
  rs_no_auth :: bool

definition parse_restart :: "value_parsers \<Rightarrow> raw_args \<Rightarrow> arg_error + restart_args" where
  "parse_restart vp raw =
     res_bind (check_known [''no-auth''] [''control-port'', ''data-port'', ''host'', ''auth-token'', ''auth-token-file''] 0 raw) (\<lambda>_.
     res_bind (defaulted (vp_u16 vp) ''control-port'' DEFAULT_CONTROL_PORT raw) (\<lambda>control_port.
     res_bind (defaulted (vp_u16 vp) ''data-port'' DEFAULT_DATA_PORT raw) (\<lambda>data_port.
     res_bind (optional text_value ''host'' raw) (\<lambda>host.
     res_bind (optional text_value ''auth-token'' raw) (\<lambda>auth_token.
     res_bind (optional text_value ''auth-token-file'' raw) (\<lambda>auth_token_file.
     Inr \<lparr>rs_control_port = control_port, rs_data_port = data_port, rs_host = host, rs_auth_token = auth_token, rs_auth_token_file = auth_token_file, rs_no_auth = flag ''no-auth'' raw\<rparr>))))))"

datatype command =
    HostDaemon host_daemon_args
  | Paste paste_args
  | ContainerDaemon container_daemon_args
  | Status status_args
  | Forward forward_args
  | Unforward unforward_args
  | Open open_args
  | Ensure ensure_args
  | Stop stop_args
  | Restart restart_args

definition parse_command :: "value_parsers \<Rightarrow> string \<Rightarrow> raw_args \<Rightarrow> arg_error + command" where
  "parse_command vp name raw =
     (if name = ''host-daemon'' then res_bind (parse_host_daemon vp raw) (Inr \<circ> HostDaemon)
      else if name = ''paste'' then res_bind (parse_paste vp raw) (Inr \<circ> Paste)
      else if name = ''container-daemon'' then res_bind (parse_container_daemon vp raw) (Inr \<circ> ContainerDaemon)
      else if name = ''status'' then res_bind (parse_status vp raw) (Inr \<circ> Status)
      else if name = ''forward'' then res_bind (parse_forward vp raw) (Inr \<circ> command.Forward)
      else if name = ''unforward'' then res_bind (parse_unforward vp raw) (Inr \<circ> command.Unforward)
      else if name = ''open'' then res_bind (parse_open vp raw) (Inr \<circ> Open)
      else if name = ''ensure'' then res_bind (parse_ensure vp raw) (Inr \<circ> Ensure)
      else if name = ''stop'' then res_bind (parse_stop vp raw) (Inr \<circ> command.Stop)
      else if name = ''restart'' then res_bind (parse_restart vp raw) (Inr \<circ> Restart)
      else Inl UnknownArgument)"

subsection \<open>Properties\<close>

text \<open>The test of \<open>cli.rs\<close>, for every command line: the clipboard is not allowed together with a flag that forbids it.\<close>

lemma clipboard_flags_exclusive:
  assumes "parse_host_daemon vp raw = Inr a" and "ha_allow_clipboard a"
  shows "\<not> ha_no_auth a \<and> \<not> ha_no_clipboard a"
  using assms by (auto simp: parse_host_daemon_def res_bind_def split: sum.splits if_splits)

text \<open>A command line as a list of flags and of options, each with its value in the next word.\<close>

datatype arg_item = FlagItem string | OptionItem string bytes

fun words_of :: "arg_item \<Rightarrow> bytes list" where
  "words_of (FlagItem n) = [''--'' @ n]"
| "words_of (OptionItem n v) = [''--'' @ n, v]"

definition raw_of :: "arg_item list \<Rightarrow> raw_args" where
  "raw_of items =
     \<lparr>ra_flags = List.map_filter (\<lambda>i. case i of FlagItem n \<Rightarrow> Some n | OptionItem _ _ \<Rightarrow> None) items,
      ra_values = List.map_filter (\<lambda>i. case i of FlagItem _ \<Rightarrow> None | OptionItem n v \<Rightarrow> Some (n, v)) items, ra_operands = []\<rparr>"

fun plain :: "string list \<Rightarrow> string list \<Rightarrow> arg_item \<Rightarrow> bool" where
  "plain flags opts (FlagItem n) \<longleftrightarrow> n \<in> set flags"
| "plain flags opts (OptionItem n v) \<longleftrightarrow> n \<in> set opts \<and> v \<noteq> [] \<and> hd v \<noteq> CHR ''-''"

text \<open>clap splits such words as documented, unless a value looks like an option.\<close>

definition reads_words :: "string list \<Rightarrow> string list \<Rightarrow> (bytes list \<Rightarrow> raw_args option) \<Rightarrow> bool" where
  "reads_words flags opts tokenize \<longleftrightarrow>
     (\<forall>items. list_all (plain flags opts) items \<longrightarrow> tokenize (concat (map words_of items)) = Some (raw_of items))"

definition auth_items :: "bool \<Rightarrow> string option \<Rightarrow> string option \<Rightarrow> bytes option \<Rightarrow> arg_item list" where
  "auth_items no_auth auth_token spawn_token auth_token_file =
     (if no_auth then [FlagItem ''no-auth'']
      else case (case auth_token of Some t \<Rightarrow> Some t | None \<Rightarrow> spawn_token) of
             Some token \<Rightarrow> [OptionItem ''auth-token'' token]
           | None \<Rightarrow> (case auth_token_file of Some f \<Rightarrow> [OptionItem ''auth-token-file'' f] | None \<Rightarrow> []))"

lemma auth_flags_items: "auth_flags no_auth t s f = concat (map words_of (auth_items no_auth t s f))"
  by (simp add: auth_flags_def auth_items_def split: option.split)

lemma map_filter_append: "List.map_filter f (xs @ ys) = List.map_filter f xs @ List.map_filter f ys"
  by (simp add: List.map_filter_def)

lemma raw_of_simps [simp]:
  "ra_flags (raw_of []) = []" "ra_values (raw_of []) = []" "ra_operands (raw_of items) = []"
  "ra_flags (raw_of (FlagItem n # items)) = n # ra_flags (raw_of items)" "ra_values (raw_of (FlagItem n # items)) = ra_values (raw_of items)"
  "ra_flags (raw_of (OptionItem n v # items)) = ra_flags (raw_of items)"
  "ra_values (raw_of (OptionItem n v # items)) = (n, v) # ra_values (raw_of items)"
  by (simp_all add: raw_of_def List.map_filter_simps)

lemmas arg_defs = flag_def values_of_def optional_def defaulted_def comma_list_def check_known_def host_daemon_flags_def host_daemon_options_def

text \<open>What the daemon that \<open>dbr ensure\<close> spawns reads from its command line.\<close>

definition spawned_args :: "u16 \<Rightarrow> u16 \<Rightarrow> bool \<Rightarrow> string option \<Rightarrow> bytes option \<Rightarrow> bytes \<Rightarrow> host_daemon_args" where
  "spawned_args control_port data_port no_auth token token_file log_path =
     \<lparr>ha_bind_addr = None, ha_no_docker_detect = False, ha_control_port = control_port, ha_data_port = data_port, ha_exit_on_idle = False,
      ha_browser_cmd = None, ha_auth_token = token, ha_auth_token_file = token_file, ha_no_auth = no_auth, ha_allow_clipboard = False,
      ha_no_clipboard = False, ha_socket_watch_paths = [], ha_socket_container_path_prefix = None, ha_socket_scan_interval_ms = None,
      ha_no_socket_forwarding = False, hd_log_level = DEFAULT_LOG_LEVEL, hd_log_format = DEFAULT_LOG_FORMAT, hd_log_file = Some log_path\<rparr>"

lemma spawned_read:
  assumes "vp_u16 vp (show_nat (unat cp)) = Some cp" and "vp_u16 vp (show_nat (unat dp)) = Some dp" and "utf8_ok log_path"
    and "\<And>t. auth_token = Some t \<or> spawn_token = Some t \<Longrightarrow> utf8_ok t" and "\<And>f. auth_token_file = Some f \<Longrightarrow> utf8_ok f"
  shows "parse_host_daemon vp (raw_of ([OptionItem ''control-port'' (show_nat (unat cp)), OptionItem ''data-port'' (show_nat (unat dp))]
        @ auth_items no_auth auth_token spawn_token auth_token_file @ [OptionItem ''log-file'' log_path]))
    = Inr (spawned_args cp dp no_auth (if no_auth then None else case auth_token of Some t \<Rightarrow> Some t | None \<Rightarrow> spawn_token)
        (if no_auth \<or> auth_token \<noteq> None \<or> spawn_token \<noteq> None then None else auth_token_file) log_path)"
proof -
  consider (off) "no_auth" | (token) t where "\<not> no_auth" "(case auth_token of Some t \<Rightarrow> Some t | None \<Rightarrow> spawn_token) = Some t" "utf8_ok t"
    | (tokfile) f where "\<not> no_auth" "auth_token = None" "spawn_token = None" "auth_token_file = Some f" "utf8_ok f"
    | (none) "\<not> no_auth" "auth_token = None" "spawn_token = None" "auth_token_file = None"
    using assms(4,5) by (cases no_auth; cases auth_token; cases spawn_token; cases auth_token_file) auto
  then show ?thesis
  proof cases
    case (token t)
    then have "auth_token \<noteq> None \<or> spawn_token \<noteq> None"
      by auto
    then show ?thesis
      using assms(1-3) token by (simp add: parse_host_daemon_def auth_items_def spawned_args_def arg_defs text_value_def)
  qed (use assms(1-3) in \<open>simp_all add: parse_host_daemon_def auth_items_def spawned_args_def arg_defs text_value_def\<close>)
qed

text \<open>C26. \<open>dbr ensure\<close> starts the daemon that it was asked for: the words that it hands to the new process are
  read back by the daemon's own parser as exactly the ports that were asked for, the same choice of
  authentication, and the log file, with everything else at its default; without a choice of
  the user the daemon gets a well-formed token.\<close>

theorem spawned_daemon_as_asked:
  assumes "run_ensure env src cp dp no_auth auth_token auth_token_file pid_file = (res, Some words, fs, pid_file1)"
    and "reads_words host_daemon_flags host_daemon_options tokenize"
    and "\<And>p. vp_u16 vp (show_nat (unat p)) = Some p"
    and "\<And>v. auth_token = Some v \<or> auth_token_file = Some v \<Longrightarrow> utf8_ok v \<and> v \<noteq> [] \<and> hd v \<noteq> CHR ''-''"
    and "log_file_path (as_home src) = Inr log_path" and "utf8_ok log_path" and "log_path \<noteq> []" and "hd log_path \<noteq> CHR ''-''"
  shows "\<exists>raw token. hd words = ''host-daemon'' \<and> tokenize (tl words) = Some raw
    \<and> parse_command vp (hd words) raw = Inr (HostDaemon (spawned_args cp dp no_auth token (if token = None \<and> \<not> no_auth then auth_token_file else None) log_path))
    \<and> (if no_auth then token = None else if auth_token \<noteq> None then token = auth_token
        else if auth_token_file \<noteq> None then token = None else \<exists>t. token = Some t \<and> validate_token_format t)"
proof -
  obtain spawn_token where e: "ensure_spawn_token src no_auth auth_token auth_token_file = (Inr spawn_token, fs)"
    and words: "words = spawn_args cp dp (auth_flags no_auth auth_token spawn_token auth_token_file) log_path"
    using assms(1,5) by (auto simp: run_ensure_def split: option.splits prod.splits sum.splits if_splits)
  have st: "spawn_token = None \<and> (no_auth \<or> auth_token \<noteq> None \<or> auth_token_file \<noteq> None)
    \<or> (\<exists>t. spawn_token = Some t \<and> validate_token_format t \<and> \<not> no_auth \<and> auth_token = None \<and> auth_token_file = None)"
    using e by (auto simp: ensure_spawn_token_def dest: ensured_valid split: if_splits sum.splits prod.splits)
  let ?items = "[OptionItem ''control-port'' (show_nat (unat cp)), OptionItem ''data-port'' (show_nat (unat dp))]
        @ auth_items no_auth auth_token spawn_token auth_token_file @ [OptionItem ''log-file'' log_path]"
  let ?token = "if no_auth then None else case auth_token of Some t \<Rightarrow> Some t | None \<Rightarrow> spawn_token"
  have valid: "utf8_ok t \<and> t \<noteq> [] \<and> hd t \<noteq> CHR ''-''" if "validate_token_format t" for t
  proof -
    have "\<forall>c \<in> set t. is_ascii_hexdigit c" "t \<noteq> []"
      using that by (auto simp: validate_token_format_def TOKEN_HEX_LENGTH_def list_all_iff)
    moreover have "\<not> is_ascii_hexdigit (CHR ''-'')"
      by (simp add: is_ascii_hexdigit_def is_ascii_digit_def)
    ultimately show ?thesis
      using token_plain [OF that] by (metis hd_in_set utf8_ok_ascii)
  qed
  have digit: "hd (show_nat n) \<noteq> CHR ''-''" for n
    using show_nat_digits [of n] by (cases "show_nat n") (auto simp: is_ascii_digit_def)
  have plain: "list_all (plain host_daemon_flags host_daemon_options) ?items"
    using assms(4,7,8) st digit valid
    by (auto simp: auth_items_def host_daemon_flags_def host_daemon_options_def split: option.splits)
  have "tl words = concat (map words_of ?items)" "hd words = ''host-daemon''"
    by (simp_all add: words spawn_args_def auth_flags_items)
  then have "tokenize (tl words) = Some (raw_of ?items)"
    using assms(2) plain unfolding reads_words_def by metis
  moreover have "parse_command vp (hd words) (raw_of ?items) = Inr (HostDaemon (spawned_args cp dp no_auth ?token
      (if ?token = None \<and> \<not> no_auth then auth_token_file else None) log_path))"
  proof -
    have "parse_host_daemon vp (raw_of ?items) = Inr (spawned_args cp dp no_auth ?token
        (if no_auth \<or> auth_token \<noteq> None \<or> spawn_token \<noteq> None then None else auth_token_file) log_path)"
      using assms(3,4,6) st valid by (intro spawned_read) auto
    then show ?thesis
      using \<open>hd words = _\<close> st by (auto simp: parse_command_def split: option.splits)
  qed
  ultimately show ?thesis
    using \<open>hd words = _\<close> st by (intro exI [of _ "raw_of ?items"] exI [of _ ?token]) auto
qed

text \<open>The instance: the sources of theory Cli, and a reader that splits the words as clap does.\<close>

fun items_of :: "string list \<Rightarrow> bytes list \<Rightarrow> arg_item list" where
  "items_of flags [] = []"
| "items_of flags [w] = [FlagItem (drop 2 w)]"
| "items_of flags (w # v # ws) =
     (if drop 2 w \<in> set flags then FlagItem (drop 2 w) # items_of flags (v # ws) else OptionItem (drop 2 w) v # items_of flags ws)"

lemma items_of_words:
  "set flags \<inter> set opts = {} \<Longrightarrow> list_all (plain flags opts) items \<Longrightarrow> items_of flags (concat (map words_of items)) = items"
proof (induction items)
  case (Cons i items)
  show ?case
  proof (cases i)
    case (FlagItem n)
    then show ?thesis
      using Cons by (cases "concat (map words_of items)") auto
  next
    case (OptionItem n v)
    then have "n \<notin> set flags"
      using Cons.prems by auto
    then show ?thesis
      using Cons OptionItem by simp
  qed
qed simp

lemma items_of_reads: "reads_words host_daemon_flags host_daemon_options (Some \<circ> raw_of \<circ> items_of host_daemon_flags)"
  unfolding reads_words_def
proof (intro allI impI)
  fix items assume "list_all (plain host_daemon_flags host_daemon_options) items"
  then have "items_of host_daemon_flags (concat (map words_of items)) = items"
    by (intro items_of_words [of _ host_daemon_options]) (simp_all add: host_daemon_flags_def host_daemon_options_def)
  then show "(Some \<circ> raw_of \<circ> items_of host_daemon_flags) (concat (map words_of items)) = Some (raw_of items)"
    by simp
qed

definition sample_spawn :: ensure_env where
  "sample_spawn = \<lparr>ee_to_string = (\<lambda>_. None), ee_from_str = (\<lambda>_. None), ee_probe = None, ee_exe = Some ''dbr'', ee_spawn = Some 7,
     ee_pid_env = \<lparr>pi_create_dir = None, pi_write = None, pi_remove = None\<rparr>, ee_polls = []\<rparr>"

theorem spawned_daemon_as_asked_witness:
  "\<exists>res words fs pid_file1 raw token vp. run_ensure sample_spawn sample_sources 2000 2001 False None None None = (res, Some words, fs, pid_file1)
    \<and> parse_command vp (hd words) raw = Inr (HostDaemon (spawned_args 2000 2001 False (Some token) None ''/h/.config/dbr/daemon.log''))
    \<and> validate_token_format token"
proof -
  let ?vp = "\<lparr>vp_ip = (\<lambda>_. None), vp_u16 = parse_u16, vp_u64 = parse_u64\<rparr>"
  obtain token fs where e: "ensure_spawn_token sample_sources False None None = (Inr (Some token), fs)"
    using sample_ensured by blast
  have log: "log_file_path (as_home sample_sources) = Inr ''/h/.config/dbr/daemon.log''"
    by (simp add: sample_sources_def) code_simp
  obtain res words fs1 pid_file1 where r: "run_ensure sample_spawn sample_sources 2000 2001 False None None None = (res, Some words, fs1, pid_file1)"
    using e log by (simp add: run_ensure_def sample_spawn_def)
  have u: "utf8_ok ''/h/.config/dbr/daemon.log''"
    by (rule utf8_ok_ascii) (simp add: is_ascii_def)
  from spawned_daemon_as_asked [OF r items_of_reads _ _ log u, where vp = ?vp] r show ?thesis
    by (fastforce simp: parse_u16_show)
qed

end
