(* ===== verification/Dispatch.thy ===== *)
theory Dispatch
  imports Args
begin

section \<open>The program (src/main.rs)\<close>

text \<open>
  \<open>main\<close> from the words of its command line to its exit code: the hardlink \<open>dbr-open\<close>, the arguments,
  the dispatch to the commands of theory Cli and to the two daemons. The world is a record of
  answers: the environment, the files, the network at each address, the runtime that can be made or
  not, and the events that the daemons see. What a command leaves is its exit code (\<open>None\<close> while it
  runs), the token files, the PID file, and the process that it spawned. What it prints is in
  the functions of theory Cli.
\<close>

record world =
  wo_words :: "bytes list"
  wo_clap :: "bytes list \<Rightarrow> (string \<times> raw_args) option"
  wo_parsers :: value_parsers
  wo_sources :: auth_sources
  wo_loaded :: "config_error + config"
  wo_resolve :: resolve_env
  wo_host_var :: "string option"
  wo_home_os :: "bytes option"
  wo_runtime :: bool
  wo_to_string :: json_printer
  wo_from_str :: json_parser
  wo_pretty :: "forward_info list \<Rightarrow> socket_forward_info list \<Rightarrow> string option"
  wo_now :: u64
  wo_connect :: "string \<Rightarrow> u16 \<Rightarrow> io_error + control_connection"
  wo_open_connect :: "socket_addr \<Rightarrow> control_error + control_connection"
  wo_forward_events :: "forward_event list"
  wo_ensure :: "string \<Rightarrow> u16 \<Rightarrow> ensure_env"
  wo_paste :: "string \<Rightarrow> u16 \<Rightarrow> paste_env"
  wo_docker :: "bool option"
  wo_can_bind :: "ip \<Rightarrow> u16 \<Rightarrow> bool"
  wo_signals :: bool
  wo_host_events :: "daemon_event list"
  wo_attempts :: "attempt list"
  wo_fs :: file_system
  wo_pid_env :: pid_env
  wo_pid_file :: "string option"

record outcome =
  oc_exit :: "exit_code option"
  oc_tokens :: token_fs
  oc_pid_file :: "string option"
  oc_spawned :: "bytes list option"

definition exits :: "world \<Rightarrow> exit_code option \<Rightarrow> outcome" where
  "exits w code = \<lparr>oc_exit = code, oc_tokens = as_fs (wo_sources w), oc_pid_file = wo_pid_file w, oc_spawned = None\<rparr>"

subsection \<open>Tracing\<close>

text \<open>The filter, the format, and the file that is appended to; without one, or if it cannot be opened, standard error.\<close>

record tracing =
  tr_filter :: string
  tr_json :: bool
  tr_file :: "string option"

definition init_tracing :: "(string \<Rightarrow> bool) \<Rightarrow> (string \<Rightarrow> bool) \<Rightarrow> string \<Rightarrow> string \<Rightarrow> string option \<Rightarrow> tracing" where
  "init_tracing valid_filter opens log_level log_format log_file =
     \<lparr>tr_filter = (if valid_filter log_level then log_level else ''info''),
      tr_json = (to_ascii_lowercase log_format = ''json''),
      tr_file = (case log_file of Some path \<Rightarrow> if opens path then Some path else None | None \<Rightarrow> None)\<rparr>"

subsection \<open>The commands\<close>

text \<open>\<open>None\<close> is a command that is still running.\<close>

definition run_async :: "world \<Rightarrow> ('e + 'a) option \<Rightarrow> exit_code option" where
  "run_async w f =
     (if \<not> wo_runtime w then Some ExitFailure
      else case f of None \<Rightarrow> None | Some (Inl _) \<Rightarrow> Some ExitFailure | Some (Inr _) \<Rightarrow> Some ExitSuccess)"

definition cli_host :: "world \<Rightarrow> string option \<Rightarrow> string" where
  "cli_host w host = resolve_cli_host (wo_resolve w) host (wo_host_var w)"

definition open_command :: "world \<Rightarrow> string \<Rightarrow> u16 \<Rightarrow> outcome" where
  "open_command w url control_port =
     exits w (run_async w (Some (fst (client_open_url (wo_resolve w) (wo_to_string w) (wo_from_str w)
       (case wo_loaded w of Inl _ \<Rightarrow> None | Inr cfg \<Rightarrow> Some (cf_host_addr cfg)) (wo_open_connect w) url control_port))))"

definition host_daemon_command :: "world \<Rightarrow> host_args \<Rightarrow> outcome" where
  "host_daemon_command w args =
     (case host_daemon_config (wo_sources w) (wo_loaded w) args of
        (Inl code, fs) \<Rightarrow> (exits w (Some code))\<lparr>oc_tokens := fs\<rparr>
      | (Inr config, fs) \<Rightarrow>
          if \<not> wo_runtime w then (exits w (Some ExitFailure))\<lparr>oc_tokens := fs\<rparr>
          else (case daemon_run (wo_docker w) (wo_can_bind w) (wo_signals w) (wo_pid_env w) (as_home (wo_sources w)) config
                       (wo_host_events w) (wo_pid_file w) of
                  None \<Rightarrow> (exits w None)\<lparr>oc_tokens := fs\<rparr>
                | Some (Inl _) \<Rightarrow> (exits w (Some ExitFailure))\<lparr>oc_tokens := fs\<rparr>
                | Some (Inr (over, _, pid_file)) \<Rightarrow>
                    (exits w (if over then Some ExitSuccess else None))\<lparr>oc_tokens := fs, oc_pid_file := pid_file\<rparr>))"

definition ensured :: "world \<Rightarrow> (ensure_error + unit) option \<times> bytes list option \<times> token_fs \<times> string option \<Rightarrow> outcome" where
  "ensured w r =
     (if \<not> wo_runtime w then exits w (Some ExitFailure)
      else case r of (res, spawned, fs, pid_file) \<Rightarrow>
        \<lparr>oc_exit = run_async w res, oc_tokens = fs, oc_pid_file = pid_file, oc_spawned = spawned\<rparr>)"

definition stop_command :: "world \<Rightarrow> stop_args \<Rightarrow> outcome" where
  "stop_command w a =
     (case run_stop (wo_to_string w) (wo_from_str w) (wo_pid_env w) (as_home (wo_sources w)) (sp_control_port a)
             (resolve_cli_auth_token (wo_sources w) (sp_auth_token a) (sp_auth_token_file a))
             (wo_connect w (cli_host w (sp_host a)) (sp_control_port a)) (wo_pid_file w) of
        (res, _, pid_file) \<Rightarrow>
          (exits w (run_async w (Some res)))\<lparr>oc_pid_file := (if wo_runtime w then pid_file else wo_pid_file w)\<rparr>)"

definition dispatch :: "world \<Rightarrow> command \<Rightarrow> outcome" where
  "dispatch w cmd =
     (case cmd of
        HostDaemon a \<Rightarrow> host_daemon_command w (host_args.truncate a)
      | Paste a \<Rightarrow>
          exits w (if \<not> wo_runtime w then Some ExitFailure
                   else Some (fst (paste_command (wo_sources w) (wo_resolve w) (wo_loaded w) (wo_home_os w) (wo_paste w) a)))
      | ContainerDaemon a \<Rightarrow>
          exits w (if \<not> wo_runtime w then Some ExitFailure
                   else container_daemon_command (wo_sources w) (wo_resolve w) (wo_loaded w) (container_args.truncate a) (wo_attempts w) (wo_fs w))
      | Open a \<Rightarrow> open_command w (op_url a) (op_control_port a)
      | Status a \<Rightarrow>
          exits w (run_async w (Some (run_status (wo_to_string w) (wo_from_str w) (wo_pretty w) (wo_now w) (st_json a)
            (wo_connect w (cli_host w (st_host a)) (st_control_port a)))))
      | command.Forward a \<Rightarrow>
          exits w (run_async w (fst (run_forward (wo_to_string w) (wo_from_str w)
            (resolve_cli_auth_token (wo_sources w) (fw_auth_token a) (fw_auth_token_file a)) (fw_port a) (wo_forward_events w)
            (wo_connect w (cli_host w (fw_host a)) (fw_control_port a)))))
      | command.Unforward a \<Rightarrow>
          exits w (run_async w (Some (fst (run_unforward (wo_to_string w) (uf_port a)
            (wo_connect w (cli_host w (uf_host a)) (uf_control_port a))))))
      | Ensure a \<Rightarrow>
          ensured w (run_ensure (wo_ensure w (cli_host w (en_host a)) (en_control_port a)) (wo_sources w) (en_control_port a) (en_data_port a)
            (en_no_auth a) (en_auth_token a) (en_auth_token_file a) (wo_pid_file w))
      | command.Stop a \<Rightarrow> stop_command w a
      | Restart a \<Rightarrow>
          ensured w (fst (run_restart (wo_ensure w (cli_host w (rs_host a)) (rs_control_port a)) (wo_sources w) (rs_control_port a)
            (rs_data_port a) (rs_no_auth a) (rs_auth_token a) (rs_auth_token_file a)
            (wo_connect w (cli_host w (rs_host a)) (rs_control_port a)) (wo_pid_file w))))"

text \<open>The hardlink takes its first word as the URL and the port of the configuration.\<close>

definition run_dbr_open :: "world \<Rightarrow> outcome" where
  "run_dbr_open w =
     (case wo_words w of
        _ # url # _ \<Rightarrow> open_command w url (open_control_port True None (wo_loaded w))
      | _ \<Rightarrow> exits w (Some ExitFailure))"

text \<open>A command line that clap refuses ends the process with its code for usage errors.\<close>

definition USAGE_CODE :: nat where "USAGE_CODE = 2"

definition main :: "world \<Rightarrow> outcome" where
  "main w =
     (if invoked_as_dbr_open (case wo_words w of [] \<Rightarrow> None | arg0 # _ \<Rightarrow> Some arg0) then run_dbr_open w
      else (case wo_clap w (tl (wo_words w)) of
              None \<Rightarrow> exits w (Some (ExitWith USAGE_CODE))
            | Some (name, raw) \<Rightarrow>
                (case parse_command (wo_parsers w) name raw of
                   Inl _ \<Rightarrow> exits w (Some (ExitWith USAGE_CODE))
                 | Inr cmd \<Rightarrow> dispatch w cmd)))"

subsection \<open>Properties\<close>

text \<open>C25. A host daemon that a command line starts is never open by accident, whatever the command line and the
  configuration say. Unless authentication is switched off it has a well-formed token; it serves the clipboard only
  if a flag or the configuration asks for it, no flag forbids it, authentication is on, and the service checks the daemon's own
  token; it listens on the loopback unless an address is given or Docker is detected; and
  sockets are not forwarded when a flag forbids it.\<close>

theorem started_daemon_guarded:
  assumes "parse_command vp name raw = Inr (HostDaemon a)"
    and "fst (host_daemon_config src loaded (host_args.truncate a)) = Inr config"
    and "host_start docker can_bind signals config = Inr (addr, d)"
  shows "(if flag ''no-auth'' raw then dc_auth_token d = None
          else \<exists>token. validate_token_format token \<and> dc_auth_token d = Some token)
    \<and> (cs_enabled (dc_clipboard d) \<longrightarrow> \<not> flag ''no-clipboard'' raw \<and> \<not> flag ''no-auth'' raw
        \<and> (flag ''allow-clipboard'' raw \<or> (\<exists>cfg. loaded = Inr cfg \<and> cf_clipboard_enabled cfg)) \<and> cs_token (dc_clipboard d) = dc_auth_token d)
    \<and> (values_of ''bind-addr'' raw = [] \<longrightarrow> addr = Localhost \<or> (\<not> flag ''no-docker-detect'' raw \<and> docker = Some True \<and> addr = Unspecified))
    \<and> (flag ''no-socket-forwarding'' raw \<longrightarrow> spawn_socket_scanner config = None)"
proof -
  let ?a = "host_args.truncate a"
  have "parse_host_daemon vp raw = Inr a"
    using assms(1) by (auto simp: parse_command_def res_bind_def split: if_splits sum.splits)
  then have flags: "ha_no_auth ?a = flag ''no-auth'' raw" "ha_no_clipboard ?a = flag ''no-clipboard'' raw"
    "ha_allow_clipboard ?a = flag ''allow-clipboard'' raw" "ha_no_docker_detect ?a = flag ''no-docker-detect'' raw"
    "ha_no_socket_forwarding ?a = flag ''no-socket-forwarding'' raw" "values_of ''bind-addr'' raw = [] \<Longrightarrow> ha_bind_addr ?a = None"
    by (auto simp: parse_host_daemon_def res_bind_def optional_def host_args.truncate_def split: sum.splits if_splits)
  obtain cfg token fs where cfg: "loaded = Inr cfg" and t: "host_token src ?a = (Inr token, fs)" and sf: "hc_socket_forwarding config = host_socket_forwarding ?a cfg"
    and hc: "hc_auth_token config = token" "hc_allow_clipboard config = (\<not> ha_no_clipboard ?a \<and> (ha_allow_clipboard ?a \<or> cf_clipboard_enabled cfg))"
      "hc_bind_addr config = ha_bind_addr ?a" "hc_no_docker_detect config = ha_no_docker_detect ?a"
    using assms(2) by (auto simp: host_daemon_config_def split: sum.splits prod.splits)
  have guarded: "if ha_no_auth ?a then token = None else \<exists>t. token = Some t \<and> validate_token_format t"
    using t by (auto simp: host_token_def dest: resolved_valid ensured_valid split: if_splits sum.splits auth_error.splits prod.splits)
  have started: "dc_auth_token d = token" "cs_enabled (dc_clipboard d) \<Longrightarrow> hc_allow_clipboard config \<and> token \<noteq> None"
    "cs_token (dc_clipboard d) = token" "addr = resolve_bind_addr docker config"
    using assms(3) hc(1) by (auto simp: host_start_def clipboard_service_new_def Let_def split: if_splits option.splits)
  have "ha_bind_addr ?a = None \<Longrightarrow> addr = Localhost \<or> (\<not> ha_no_docker_detect ?a \<and> docker = Some True \<and> addr = Unspecified)"
    using started(4) hc(3,4) by (auto simp: resolve_bind_addr_def detect_docker_def split: if_splits option.splits)
  moreover have "ha_no_socket_forwarding ?a \<Longrightarrow> spawn_socket_scanner config = None"
    by (simp add: sf host_socket_forwarding_def spawn_socket_scanner_def)
  moreover have "if ha_no_auth ?a then dc_auth_token d = None else \<exists>token. validate_token_format token \<and> dc_auth_token d = Some token"
    using guarded started(1) by auto
  moreover have "cs_enabled (dc_clipboard d) \<Longrightarrow> \<not> ha_no_clipboard ?a \<and> \<not> ha_no_auth ?a
      \<and> (ha_allow_clipboard ?a \<or> cf_clipboard_enabled cfg) \<and> cs_token (dc_clipboard d) = dc_auth_token d"
    using started(1-3) hc(2) guarded by (auto split: if_splits)
  ultimately show ?thesis
    using flags cfg by auto
qed

text \<open>The command of a command line.\<close>

definition command_of :: "world \<Rightarrow> command option" where
  "command_of w =
     (case wo_clap w (tl (wo_words w)) of
        None \<Rightarrow> None
      | Some (name, raw) \<Rightarrow> (case parse_command (wo_parsers w) name raw of Inl _ \<Rightarrow> None | Inr cmd \<Rightarrow> Some cmd))"

lemma main_command:
  "main w = (if invoked_as_dbr_open (case wo_words w of [] \<Rightarrow> None | arg0 # _ \<Rightarrow> Some arg0) then run_dbr_open w
     else case command_of w of None \<Rightarrow> exits w (Some (ExitWith USAGE_CODE)) | Some cmd \<Rightarrow> dispatch w cmd)"
  by (auto simp: main_def command_of_def split: option.split prod.split sum.split)

lemma exits_exit [simp]: "oc_exit (exits w code) = code"
  by (simp add: exits_def)

lemma run_async_code [simp]: "run_async w f \<noteq> Some (ExitWith n)"
  by (auto simp: run_async_def split: option.splits sum.splits)

lemma host_command_code: "oc_exit (host_daemon_command w args) \<noteq> Some (ExitWith n)"
proof -
  have "fst (host_daemon_config src loaded args) \<noteq> Inl (ExitWith n)" for src loaded
    by (auto simp: host_daemon_config_def host_token_def split: sum.splits prod.splits auth_error.splits)
  then have "host_daemon_config (wo_sources w) (wo_loaded w) args \<noteq> (Inl (ExitWith n), fs)" for fs
    by (metis fst_conv)
  then show ?thesis
    by (auto simp: host_daemon_command_def split: prod.split sum.split option.split)
qed

lemma paste_code: "fst (paste_command src renv loaded home_os env_at a) \<noteq> ExitWith n"
  by (auto simp: paste_command_def Let_def split: sum.split option.split prod.split)

text \<open>C32. The exit codes: the code 2, which tells a supervisor not to start again, is that of a command line that clap
  refuses, and otherwise only of a container daemon whose registration the host refused;
  every other failure of any command is 1.\<close>

theorem exit_codes:
  assumes "oc_exit (main w) = Some (ExitWith n)"
  shows "n = 2 \<and> (command_of w = None
    \<or> (\<exists>a token. command_of w = Some (ContainerDaemon a) \<and> container_token (wo_sources w) (ca_auth_token a) (ca_auth_token_file a) = Inr token
         \<and> (\<exists>attempt \<in> set (wo_attempts w). refused_by_host token attempt)))"
proof -
  have not_open: "\<not> invoked_as_dbr_open (case wo_words w of [] \<Rightarrow> None | arg0 # _ \<Rightarrow> Some arg0)"
    using assms by (auto simp: main_command run_dbr_open_def open_command_def split: list.splits)
  show ?thesis
  proof (cases "command_of w")
    case None
    then show ?thesis
      using assms not_open by (simp add: main_command USAGE_CODE_def)
  next
    case (Some cmd)
    then have d: "oc_exit (dispatch w cmd) = Some (ExitWith n)"
      using assms not_open by (simp add: main_command)
    show ?thesis
    proof (cases cmd)
      case (ContainerDaemon a)
      then have "container_daemon_command (wo_sources w) (wo_resolve w) (wo_loaded w) (container_args.truncate a) (wo_attempts w) (wo_fs w)
          = Some (ExitWith n)"
        using d by (simp add: dispatch_def split: if_splits)
      from permanent_failure_exit [OF this] show ?thesis
        using Some ContainerDaemon by (auto simp: EXIT_PERMANENT_FAILURE_def container_args.truncate_def)
    next
      case (HostDaemon a)
      then show ?thesis
        using d host_command_code by (simp add: dispatch_def)
    next
      case (Paste a)
      then show ?thesis
        using d paste_code by (auto simp: dispatch_def split: if_splits)
    qed (use d run_async_code in \<open>auto simp: dispatch_def open_command_def ensured_def stop_command_def split: prod.splits if_splits\<close>)
  qed
qed

text \<open>The commands that talk to the host daemon look for it at the port of their own flag or the default: nothing in the
  configuration file or in \<open>DCBRIDGE_HOST_PORT\<close> changes what they do. Only the hardlink, the container daemon and the
  data port of a paste read it.\<close>

theorem commands_ignore_config:
  "dispatch (w\<lparr>wo_loaded := l\<rparr>) (Status a) = dispatch w (Status a)"
  "dispatch (w\<lparr>wo_loaded := l\<rparr>) (command.Forward b) = dispatch w (command.Forward b)"
  "dispatch (w\<lparr>wo_loaded := l\<rparr>) (command.Unforward c) = dispatch w (command.Unforward c)"
  "dispatch (w\<lparr>wo_loaded := l\<rparr>) (Ensure d) = dispatch w (Ensure d)"
  "dispatch (w\<lparr>wo_loaded := l\<rparr>) (command.Stop e) = dispatch w (command.Stop e)"
  "dispatch (w\<lparr>wo_loaded := l\<rparr>) (Restart f) = dispatch w (Restart f)"
  by (simp_all add: dispatch_def exits_def run_async_def cli_host_def ensured_def stop_command_def split: prod.split)

subsection \<open>Witnesses\<close>

definition sample_parsers :: value_parsers where
  "sample_parsers = \<lparr>vp_ip = (\<lambda>_. None), vp_u16 = parse_u16, vp_u64 = parse_u64\<rparr>"

definition clipboard_line :: raw_args where
  "clipboard_line = \<lparr>ra_flags = [''allow-clipboard''], ra_values = [], ra_operands = []\<rparr>"

lemma clipboard_line_parsed:
  "\<exists>a. parse_command sample_parsers ''host-daemon'' clipboard_line = Inr (HostDaemon a) \<and> ha_auth_token a = None \<and> ha_auth_token_file a = None
     \<and> \<not> ha_no_auth a \<and> \<not> ha_no_clipboard a \<and> ha_allow_clipboard a"
  by (simp add: parse_command_def parse_host_daemon_def arg_defs clipboard_line_def)

theorem started_daemon_guarded_witness:
  "\<exists>a config d token. parse_command sample_parsers ''host-daemon'' clipboard_line = Inr (HostDaemon a)
    \<and> fst (host_daemon_config sample_sources (Inr config_default) (host_args.truncate a)) = Inr config
    \<and> host_start (Some False) (\<lambda>_ _. True) True config = Inr (Localhost, d) \<and> cs_enabled (dc_clipboard d)
    \<and> validate_token_format token \<and> cs_token (dc_clipboard d) = Some token"
proof -
  obtain a where a: "parse_command sample_parsers ''host-daemon'' clipboard_line = Inr (HostDaemon a)" "ha_auth_token a = None"
    "ha_auth_token_file a = None" "\<not> ha_no_auth a" "\<not> ha_no_clipboard a" "ha_allow_clipboard a"
    using clipboard_line_parsed by blast
  obtain token fs where e: "ensure_spawn_token sample_sources False None None = (Inr (Some token), fs)"
    using sample_ensured by blast
  then obtain p where p: "token_file_path (as_home sample_sources) = Inr p" and made: "ensure_token (as_env sample_sources) p (as_fs sample_sources) = (Inr token, fs)"
    by (auto simp: ensure_spawn_token_def split: sum.splits prod.splits)
  have "resolve_from sample_sources None None p = Inl (NoTokenSource p)"
    by (simp add: resolve_from_def resolve_token_def non_blank_def sample_sources_def read_token_file_def read_to_string_def sample_auth_env_def)
  then have t: "host_token sample_sources (host_args.truncate a) = (Inr (Some token), fs)"
    using a p made by (simp add: host_token_def host_args.truncate_def)
  then obtain config where c: "fst (host_daemon_config sample_sources (Inr config_default) (host_args.truncate a)) = Inr config"
    and hc: "hc_auth_token config = Some token" "hc_allow_clipboard config"
    using a by (auto simp: host_daemon_config_def host_args.truncate_def)
  have "token \<noteq> []"
    using ensured_valid [OF made] by (auto simp: validate_token_format_def TOKEN_HEX_LENGTH_def)
  then obtain addr d where h: "host_start (Some False) (\<lambda>_ _. True) True config = Inr (addr, d)" "cs_enabled (dc_clipboard d)"
    using hc by (auto simp: host_start_def clipboard_service_new_def Let_def)
  show ?thesis
    using started_daemon_guarded [OF a(1) c h(1)] a(1) c h by (force simp: clipboard_line_def flag_def values_of_def)
qed

definition sample_world :: world where
  "sample_world =
     \<lparr>wo_words = [''dbr'', ''container-daemon'', ''--host-addr'', ''1.2.3.4''],
      wo_clap = (\<lambda>_. Some (''container-daemon'', \<lparr>ra_flags = [], ra_values = [(''host-addr'', ''1.2.3.4'')], ra_operands = []\<rparr>)),
      wo_parsers = sample_parsers, wo_sources = sample_sources, wo_loaded = Inr config_default, wo_resolve = sample_resolve,
      wo_host_var = None, wo_home_os = None, wo_runtime = True, wo_to_string = (\<lambda>_. None), wo_from_str = (\<lambda>_. None),
      wo_pretty = (\<lambda>_ _. None), wo_now = 0, wo_connect = (\<lambda>_ _. Inl OtherIo), wo_open_connect = (\<lambda>_. Inl ConnectionClosed),
      wo_forward_events = [], wo_ensure = (\<lambda>_ _. sample_spawn), wo_paste = (\<lambda>_ _. sample_paste), wo_docker = None, wo_can_bind = (\<lambda>_ _. True),
      wo_signals = True, wo_host_events = [], wo_attempts = [sample_attempt True], wo_fs = sample_fs,
      wo_pid_env = \<lparr>pi_create_dir = None, pi_write = None, pi_remove = None\<rparr>, wo_pid_file = None\<rparr>"

theorem exit_codes_witness:
  "oc_exit (main sample_world) = Some (ExitWith 2)
    \<and> (\<exists>a token. command_of sample_world = Some (ContainerDaemon a) \<and> (\<exists>attempt \<in> set (wo_attempts sample_world). refused_by_host token attempt))"
proof -
  obtain a where a: "command_of sample_world = Some (ContainerDaemon a)" "container_args.truncate a = sample_container_args"
    by (simp add: command_of_def sample_world_def parse_command_def parse_container_daemon_def arg_defs text_value_def utf8_ok_ascii is_ascii_def
        container_args.truncate_def sample_container_args_def DEFAULT_SCAN_INTERVAL_MS_def)
  have "container_daemon_command sample_sources sample_resolve (Inr config_default) sample_container_args [sample_attempt True] sample_fs
       = Some (ExitWith 2)"
    using permanent_failure_exit_witness by blast
  moreover have "\<not> invoked_as_dbr_open (Some ''dbr'')"
    by code_simp
  moreover have "wo_words sample_world = [''dbr'', ''container-daemon'', ''--host-addr'', ''1.2.3.4'']" "wo_runtime sample_world"
    "wo_sources sample_world = sample_sources" "wo_resolve sample_world = sample_resolve" "wo_loaded sample_world = Inr config_default"
    "wo_attempts sample_world = [sample_attempt True]" "wo_fs sample_world = sample_fs"
    by (simp_all add: sample_world_def)
  ultimately have e: "oc_exit (main sample_world) = Some (ExitWith 2)"
    using a by (simp add: main_command dispatch_def)
  show ?thesis
    using exit_codes [OF e] e a(1) by auto
qed

end
