(* ===== verification/Pasteboard.thy ===== *)
theory Pasteboard
  imports Clipboard RustPath
begin

section \<open>The pasteboard of macOS (src/clipboard\_capture.rs)\<close>

text \<open>
  The capture on macOS runs a JavaScript program under \<open>osascript\<close>. The program is part of the
  source and translated here statement by statement: a thrown error is \<open>None\<close>, what it writes is
  the value. The pasteboard, the files and the image library that it calls are a record, and
  \<open>osascript\<close> itself is a parameter, with its documented behaviour as a hypothesis. The theory
  ends with the capture of all platforms.
\<close>

subsection \<open>What the program reads\<close>

text \<open>
  \<open>pb_items\<close> has for each item of the pasteboard the string of its type \<open>public.file-url\<close>;
  \<open>pb_url\<close> is \<open>NSURL.URLWithString\<close>, with \<open>isFileURL\<close> and \<open>path\<close> of the URL; \<open>pb_file\<close> the bytes of
  a file that can be opened and read. \<open>pb_changed\<close> says that the change count differs when the
  files have been read. \<open>pb_data\<close> is \<open>dataForType\<close>, asked after the items, and \<open>pb_bitmap\<close> gives the
  width and the height of a bitmap and its PNG representation. \<open>None\<close> is \<open>nil\<close>.
\<close>

record pasteboard =
  pb_items :: "string option list option"
  pb_url :: "string \<Rightarrow> (bool \<times> string) option"
  pb_file :: "string \<Rightarrow> bytes option"
  pb_changed :: bool
  pb_data :: "string \<Rightarrow> bytes option"
  pb_bitmap :: "bytes \<Rightarrow> (nat \<times> nat \<times> bytes option) option"

subsection \<open>The program\<close>

definition native_types :: "clipboard_format \<Rightarrow> string list" where
  "native_types format =
     (case format of Png \<Rightarrow> [''public.png''] | Jpeg \<Rightarrow> [''public.jpeg''] | Auto \<Rightarrow> [''public.png'', ''public.jpeg''])"

definition allow_tiff :: "clipboard_format \<Rightarrow> bool" where
  "allow_tiff format \<longleftrightarrow> format \<noteq> Jpeg"

text \<open>The loop over the items collects the file URLs, here as their paths.\<close>

fun add_file_urls :: "pasteboard \<Rightarrow> string option list \<Rightarrow> string list \<Rightarrow> string list option" where
  "add_file_urls board [] file_urls = Some file_urls"
| "add_file_urls board (item # items) file_urls =
     (case item of
        None \<Rightarrow> add_file_urls board items file_urls
      | Some value \<Rightarrow>
          (case pb_url board value of
             None \<Rightarrow> None
           | Some (is_file_url, path) \<Rightarrow>
               if \<not> is_file_url then None else add_file_urls board items (file_urls @ [path])))"

fun read_files :: "pasteboard \<Rightarrow> string list \<Rightarrow> bytes option list \<Rightarrow> bytes option list option" where
  "read_files board [] payloads = Some payloads"
| "read_files board (path # paths) payloads =
     (case pb_file board path of
        None \<Rightarrow> None
      | Some contents \<Rightarrow> read_files board paths (payloads @ [Some (take (MAX_IMAGE_BYTES + 1) contents)]))"

definition copied_payloads :: "pasteboard \<Rightarrow> string list \<Rightarrow> bytes option list option" where
  "copied_payloads board file_urls =
     (if length file_urls > MAX_BATCH_IMAGES then None
      else (case read_files board file_urls [] of
              None \<Rightarrow> None
            | Some payloads \<Rightarrow> if pb_changed board then None else Some payloads))"

fun first_native :: "pasteboard \<Rightarrow> string list \<Rightarrow> bytes option" where
  "first_native board [] = None"
| "first_native board (type # types) =
     (case pb_data board type of Some data \<Rightarrow> Some data | None \<Rightarrow> first_native board types)"

definition from_tiff :: "pasteboard \<Rightarrow> bytes option option" where
  "from_tiff board =
     (case pb_data board ''public.tiff'' of
        None \<Rightarrow> Some None
      | Some tiff \<Rightarrow>
          if length tiff > MAX_IMAGE_BYTES then None
          else (case pb_bitmap board tiff of
                  None \<Rightarrow> Some None
                | Some (pixels_wide, pixels_high, png) \<Rightarrow>
                    if pixels_wide * pixels_high > 40000000 then None else Some png))"

definition rendered_payloads :: "string list \<Rightarrow> bool \<Rightarrow> pasteboard \<Rightarrow> bytes option list option" where
  "rendered_payloads types tiff_allowed board =
     (case first_native board types of
        Some data \<Rightarrow> Some [Some data]
      | None \<Rightarrow>
          if tiff_allowed then (case from_tiff board of None \<Rightarrow> None | Some data \<Rightarrow> Some [data])
          else Some [None])"

fun measure_payloads :: "bytes option list \<Rightarrow> nat list \<Rightarrow> nat \<Rightarrow> (nat list \<times> nat) option" where
  "measure_payloads [] sizes tot = Some (sizes, tot)"
| "measure_payloads (payload # payloads) sizes tot =
     (case payload of
        None \<Rightarrow> None
      | Some data \<Rightarrow>
          if length data > MAX_IMAGE_BYTES then None
          else measure_payloads payloads (sizes @ [length data]) (tot + length data))"

text \<open>\<open>JSON.stringify\<close> of an object whose one field is an array of numbers.\<close>

fun commas :: "nat list \<Rightarrow> bytes" where
  "commas [] = []"
| "commas [n] = show_nat n"
| "commas (n # ns) = show_nat n @ CHR '','' # commas ns"

definition sizes_json :: "nat list \<Rightarrow> bytes" where
  "sizes_json sizes = [CHR ''{'', CHR 0x22] @ ''sizes'' @ [CHR 0x22] @ '':['' @ commas sizes @ '']}''"

definition write_payloads :: "bytes option list \<Rightarrow> bytes option" where
  "write_payloads payloads =
     (case measure_payloads payloads [] 0 of
        None \<Rightarrow> None
      | Some (sizes, tot) \<Rightarrow>
          if tot > MAX_BATCH_BYTES then None
          else Some (sizes_json sizes @ [newline] @ concat (map the payloads)))"

definition script :: "string list \<Rightarrow> bool \<Rightarrow> pasteboard \<Rightarrow> bytes option" where
  "script types tiff_allowed board =
     (case (case pb_items board of None \<Rightarrow> Some [] | Some items \<Rightarrow> add_file_urls board items []) of
        None \<Rightarrow> None
      | Some file_urls \<Rightarrow>
          (case (if file_urls \<noteq> [] then copied_payloads board file_urls else rendered_payloads types tiff_allowed board) of
             None \<Rightarrow> None
           | Some payloads \<Rightarrow> write_payloads payloads))"

subsection \<open>The captures of all platforms\<close>

text \<open>
  \<open>dk_boards\<close> has the general pasteboard and those with a name, \<open>dk_osascript\<close> says what a run of
  \<open>osascript\<close> gives for a program that throws or writes its bytes, \<open>dk_header\<close> parses the header.
\<close>

record desktop =
  dk_boards :: "string option \<Rightarrow> pasteboard"
  dk_osascript :: "bytes option \<Rightarrow> helper"
  dk_header :: "bytes \<Rightarrow> u64 list option"
  dk_helpers :: helpers

definition capture_from_pasteboard ::
  "desktop \<Rightarrow> clipboard_format \<Rightarrow> string option \<Rightarrow> capture_error + clipboard_image list" where
  "capture_from_pasteboard d format pasteboard_name =
     res_bind (run_helper (dk_osascript d (script (native_types format) (allow_tiff format) (dk_boards d pasteboard_name)))
         (MAX_HEADER_BYTES + MAX_BATCH_BYTES))
       (\<lambda>out. split_captured_images (dk_header d) out format)"

datatype platform = MacOs | Linux | OtherPlatform

definition capture :: "platform \<Rightarrow> desktop \<Rightarrow> clipboard_format \<Rightarrow> capture_error + clipboard_image list" where
  "capture platform d format =
     (case platform of
        MacOs \<Rightarrow> capture_from_pasteboard d format None
      | Linux \<Rightarrow> capture_candidates (capture_format (dk_helpers d)) format
      | OtherPlatform \<Rightarrow> capture_candidates capture_format_other format)"

subsection \<open>What is copied\<close>

text \<open>The strings of the copied files, and the file that one names.\<close>

definition copied_files :: "pasteboard \<Rightarrow> string list" where
  "copied_files board = (case pb_items board of None \<Rightarrow> [] | Some items \<Rightarrow> map the (filter (\<lambda>i. i \<noteq> None) items))"

definition file_of :: "pasteboard \<Rightarrow> string \<Rightarrow> bytes option" where
  "file_of board url = (case pb_url board url of Some (True, path) \<Rightarrow> pb_file board path | _ \<Rightarrow> None)"

text \<open>The one image of a pasteboard without files: of the first type that is there, or made from a TIFF image.\<close>

definition rendered :: "clipboard_format \<Rightarrow> pasteboard \<Rightarrow> bytes option" where
  "rendered format board =
     (case find (\<lambda>t. pb_data board t \<noteq> None) (native_types format) of
        Some t \<Rightarrow> pb_data board t
      | None \<Rightarrow> if format = Jpeg then None else Option.bind (from_tiff board) id)"

definition selection :: "clipboard_format \<Rightarrow> pasteboard \<Rightarrow> bytes list option" where
  "selection format board =
     (let payloads = (if copied_files board = [] then [rendered format board] else map (file_of board) (copied_files board)) in
      if length payloads \<le> 16 \<and> (copied_files board \<noteq> [] \<longrightarrow> \<not> pb_changed board)
        \<and> (\<forall>p \<in> set payloads. p \<noteq> None \<and> length (the p) \<le> 20971520)
        \<and> sum_list (map (length \<circ> the) payloads) \<le> 67108864
      then Some (map the payloads) else None)"

text \<open>The images of a selection, or the error of the first payload that is none.\<close>

definition classify :: "clipboard_format \<Rightarrow> bytes list \<Rightarrow> capture_error + clipboard_image list" where
  "classify format payloads =
     (case find (\<lambda>p. image_format p format = None) payloads of
        None \<Rightarrow> Inr (map (\<lambda>p. \<lparr>ci_format = the (image_format p format), ci_bytes = p\<rparr>) payloads)
      | Some p \<Rightarrow> Inl (if p \<noteq> [] \<and> length payloads > 1 then MixedSelection else Unavailable))"

text \<open>Documented behaviour: \<open>osascript\<close> passes on what a program writes and exits with an error status
  when it throws, with a short diagnostic; the JSON parser reads the sizes that were printed.\<close>

definition runs_scripts :: "(bytes option \<Rightarrow> helper) \<Rightarrow> bool" where
  "runs_scripts osa \<longleftrightarrow>
     (\<forall>out. osa (Some out) = Helper out [] (Some True))
     \<and> (\<exists>diagnostic. length diagnostic \<le> 4096 \<and> osa None = Helper [] diagnostic (Some False))"

definition reads_sizes :: "(bytes \<Rightarrow> u64 list option) \<Rightarrow> bool" where
  "reads_sizes header \<longleftrightarrow> (\<forall>sizes. sizes \<noteq> [] \<and> (\<forall>n \<in> set sizes. n \<le> 20971520) \<longrightarrow>
     header (sizes_json sizes) = Some (map of_nat sizes))"

subsection \<open>The program writes the selection\<close>

lemma add_file_urls_eq:
  "add_file_urls board items acc =
     (let urls = map the (filter (\<lambda>i. i \<noteq> None) items) in
      if \<forall>u \<in> set urls. \<exists>p. pb_url board u = Some (True, p) then Some (acc @ map (snd \<circ> the \<circ> pb_url board) urls) else None)"
  by (induction board items acc rule: add_file_urls.induct) (auto simp: Let_def split: option.splits)

lemma read_files_eq:
  "read_files board paths acc =
     (if \<forall>p \<in> set paths. pb_file board p \<noteq> None
      then Some (acc @ map (\<lambda>p. Some (take (MAX_IMAGE_BYTES + 1) (the (pb_file board p)))) paths) else None)"
  by (induction board paths acc rule: read_files.induct) (auto split: option.splits)

lemma measure_payloads_eq:
  "measure_payloads ps sizes tot =
     (if \<forall>p \<in> set ps. p \<noteq> None \<and> length (the p) \<le> MAX_IMAGE_BYTES
      then Some (sizes @ map (length \<circ> the) ps, tot + sum_list (map (length \<circ> the) ps)) else None)"
  by (induction ps sizes tot rule: measure_payloads.induct) (auto simp: comp_def split: option.splits)

lemma write_payloads_eq:
  "write_payloads ps =
     (if (\<forall>p \<in> set ps. p \<noteq> None \<and> length (the p) \<le> MAX_IMAGE_BYTES) \<and> sum_list (map (length \<circ> the) ps) \<le> MAX_BATCH_BYTES
      then Some (sizes_json (map (length \<circ> the) ps) @ newline # concat (map the ps)) else None)"
  by (auto simp: write_payloads_def measure_payloads_eq)

lemma first_native_eq:
  "first_native board types = (case find (\<lambda>t. pb_data board t \<noteq> None) types of Some t \<Rightarrow> pb_data board t | None \<Rightarrow> None)"
  by (induction types) (auto split: option.splits)

lemma rendered_payloads_eq:
  "rendered_payloads (native_types format) (allow_tiff format) board = Some ps \<Longrightarrow> ps = [rendered format board]"
  "rendered_payloads (native_types format) (allow_tiff format) board = None \<Longrightarrow> rendered format board = None"
proof -
  have eq: "rendered format board = (case first_native board (native_types format) of
      Some data \<Rightarrow> Some data | None \<Rightarrow> if allow_tiff format then Option.bind (from_tiff board) id else None)"
  proof (cases "find (\<lambda>t. pb_data board t \<noteq> None) (native_types format)")
    case (Some t)
    moreover have "pb_data board t \<noteq> None"
      using Some by (auto simp: find_Some_iff)
    ultimately show ?thesis
      unfolding rendered_def first_native_eq by auto
  qed (simp add: rendered_def first_native_eq allow_tiff_def)
  show "rendered_payloads (native_types format) (allow_tiff format) board = Some ps \<Longrightarrow> ps = [rendered format board]"
    unfolding eq rendered_payloads_def by (auto split: option.splits if_splits)
  show "rendered_payloads (native_types format) (allow_tiff format) board = None \<Longrightarrow> rendered format board = None"
    unfolding eq rendered_payloads_def by (auto split: option.splits if_splits)
qed

lemma written_selection:
  assumes "ps = (if copied_files board = [] then [rendered format board] else map (file_of board) (copied_files board))"
    and "length ps \<le> 16" and "copied_files board \<noteq> [] \<longrightarrow> \<not> pb_changed board"
  shows "write_payloads ps = map_option (\<lambda>ps. sizes_json (map length ps) @ newline # concat ps) (selection format board)"
  unfolding selection_def Let_def assms(1) [symmetric] write_payloads_eq MAX_IMAGE_BYTES_def MAX_BATCH_BYTES_def
  using assms(2,3) by (auto simp: comp_def)

text \<open>A file that is too large is still too large when it is read up to one byte past the limit.\<close>

lemma truncated_payloads:
  assumes "\<forall>c \<in> set cs. c \<noteq> None"
  shows "write_payloads (map (\<lambda>c. Some (take (MAX_IMAGE_BYTES + 1) (the c))) cs) = write_payloads cs"
proof (cases "\<forall>c \<in> set cs. length (the c) \<le> MAX_IMAGE_BYTES")
  case True
  then have "map (\<lambda>c. Some (take (MAX_IMAGE_BYTES + 1) (the c))) cs = cs"
    using assms by (intro map_idI) fastforce
  then show ?thesis
    by simp
next
  case False
  then show ?thesis
    unfolding write_payloads_eq by (auto simp: min_def split: if_splits)
qed

lemma file_urls_eq:
  "(case pb_items board of None \<Rightarrow> Some [] | Some items \<Rightarrow> add_file_urls board items []) =
     (if \<forall>u \<in> set (copied_files board). \<exists>p. pb_url board u = Some (True, p)
      then Some (map (snd \<circ> the \<circ> pb_url board) (copied_files board)) else None)"
  by (cases "pb_items board") (auto simp: copied_files_def add_file_urls_eq Let_def)

lemma copied_contents:
  "\<forall>u \<in> set urls. \<exists>p. pb_url board u = Some (True, p) \<Longrightarrow>
   map (pb_file board) (map (snd \<circ> the \<circ> pb_url board) urls) = map (file_of board) urls"
  by (auto simp: file_of_def)

lemma script_copied:
  assumes "copied_files board \<noteq> []"
  shows "script (native_types format) (allow_tiff format) board =
    (if (\<forall>u \<in> set (copied_files board). file_of board u \<noteq> None) \<and> length (copied_files board) \<le> 16 \<and> \<not> pb_changed board
     then write_payloads (map (file_of board) (copied_files board)) else None)"
proof (cases "\<forall>u \<in> set (copied_files board). \<exists>p. pb_url board u = Some (True, p)")
  case True
  let ?paths = "map (snd \<circ> the \<circ> pb_url board) (copied_files board)"
  note contents = copied_contents [OF True]
  have "pb_file board ((snd \<circ> the \<circ> pb_url board) u) = file_of board u" if "u \<in> set (copied_files board)" for u
    using True that by (auto simp: file_of_def)
  then have files: "(\<forall>p \<in> set ?paths. pb_file board p \<noteq> None) \<longleftrightarrow> (\<forall>u \<in> set (copied_files board). file_of board u \<noteq> None)"
    unfolding set_map ball_simps by (intro ball_cong refl) simp
  have read: "read_files board ?paths [] = (if \<forall>u \<in> set (copied_files board). file_of board u \<noteq> None
      then Some (map (\<lambda>c. Some (take (MAX_IMAGE_BYTES + 1) (the c))) (map (file_of board) (copied_files board))) else None)"
    unfolding read_files_eq files contents [symmetric] by (simp add: comp_def)
  have "script (native_types format) (allow_tiff format) board =
      (case copied_payloads board ?paths of None \<Rightarrow> None | Some payloads \<Rightarrow> write_payloads payloads)"
    unfolding script_def file_urls_eq using assms True by simp
  then show ?thesis
    using truncated_payloads [of "map (file_of board) (copied_files board)"]
    unfolding copied_payloads_def read by (auto simp: MAX_BATCH_IMAGES_def)
next
  case False
  then have "\<exists>u \<in> set (copied_files board). file_of board u = None"
    unfolding file_of_def by (auto split: option.splits bool.splits)
  then show ?thesis
    using False unfolding script_def file_urls_eq by auto
qed

lemma script_eq:
  "script (native_types format) (allow_tiff format) board =
     map_option (\<lambda>ps. sizes_json (map length ps) @ newline # concat ps) (selection format board)"
proof (cases "copied_files board = []")
  case True
  show ?thesis
  proof (cases "rendered_payloads (native_types format) (allow_tiff format) board")
    case None
    then show ?thesis
      using True rendered_payloads_eq(2) [OF None] by (simp add: script_def file_urls_eq selection_def)
  next
    case (Some ps)
    then show ?thesis
      using True rendered_payloads_eq(1) [OF Some] written_selection [of ps board format]
      by (simp add: script_def file_urls_eq)
  qed
next
  case False
  let ?ok = "(\<forall>u \<in> set (copied_files board). file_of board u \<noteq> None) \<and> length (copied_files board) \<le> 16 \<and> \<not> pb_changed board"
  show ?thesis
  proof (cases ?ok)
    case True
    then show ?thesis
      unfolding script_copied [OF False] using written_selection [of _ board format] False by simp
  next
    case bad: False
    then have "selection format board = None"
      using False by (auto simp: selection_def)
    then show ?thesis
      unfolding script_copied [OF False] using bad by (simp only: if_False option.map)
  qed
qed

subsection \<open>What is read back\<close>

lemma commas_ne: "commas (n # ns) = show_nat n @ (if ns = [] then [] else CHR '','' # commas ns)"
  by (cases ns) simp_all

lemma commas_chars: "c \<in> set (commas ns) \<Longrightarrow> is_ascii_digit c \<or> c = CHR '',''"
proof (induction ns)
  case (Cons n ns)
  then show ?case
    using show_nat_digits [of n] by (auto simp: commas_ne split: if_splits)
qed simp

lemma commas_length: "\<forall>n \<in> set ns. n \<le> 20971520 \<Longrightarrow> length (commas ns) \<le> 9 * length ns"
proof (induction ns)
  case (Cons n ns)
  have "length (show_nat n) \<le> Suc 7"
    using Cons.prems by (intro show_nat_length) simp
  with Cons show ?case
    by (auto simp: commas_ne)
qed simp

lemma sizes_json_line: "newline \<notin> set (sizes_json ns)"
  using commas_chars [of newline ns] by (auto simp: sizes_json_def is_ascii_digit_def)

lemma sizes_json_length: "\<forall>n \<in> set ns. n \<le> 20971520 \<Longrightarrow> length ns \<le> 16 \<Longrightarrow> length (sizes_json ns) < 256"
  using commas_length [of ns] by (simp add: sizes_json_def)

lemma selection_bounds:
  assumes "selection format board = Some ps"
  shows "ps \<noteq> []" and "length ps \<le> 16" and "\<forall>p \<in> set ps. length p \<le> 20971520" and "sum_list (map length ps) \<le> 67108864"
  using assms by (auto simp: selection_def Let_def comp_def split: if_splits)

lemma find_image_empty: "image_format [] format = None"
  using matches_nonempty image_format_ok by (metis not_None_eq)

lemma split_images_concat:
  "\<forall>p \<in> set ps. length p \<le> 20971520 \<Longrightarrow>
   split_images count format (map (of_nat \<circ> length) ps) (concat ps) images =
     (case find (\<lambda>p. image_format p format = None) ps of
        None \<Rightarrow> Inr (images @ map (\<lambda>p. \<lparr>ci_format = the (image_format p format), ci_bytes = p\<rparr>) ps)
      | Some p \<Rightarrow> Inl (if p \<noteq> [] \<and> count > 1 then MixedSelection else Unavailable))"
proof (induction ps arbitrary: images)
  case (Cons p ps)
  have u: "unat (of_nat (length p) :: u64) = length p"
    using Cons.prems by (simp add: unat_of_nat)
  then have "(of_nat (length p) :: u64) = 0 \<longleftrightarrow> p = []"
    unfolding unat_0_iff [symmetric] by simp
  with u have step: "split_images count format (map (of_nat \<circ> length) (p # ps)) (concat (p # ps)) images =
      (if p = [] then Inl Unavailable
       else (case image_format p format of
               None \<Rightarrow> Inl (if count > 1 then MixedSelection else Unavailable)
             | Some m \<Rightarrow> split_images count format (map (of_nat \<circ> length) ps) (concat ps)
                 (images @ [\<lparr>ci_format = m, ci_bytes = p\<rparr>])))"
    using Cons.prems by (cases "image_format p format") (simp_all add: MAX_IMAGE_BYTES_def)
  have ih: "split_images count format (map (of_nat \<circ> length) ps) (concat ps) (images @ [i]) =
     (case find (\<lambda>p. image_format p format = None) ps of
        None \<Rightarrow> Inr ((images @ [i]) @ map (\<lambda>p. \<lparr>ci_format = the (image_format p format), ci_bytes = p\<rparr>) ps)
      | Some p \<Rightarrow> Inl (if p \<noteq> [] \<and> count > 1 then MixedSelection else Unavailable))" for i
    using Cons.prems by (intro Cons.IH) simp
  show ?case
    unfolding step ih using find_image_empty [of format]
    by (cases "image_format p format") (auto cong: option.case_cong)
qed simp

lemma split_captured_selection:
  assumes "reads_sizes header" and "ps \<noteq> []" and "length ps \<le> 16" and "\<forall>p \<in> set ps. length p \<le> 20971520"
  shows "split_captured_images header (sizes_json (map length ps) @ newline # concat ps) format = classify format ps"
proof -
  let ?line = "sizes_json (map length ps)"
  have l: "length ?line < 256"
    using assms(3,4) by (intro sizes_json_length) auto
  then have "take MAX_HEADER_BYTES (?line @ newline # concat ps) = ?line @ newline # take (255 - length ?line) (concat ps)"
    by (simp add: MAX_HEADER_BYTES_def take_Cons')
  moreover have "position (\<lambda>b. b = newline) ?line = None"
    using sizes_json_line [of "map length ps"] by (auto simp: position_None)
  ultimately have p: "position (\<lambda>b. b = newline) (take MAX_HEADER_BYTES (?line @ newline # concat ps)) = Some (length ?line)"
    by (simp add: position_append)
  have "header ?line = Some (map (of_nat \<circ> length) ps)"
    using assms by (auto simp: reads_sizes_def)
  then have "split_captured_images header (?line @ newline # concat ps) format =
      split_images (length ps) format (map (of_nat \<circ> length) ps) (concat ps) []"
    using assms(2,3) unfolding split_captured_images_def p by (simp add: MAX_BATCH_IMAGES_def)
  then show ?thesis
    unfolding split_images_concat [OF assms(4)] classify_def by (simp cong: option.case_cong)
qed

lemma pasteboard_selection:
  assumes "runs_scripts (dk_osascript d)" and "reads_sizes (dk_header d)"
  shows "capture_from_pasteboard d format name =
    (case selection format (dk_boards d name) of None \<Rightarrow> Inl Unavailable | Some ps \<Rightarrow> classify format ps)"
proof (cases "selection format (dk_boards d name)")
  case None
  then show ?thesis
    using assms(1) unfolding capture_from_pasteboard_def script_eq
    by (auto simp: runs_scripts_def run_helper_def read_bounded_def MAX_STDERR_BYTES_def)
next
  case (Some ps)
  note b = selection_bounds [OF Some]
  let ?out = "sizes_json (map length ps) @ newline # concat ps"
  have "length (sizes_json (map length ps)) < 256"
    using b by (intro sizes_json_length) auto
  then have "length ?out \<le> MAX_HEADER_BYTES + MAX_BATCH_BYTES"
    using b(4) by (simp add: MAX_HEADER_BYTES_def MAX_BATCH_BYTES_def length_concat)
  then have "run_helper (dk_osascript d (Some ?out)) (MAX_HEADER_BYTES + MAX_BATCH_BYTES) = Inr ?out"
    using assms(1) by (simp add: runs_scripts_def run_helper_def read_bounded_def)
  then show ?thesis
    using Some split_captured_selection [OF assms(2) b(1-3)] unfolding capture_from_pasteboard_def script_eq by simp
qed

lemma classify_acceptable:
  assumes "selection format board = Some ps" and "classify format ps = Inr images"
  shows "acceptable format images \<and> map ci_bytes images = ps"
proof -
  note b = selection_bounds [OF assms(1)]
  have f: "\<forall>p \<in> set ps. \<exists>m. image_format p format = Some m"
    and i: "images = map (\<lambda>p. \<lparr>ci_format = the (image_format p format), ci_bytes = p\<rparr>) ps"
    using assms(2) by (auto simp: classify_def find_None_iff split: option.splits)
  have "map ci_bytes images = ps"
    unfolding i by (simp add: comp_def)
  moreover have "matches_format (ci_bytes i) (ci_format i) \<and> (format = Auto \<or> format = ci_format i)" if "i \<in> set images" for i
    using that f image_format_ok [of _ format] unfolding i by fastforce
  moreover have "map (length \<circ> ci_bytes) images = map length ps" and "length images = length ps"
    unfolding i by (simp_all add: comp_def)
  moreover have "images \<noteq> []" and "\<forall>i \<in> set images. length (ci_bytes i) \<le> 20971520"
    using b(1,3) unfolding i by auto
  ultimately show ?thesis
    using b(2,4) unfolding acceptable_def by simp
qed

lemma selection_copied:
  assumes "copied_files board \<noteq> []" and "selection format board = Some ps"
  shows "map Some ps = map (file_of board) (copied_files board) \<and> \<not> pb_changed board"
proof -
  let ?files = "map (file_of board) (copied_files board)"
  have ps: "ps = map the ?files" and ne: "\<forall>p \<in> set ?files. p \<noteq> None" and unchanged: "\<not> pb_changed board"
    using assms by (simp_all add: selection_def Let_def split: if_splits)
  have "map Some (map the ?files) = ?files"
    using ne by (auto intro!: map_idI)
  with ps unchanged show ?thesis
    by simp
qed

lemma classify_error:
  assumes "selection format board = Some ps" and "classify format ps = Inl e"
  shows "e = Unavailable \<or> e = MixedSelection \<and> length (copied_files board) > 1"
  using assms by (auto simp: selection_def classify_def Let_def split: option.splits if_splits)

lemma other_platform: "capture OtherPlatform d format = Inl UnsupportedPlatform"
  by (cases format) (simp_all add: capture_def capture_candidates_def capture_format_other_def)

text \<open>The instance: a header parser that reads exactly what is printed, and a pasteboard with a PNG
  and a JPEG file, whose items carry icons as well.\<close>

definition parse_sizes :: "bytes \<Rightarrow> u64 list option" where
  "parse_sizes line =
     (let inner = drop 10 (take (length line - 2) line) in
      Some (map (\<lambda>s. of_nat (the (digits_val 10 0 s))) (split_on (CHR '','') inner)))"

definition sample_board :: pasteboard where
  "sample_board = \<lparr>pb_items = Some [Some ''a'', None, Some ''b''], pb_url = (\<lambda>u. Some (True, slash # u)),
     pb_file = (\<lambda>p. if p = [slash, CHR ''a''] then Some tiny_png
                     else if p = [slash, CHR ''b''] then Some (jpeg_signature @ [CHR 0x41]) else None),
     pb_changed = False, pb_data = (\<lambda>t. if t = ''public.png'' then Some png_signature else None),
     pb_bitmap = (\<lambda>_. None)\<rparr>"

definition sample_desktop :: desktop where
  "sample_desktop = \<lparr>dk_boards = (\<lambda>_. sample_board),
     dk_osascript = (\<lambda>r. case r of Some out \<Rightarrow> Helper out [] (Some True) | None \<Rightarrow> Helper [] ''execution error'' (Some False)),
     dk_header = parse_sizes, dk_helpers = (\<lambda>_ _. SpawnError NotFound)\<rparr>"

lemma split_on_sep: "sep \<notin> set s \<Longrightarrow> split_on sep (s @ sep # t) = s # split_on sep t"
  by (induction s) auto

lemma split_on_none: "sep \<notin> set s \<Longrightarrow> split_on sep s = [s]"
  by (induction s) auto

lemma split_commas_json: "ns \<noteq> [] \<Longrightarrow> split_on (CHR '','') (commas ns) = map show_nat ns"
proof (induction ns)
  case (Cons n ns)
  have "CHR '','' \<notin> set (show_nat n)"
    using show_nat_digits [of n] by (auto simp: is_ascii_digit_def)
  with Cons.IH show ?case
    by (simp add: commas_ne split_on_sep split_on_none)
qed simp

lemma sample_reads: "reads_sizes (dk_header sample_desktop)"
  by (simp add: reads_sizes_def sample_desktop_def parse_sizes_def sizes_json_def split_commas_json digits_val_show_nat
      comp_def)

lemma sample_runs: "runs_scripts (dk_osascript sample_desktop)"
  by (simp add: runs_scripts_def sample_desktop_def)

lemma sample_selection: "selection Auto sample_board = Some [tiny_png, jpeg_signature @ [CHR 0x41]]"
  by (simp add: selection_def copied_files_def file_of_def sample_board_def tiny_png_def png_signature_def jpeg_signature_def)

lemma sample_images: "classify Auto [tiny_png, jpeg_signature @ [CHR 0x41]] =
    Inr [\<lparr>ci_format = Png, ci_bytes = tiny_png\<rparr>, \<lparr>ci_format = Jpeg, ci_bytes = jpeg_signature @ [CHR 0x41]\<rparr>]"
  by (simp add: classify_def image_format_def tiny_png_def png_signature_def jpeg_signature_def)

subsection \<open>Properties\<close>

text \<open>C21. Capture on every platform. On macOS the program, its helper process and the split of its output
  together give the images of the selection: if files are copied, exactly their whole
  contents in order, when there are at most 16, the pasteboard has not changed, each can be
  read and has at most 20 MiB, all together at most 64 MiB, and each is an image of the
  requested format; otherwise an error, which is \<open>MixedSelection\<close> only when one of several files
  is no such image. Without files it is the image that is there. No platform returns
  images that the client would not accept.\<close>

theorem capture_exact:
  assumes "runs_scripts (dk_osascript d)" and "reads_sizes (dk_header d)"
  shows "capture MacOs d format =
      (case selection format (dk_boards d None) of None \<Rightarrow> Inl Unavailable | Some ps \<Rightarrow> classify format ps)
    \<and> (copied_files (dk_boards d None) \<noteq> [] \<and> capture MacOs d format = Inr images \<longrightarrow>
         map (Some \<circ> ci_bytes) images = map (file_of (dk_boards d None)) (copied_files (dk_boards d None))
         \<and> \<not> pb_changed (dk_boards d None))
    \<and> (capture MacOs d format = Inl e \<longrightarrow>
         e = Unavailable \<or> e = MixedSelection \<and> length (copied_files (dk_boards d None)) > 1)
    \<and> (capture platform d format = Inr images \<longrightarrow> platform \<noteq> OtherPlatform \<and> acceptable format images)"
proof -
  have mac: "capture MacOs d format =
      (case selection format (dk_boards d None) of None \<Rightarrow> Inl Unavailable | Some ps \<Rightarrow> classify format ps)"
    using pasteboard_selection [OF assms] by (simp add: capture_def)
  moreover have "map (Some \<circ> ci_bytes) images = map (file_of (dk_boards d None)) (copied_files (dk_boards d None))
      \<and> \<not> pb_changed (dk_boards d None)"
    if "copied_files (dk_boards d None) \<noteq> []" "capture MacOs d format = Inr images"
    using that mac selection_copied classify_acceptable by (fastforce split: option.splits)
  moreover have "e = Unavailable \<or> e = MixedSelection \<and> length (copied_files (dk_boards d None)) > 1"
    if "capture MacOs d format = Inl e"
    using that mac classify_error by (fastforce split: option.splits)
  moreover have "platform \<noteq> OtherPlatform \<and> acceptable format images" if "capture platform d format = Inr images"
  proof (cases platform)
    case MacOs
    then show ?thesis
      using that mac classify_acceptable by (fastforce split: option.splits)
  next
    case Linux
    then show ?thesis
      using that capture_acceptable by (auto simp: capture_def)
  next
    case OtherPlatform
    then show ?thesis
      using that other_platform by simp
  qed
  ultimately show ?thesis
    by blast
qed

theorem capture_exact_witness:
  "capture MacOs sample_desktop Auto =
     Inr [\<lparr>ci_format = Png, ci_bytes = tiny_png\<rparr>, \<lparr>ci_format = Jpeg, ci_bytes = jpeg_signature @ [CHR 0x41]\<rparr>]"
  using capture_exact [OF sample_runs sample_reads, of Auto] sample_selection sample_images
  by (simp add: sample_desktop_def)

text \<open>An empty file among several copied ones is reported as if there were no image, not as a mixed
  selection.\<close>

definition empty_file_board :: pasteboard where
  "empty_file_board = sample_board\<lparr>pb_file := (\<lambda>p. if p = [slash, CHR ''a''] then Some tiny_png else Some [])\<rparr>"

theorem empty_file_not_mixed:
  "capture MacOs (sample_desktop\<lparr>dk_boards := (\<lambda>_. empty_file_board)\<rparr>) Auto = Inl Unavailable"
proof -
  have "selection Auto empty_file_board = Some [tiny_png, []]"
    by (simp add: selection_def copied_files_def file_of_def empty_file_board_def sample_board_def tiny_png_def
        png_signature_def)
  moreover have "classify Auto [tiny_png, []] = Inl Unavailable"
    by (simp add: classify_def image_format_def tiny_png_def png_signature_def jpeg_signature_def)
  ultimately show ?thesis
    using pasteboard_selection [of "sample_desktop\<lparr>dk_boards := (\<lambda>_. empty_file_board)\<rparr>" Auto None] sample_runs sample_reads
    by (simp add: capture_def)
qed

text \<open>The change count is compared only after files have been read: when files are copied between
  the look at the items and the read of the data, their icon is taken for the image.\<close>

theorem icon_of_late_copy:
  "capture MacOs (sample_desktop\<lparr>dk_boards := (\<lambda>_. sample_board\<lparr>pb_items := None, pb_changed := True\<rparr>)\<rparr>) Png
     = Inr [\<lparr>ci_format = Png, ci_bytes = png_signature\<rparr>]"
proof -
  let ?board = "sample_board\<lparr>pb_items := None, pb_changed := True\<rparr>"
  have "selection Png ?board = Some [png_signature]"
    by (simp add: selection_def copied_files_def rendered_def native_types_def sample_board_def png_signature_def)
  moreover have "classify Png [png_signature] = Inr [\<lparr>ci_format = Png, ci_bytes = png_signature\<rparr>]"
    by (simp add: classify_def image_format_def png_signature_def)
  ultimately show ?thesis
    using pasteboard_selection [of "sample_desktop\<lparr>dk_boards := (\<lambda>_. ?board)\<rparr>" Png None] sample_runs sample_reads
    by (simp add: capture_def)
qed

end
