(* ===== verification/Spec2Isabelle.thy ===== *)
theory Spec2Isabelle
  imports TunnelSystem SocketTunnel Dispatch Pasteboard
begin

text \<open>
  A model of devcontainer-bridge (\<open>dbr\<close>), which forwards TCP ports, Unix sockets, browser requests and
  clipboard images between development containers and their host.

  The program has two daemons. The container daemon (\<open>container/\<close>) scans \<open>/proc/net/tcp\<close>, and over a
  control connection of newline-framed JSON (\<open>control.rs\<close>, \<open>protocol.rs\<close>) registers with the host
  daemon and announces the ports that listen. The host daemon (\<open>host/\<close>) binds a listener for each announced
  port. For a client of a listener it sends a connect request to the container, which dials the
  local port and opens a data connection that names the request; the host matches the
  two and copies bytes both ways. The same path carries host sockets, which the host finds by
  glob patterns and the container mirrors. A data connection can instead ask for the images
  of the clipboard. The commands of the binary (\<open>main.rs\<close>) start and stop the daemons and ask the
  host single questions. A token guards registration, the clipboard and the shutdown.

  Theories and sources (all paths under \<open>src/src\<close>):

  \<^item> Prelude, RustStr, RustPath: hash maps as association lists, results as sums, the invariant rule
    as a locale, and the parts of \<open>str\<close>, of integer parsing and of \<open>std::path\<close> that the source uses.
  \<^item> Protocol (\<open>protocol.rs\<close>), Control and Framing (\<open>control.rs\<close>): the messages, the reads and writes of one
    line, the loss of bytes when \<open>select!\<close> drops a read, and the theorems on framing,
    from a locale of what a buffered reader promises.
  \<^item> HostPorts, HostState, Tracker, Pending, HostBrowser, SocketScanner, Clipboard (\<open>host/mod.rs\<close>,
    \<open>host/proxy.rs\<close>, \<open>host/browser.rs\<close>, \<open>host/socket_scanner.rs\<close>, \<open>host/clipboard.rs\<close>,
    \<open>clipboard_capture.rs\<close>, the receiver of \<open>clipboard_client.rs\<close>): the parts of the host daemon.
    Pasteboard (\<open>clipboard_capture.rs\<close>): the JavaScript program that reads the pasteboard of macOS, and \<open>capture\<close> on each platform.
    HostState has one function for each section of a handler that runs under one
    acquisition of the state lock.
  \<^item> Host (\<open>host/mod.rs\<close>, \<open>host/listener.rs\<close>): the handlers, composed from these sections and the effects
    between them; the message loop, the data connections, the socket scanner task, start and stop.
  \<^item> HostInv, HostSystem, HostSeq, HostProps, HostRelay: what holds of the host. HostSystem interleaves
    the sections of all tasks as a step relation; HostSeq runs whole handlers in any order; HostProps and
    HostRelay state what single handlers do. Daemon is the main loop of \<open>run\<close>, from the start to the teardown.
  \<^item> Scanner (\<open>container/scanner.rs\<close>, \<open>container/filter.rs\<close>), Mirror (\<open>container/socket.rs\<close>), HostAddr
    (\<open>container/browser.rs\<close> and the address resolution of \<open>container/mod.rs\<close>), ContainerData
    (\<open>container/data.rs\<close>), Session and ContainerRun (\<open>container/mod.rs\<close>): the container daemon. A session is a
    list of the branches of its \<open>select!\<close> that win, and what each turn keeps holds after all of them (the locale
    \<open>session_fact\<close>, used for its table and for its bytes); ContainerRun is the loop of attempts around it.
  \<^item> EndToEnd: the two daemons on one connection, from the bytes that a session writes to the forwards of the host.
    Tunnel: one proxied connection through both daemons, from the client to the service and back. TunnelSystem:
    all of them at once, as a step relation on the host, the control connections, the tasks of the containers and the data connections.
    SocketTunnel: the same for a host socket that is used through its mirror, and the daemon with its scanner task as a
    step relation, with what a container can reach.
  \<^item> Config (\<open>config.rs\<close>), Auth (\<open>auth.rs\<close>), Paste (\<open>clipboard_client.rs\<close>), Cli (\<open>main.rs\<close>,
    \<open>host/ensure.rs\<close>): the configuration layers, the token and its file, the paste command, and the commands.
    Args (\<open>cli.rs\<close>): the arguments of each command. Dispatch: \<open>main\<close> from the words of the command line to the exit code.

  State and operations. A struct is a record with the source's fields, a message or an error a
  datatype, \<open>u16\<close>, \<open>u32\<close> and \<open>u64\<close> are words, a \<open>HashMap\<close> is an association list with distinct keys, whose order
  stands for any order of iteration (where the order matters it is an argument, such as \<open>sv_iter\<close>).
  Strings and paths are byte strings, and characters are their UTF-8 groups. What the
  operating system, the network, the clock and other programs answer is an argument or an
  environment record (\<open>host_env\<close>, \<open>session_env\<close>, \<open>proc_env\<close>, \<open>mirror_env\<close>, \<open>auth_env\<close>,
  \<open>paste_env\<close>, \<open>ensure_env\<close>, \<open>world\<close>). Effects on other tasks are recorded in a log (\<open>dc_effects\<close>), the messages of a
  session in \<open>sn_traffic\<close>; no operation reads either.

  What the groups of theorems show. Framing: messages survive any cut into reads, oversized lines are
  skipped, a message of exactly the limit is lost. Host state: in every interleaving a host port is given out
  once, and between handlers the table of used ports is exact. Handlers: the outcome of a forward, the
  inertness of a superseded connection, the power of the token, the bytes of a data
  connection, the heartbeat, the list, the socket forwards. Tracker and pending table: the
  drain misses no wakeup, and the rendezvous follows its trace specification. Container: the scan is exact and its
  early stop changes nothing, a session keeps in its table what its messages say, only a refused
  registration ends the reconnection. EndToEnd: the host that has read what a session wrote holds the same
  ports, or has refused one. Tunnel: a client and a service exchange exactly their bytes, a failure ends the wait,
  and in every interleaving no client is bridged to a connection that was not opened for it; containers reach no host
  socket but those of the last scan. Clipboard and paste: copied files are captured whole and in order, the images arrive unchanged, only with the token, all or
  none, and the text typed into a terminal is read back as exactly their paths. Configuration and
  commands: values come from the first layer that has them, the token is stable and shared by the
  commands, \<open>dbr ensure\<close> spawns the daemon that it was asked for, and no daemon is open unless it was asked to be; a daemon ends only when told to and cleans up. Some theorems state weaknesses of the
  code: clients of equal container ports reach one container only, overlapping registrations
  leak a port, an unforward needs no token, a stop is reported whatever the daemon did.

  Bounds and fuel. The port search is a \<open>partial_function\<close>: not to return is a value, and it occurs
  only for a used privileged port. Reading loops end because every turn uses up reads (\<open>reads_left\<close>);
  the grace period ends because the clock passes its deadline; all other loops recurse on
  lists of events. Nothing else is bounded.

  Not modelled. The tokio runtime, the delivery of signals, the records of tracing and help texts. The pasteboard
  and \<open>osascript\<close>, and the crates serde\_json, toml, regex, glob, uuid, getrandom, tempfile and clap (how it splits the
  command line) are parameters. That the identifiers of clients are fresh and not guessed is a premise of the steps of TunnelSystem. The two daemons run under arbitrary but finite lists of events, so a theorem says
  what holds after any number of them; that an event ever comes is not stated. EndToEnd covers
  one connection whose host loop is busy with reads; refusals that are still on their way
  when a port is announced again are outside it, and are where container and host can disagree.
\<close>

end
